(* ===== verification/Prelude.thy ===== *)
theory Prelude
  imports Main "HOL-Library.Word"
begin

unbundle bit_operations_syntax

section \<open>Vocabulary shared by the models of the Go packages\<close>

text \<open>
  Machine integers, the outcome of a Go call (a value, an error value, or a run-time panic),
  signed 64-bit wrap-around, and byte buffers. Nothing here models one particular function of
  the repository; the names follow the Go language and its standard library (\<open>copy\<close>,
  \<open>binary.BigEndian.PutUint16\<close> and so on).
\<close>

subsection \<open>Machine integers\<close>

type_synonym u8 = "8 word"
type_synonym u16 = "16 word"
type_synonym u32 = "32 word"
type_synonym u64 = "64 word"

type_synonym bytes = "u8 list"

text \<open>
  Go's \<open>int\<close> and \<open>int64\<close> on the 64-bit platforms the program runs on: a HOL \<open>int\<close> kept
  in the signed 64-bit range, every addition and multiplication being followed by \<open>wrap64\<close>
  where the source does not bound its operands.
\<close>

definition wrap64 :: "int \<Rightarrow> int" where
  "wrap64 x = (x + 9223372036854775808) mod 18446744073709551616 - 9223372036854775808"

definition in_int64 :: "int \<Rightarrow> bool" where
  "in_int64 x \<longleftrightarrow> - 9223372036854775808 \<le> x \<and> x < 9223372036854775808"

lemma wrap64_id [simp]: "in_int64 x \<Longrightarrow> wrap64 x = x"
  by (simp add: wrap64_def in_int64_def)

lemma in_int64_wrap64 [simp]: "in_int64 (wrap64 x)"
  unfolding wrap64_def in_int64_def
  using pos_mod_bound [of 18446744073709551616 "x + 9223372036854775808"]
    pos_mod_sign [of 18446744073709551616 "x + 9223372036854775808"]
  by simp

lemma wrap64_idem [simp]: "wrap64 (wrap64 x) = wrap64 x"
  by simp

lemma in_int64_between: "in_int64 a \<Longrightarrow> in_int64 b \<Longrightarrow> a \<le> x \<Longrightarrow> x \<le> b \<Longrightarrow> in_int64 x"
  by (simp add: in_int64_def)

subsection \<open>Outcomes of a call\<close>

text \<open>
  A Go function that returns \<open>(v, err)\<close> either returns a value or an error; besides that it
  may panic, which ends the process unless somebody recovers. The panics are the run-time
  errors the source can raise.
\<close>

datatype panic =
    Index_Out_Of_Range
  | Slice_Bounds
  | Slice_To_Array
  | Divide_By_Zero
  | Make_Slice_Len
  | Make_Chan_Size
  | Close_Closed_Channel
  | Send_On_Closed_Channel
  | Nil_Dereference
  | Rand_Argument
  | Explicit_Panic

datatype ('e, 'a) res = Ok 'a | Err 'e | Panic panic

fun bind_res :: "('e, 'a) res \<Rightarrow> ('a \<Rightarrow> ('e, 'b) res) \<Rightarrow> ('e, 'b) res" where
  "bind_res (Ok x) f = f x"
| "bind_res (Err e) f = Err e"
| "bind_res (Panic p) f = Panic p"

fun map_ok :: "('a \<Rightarrow> 'b) \<Rightarrow> ('e, 'a) res \<Rightarrow> ('e, 'b) res" where
  "map_ok f (Ok x) = Ok (f x)"
| "map_ok f (Err e) = Err e"
| "map_ok f (Panic p) = Panic p"

fun is_panic :: "('e, 'a) res \<Rightarrow> bool" where
  "is_panic (Panic p) = True"
| "is_panic r = False"

lemma bind_res_Ok_iff: "bind_res r f = Ok y \<longleftrightarrow> (\<exists>x. r = Ok x \<and> f x = Ok y)"
  by (cases r) auto

lemma map_ok_Ok_iff: "map_ok f r = Ok y \<longleftrightarrow> (\<exists>x. r = Ok x \<and> y = f x)"
  by (cases r) auto

lemma is_panic_iff: "is_panic r \<longleftrightarrow> (\<exists>p. r = Panic p)"
  by (cases r) auto

text \<open>
  Functions without an error result have the error type \<open>unit\<close> and never yield \<open>Err\<close>. Called
  from a function with an error result, they are lifted: their value and their panics pass.
\<close>

fun no_err :: "'e \<Rightarrow> (unit, 'a) res \<Rightarrow> ('e, 'a) res" where
  "no_err e (Ok x) = Ok x"
| "no_err e (Panic p) = Panic p"
| "no_err e (Err u) = Err e"

text \<open>Indexing a slice panics outside its bounds.\<close>

definition index_slice :: "'a list \<Rightarrow> nat \<Rightarrow> ('e, 'a) res" where
  "index_slice xs i = (if i < length xs then Ok (xs ! i) else Panic Index_Out_Of_Range)"

lemma index_slice_Ok [simp]: "i < length xs \<Longrightarrow> index_slice xs i = Ok (xs ! i)"
  by (simp add: index_slice_def)

lemma index_slice_Panic [simp]: "length xs \<le> i \<Longrightarrow> index_slice xs i = Panic Index_Out_Of_Range"
  by (simp add: index_slice_def)

subsection \<open>Byte buffers\<close>

text \<open>
  \<open>copy(buf[k:], src)\<close> copies as many bytes as fit; the buffer keeps its length.
\<close>

definition copy_at :: "nat \<Rightarrow> 'a list \<Rightarrow> 'a list \<Rightarrow> 'a list" where
  "copy_at k src buf =
     (let n = min (length src) (length buf - k)
      in take k buf @ take n src @ drop (k + n) buf)"

lemma length_copy_at [simp]: "k \<le> length buf \<Longrightarrow> length (copy_at k src buf) = length buf"
  by (auto simp: copy_at_def Let_def)

lemma copy_at_fits:
  "k + length src \<le> length buf \<Longrightarrow>
   copy_at k src buf = take k buf @ src @ drop (k + length src) buf"
  by (simp add: copy_at_def)

lemma nth_copy_at_before:
  "i < k \<Longrightarrow> k \<le> length buf \<Longrightarrow> copy_at k src buf ! i = buf ! i"
  by (simp add: copy_at_def Let_def nth_append)

lemma take_copy_at [simp]: "k \<le> length buf \<Longrightarrow> take k (copy_at k src buf) = take k buf"
  by (simp add: copy_at_def Let_def)

lemma nth_copy_at_in:
  assumes "k \<le> i" "i < k + length src" "k + length src \<le> length buf"
  shows "copy_at k src buf ! i = src ! (i - k)"
  using assms by (auto simp: copy_at_fits nth_append)

lemma nth_copy_at_after:
  assumes "k + length src \<le> i" "i < length buf"
  shows "copy_at k src buf ! i = buf ! i"
  using assms by (auto simp: copy_at_fits nth_append)

text \<open>\<open>binary.BigEndian.PutUint16(buf[k:], v)\<close> and \<open>PutUint32\<close>.\<close>

definition hi8 :: "u16 \<Rightarrow> u8" where
  "hi8 v = ucast (drop_bit 8 v)"

definition lo8 :: "u16 \<Rightarrow> u8" where
  "lo8 v = ucast v"

definition put_be16 :: "nat \<Rightarrow> u16 \<Rightarrow> bytes \<Rightarrow> bytes" where
  "put_be16 k v buf = buf[k := hi8 v, k + 1 := lo8 v]"

definition put_be32 :: "nat \<Rightarrow> u32 \<Rightarrow> bytes \<Rightarrow> bytes" where
  "put_be32 k v buf =
     buf[k := ucast (drop_bit 24 v), k + 1 := ucast (drop_bit 16 v),
         k + 2 := ucast (drop_bit 8 v), k + 3 := ucast v]"

definition be16 :: "u8 \<Rightarrow> u8 \<Rightarrow> u16" where
  "be16 h l = push_bit 8 (ucast h) OR ucast l"

definition get_be16 :: "nat \<Rightarrow> bytes \<Rightarrow> u16" where
  "get_be16 k buf = be16 (buf ! k) (buf ! (k + 1))"

definition get_be32 :: "nat \<Rightarrow> bytes \<Rightarrow> u32" where
  "get_be32 k buf =
     push_bit 24 (ucast (buf ! k)) OR push_bit 16 (ucast (buf ! (k + 1)))
       OR push_bit 8 (ucast (buf ! (k + 2))) OR ucast (buf ! (k + 3))"

lemma length_put_be16 [simp]: "length (put_be16 k v buf) = length buf"
  by (simp add: put_be16_def)

lemma length_put_be32 [simp]: "length (put_be32 k v buf) = length buf"
  by (simp add: put_be32_def)

lemma be16_hi_lo [simp]: "be16 (hi8 v) (lo8 v) = v"
  by (rule bit_word_eqI)
    (auto simp: be16_def hi8_def lo8_def bit_or_iff bit_push_bit_iff bit_ucast_iff bit_drop_bit_eq)

lemma hi8_be16 [simp]: "hi8 (be16 h l) = h"
  by (rule bit_word_eqI)
    (auto simp: be16_def hi8_def bit_or_iff bit_push_bit_iff bit_ucast_iff bit_drop_bit_eq
      dest: bit_imp_le_length)

lemma lo8_be16 [simp]: "lo8 (be16 h l) = l"
  by (rule bit_word_eqI)
    (auto simp: be16_def lo8_def bit_or_iff bit_push_bit_iff bit_ucast_iff)

lemma unat_u8_less: "unat (x :: u8) < 256"
  using unsigned_less [of x, where ?'a = nat] by simp

lemma unat_u16_less: "unat (x :: u16) < 65536"
  using unsigned_less [of x, where ?'a = nat] by simp

lemma unat_u32_less: "unat (x :: u32) < 4294967296"
  using unsigned_less [of x, where ?'a = nat] by simp

lemma unat_be16: "unat (be16 h l) = 256 * unat h + unat l"
proof -
  have disj: "push_bit 8 (ucast h :: u16) AND ucast l = 0"
    by (rule bit_word_eqI)
      (auto simp: bit_and_iff bit_push_bit_iff bit_ucast_iff dest: bit_imp_le_length)
  have "be16 h l = push_bit 8 (ucast h) + ucast l"
    unfolding be16_def using disj by (simp add: disjunctive_add_eq_or)
  also have "unat \<dots> = 256 * unat h + unat l"
    using unat_u8_less [of h] unat_u8_less [of l]
    by (simp add: unat_word_ariths push_bit_eq_mult unsigned_ucast_eq take_bit_nat_eq_self)
  finally show ?thesis .
qed

lemma nth_put_be16:
  "k + 1 < length buf \<Longrightarrow>
   put_be16 k v buf ! i = (if i = k then hi8 v else if i = k + 1 then lo8 v else buf ! i)"
  by (auto simp: put_be16_def nth_list_update)

lemma nth_put_be32:
  "k + 3 < length buf \<Longrightarrow>
   put_be32 k v buf ! i =
     (if i = k then ucast (drop_bit 24 v) else if i = k + 1 then ucast (drop_bit 16 v)
      else if i = k + 2 then ucast (drop_bit 8 v) else if i = k + 3 then ucast v else buf ! i)"
  by (auto simp: put_be32_def nth_list_update)

lemma get_put_be16 [simp]: "k + 1 < length buf \<Longrightarrow> get_be16 k (put_be16 k v buf) = v"
  by (simp add: get_be16_def nth_put_be16)

lemma be32_bytes:
  "push_bit 24 (ucast (ucast (drop_bit 24 v) :: u8)) OR push_bit 16 (ucast (ucast (drop_bit 16 v) :: u8))
     OR push_bit 8 (ucast (ucast (drop_bit 8 v) :: u8)) OR ucast (ucast v :: u8) = (v :: u32)"
proof (rule bit_word_eqI)
  fix n :: nat
  assume "n < LENGTH(32)"
  then consider "n < 8" | "8 \<le> n" "n < 16" | "16 \<le> n" "n < 24" | "24 \<le> n" "n < 32"
    by fastforce
  then show "bit (push_bit 24 (ucast (ucast (drop_bit 24 v) :: u8))
      OR push_bit 16 (ucast (ucast (drop_bit 16 v) :: u8))
      OR push_bit 8 (ucast (ucast (drop_bit 8 v) :: u8)) OR ucast (ucast v :: u8) :: u32) n = bit v n"
    by cases (auto simp: bit_or_iff bit_push_bit_iff bit_ucast_iff bit_drop_bit_eq)
qed

lemma get_put_be32 [simp]: "k + 3 < length buf \<Longrightarrow> get_be32 k (put_be32 k v buf) = v"
  using be32_bytes [of v] by (simp add: get_be32_def nth_put_be32)

lemma take_put_be16 [simp]: "n \<le> k \<Longrightarrow> take n (put_be16 k v buf) = take n buf"
  by (simp add: put_be16_def)

subsection \<open>Lists\<close>

lemma nth_upd_mod: "i < length xs \<Longrightarrow> xs[i := x] ! j = (if j = i then x else xs ! j)"
  by auto

lemma sum_list_update_int:
  "i < length xs \<Longrightarrow> sum_list (xs[i := x]) = sum_list xs + (x - xs ! i)" for xs :: "int list"
proof (induction xs arbitrary: i)
  case Nil
  then show ?case by simp
next
  case (Cons a xs)
  then show ?case by (cases i) auto
qed

end
