(* ===== verification/Distributor.thy ===== *)
theory Distributor
  imports Prelude "HOL-Library.Multiset"
begin

section \<open>Load distribution (\<open>pkg/distributor/distributor.go\<close>)\<close>

text \<open>
  \<open>RoundRobin\<close> hands out its resources in turn by an atomic 32-bit counter;
  \<open>WeightedRoundRobin\<close> builds, once, a schedule of \<open>totalWeight\<close> picks and then is a
  round robin over that schedule. The interface \<open>Interface[T]\<close> is the locale
  \<open>distributor\<close>, interpreted on both types; the fairness results say that a full turn
  hands out every resource exactly as often as its weight.
\<close>

subsection \<open>The interface\<close>

text \<open>
  What a client of \<open>Interface[T]\<close> relies on: in a well-formed state \<open>Next\<close> returns one
  of the pooled resources and leaves a well-formed state with the same pool.
\<close>

locale distributor =
  fixes "next" :: "'s \<Rightarrow> (unit, 'a \<times> 's) res"
    and pool :: "'s \<Rightarrow> 'a list"
    and wf :: "'s \<Rightarrow> bool"
  assumes next_Ok: "wf s \<Longrightarrow> \<exists>x s'. next s = Ok (x, s') \<and> x \<in> set (pool s)"
    and next_wf: "wf s \<Longrightarrow> next s = Ok (x, s') \<Longrightarrow> wf s'"
    and next_pool: "wf s \<Longrightarrow> next s = Ok (x, s') \<Longrightarrow> pool s' = pool s"
begin

lemma next_no_panic: "wf s \<Longrightarrow> \<not> is_panic (next s)"
  using next_Ok by (metis is_panic.simps(2))

lemma next_in_pool: "wf s \<Longrightarrow> next s = Ok (x, s') \<Longrightarrow> x \<in> set (pool s)"
  using next_Ok by (metis prod.inject res.inject(1))

end

text \<open>Several draws in a row, from any \<open>Next\<close> operation.\<close>

fun draws :: "('s \<Rightarrow> (unit, 'a \<times> 's) res) \<Rightarrow> nat \<Rightarrow> 's \<Rightarrow> (unit, 'a list \<times> 's) res" where
  "draws nxt 0 s = Ok ([], s)"
| "draws nxt (Suc n) s =
     (case nxt s of
        Ok (x, s') \<Rightarrow> map_ok (\<lambda>(xs, s''). (x # xs, s'')) (draws nxt n s')
      | Err e \<Rightarrow> Err e
      | Panic p \<Rightarrow> Panic p)"

context distributor
begin

lemma draws_Ok:
  "wf s \<Longrightarrow> \<exists>xs s'. draws next n s = Ok (xs, s') \<and> length xs = n \<and> set xs \<subseteq> set (pool s)
     \<and> wf s' \<and> pool s' = pool s"
proof (induction n arbitrary: s)
  case 0
  then show ?case by simp
next
  case (Suc n)
  from next_Ok [OF Suc.prems] obtain x s' where x: "next s = Ok (x, s')" "x \<in> set (pool s)"
    by blast
  with Suc.prems have "wf s'" and p: "pool s' = pool s"
    by (auto intro: next_wf next_pool)
  from Suc.IH [OF this(1)] x p show ?case by auto
qed

end

subsection \<open>Round robin\<close>

record 'a round_robin =
  resources :: "'a list"
  rr_next_ctr :: u32

definition NewRoundRobin :: "'a list \<Rightarrow> 'a round_robin" where
  "NewRoundRobin rs = \<lparr>resources = rs, rr_next_ctr = 0\<rparr>"

text \<open>
  \<open>Next\<close>: the counter is incremented atomically, modulo \<open>2^32\<close>; the index is taken modulo
  \<open>uint32(len(r.resources))\<close>, and a zero divisor panics.
\<close>

definition rr_Next :: "'a round_robin \<Rightarrow> (unit, 'a \<times> 'a round_robin) res" where
  "rr_Next r =
     (let n = rr_next_ctr r + 1; l = (word_of_nat (length (resources r)) :: u32)
      in if l = 0 then Panic Divide_By_Zero
         else map_ok (\<lambda>x. (x, r\<lparr>rr_next_ctr := n\<rparr>)) (index_slice (resources r) (unat (n mod l))))"

text \<open>A pool the counter can index: not empty, and short enough for \<open>uint32\<close>.\<close>

definition rr_wf :: "'a round_robin \<Rightarrow> bool" where
  "rr_wf r \<longleftrightarrow> resources r \<noteq> [] \<and> length (resources r) < 4294967296"

lemma unat_length_u32:
  "length rs < 4294967296 \<Longrightarrow> unat (word_of_nat (length rs) :: u32) = length rs"
  by (simp add: unat_of_nat take_bit_nat_eq_self)

lemma rr_Next_eq:
  assumes "rr_wf r"
  shows "rr_Next r =
    Ok (resources r ! (unat (rr_next_ctr r + 1) mod length (resources r)),
        r\<lparr>rr_next_ctr := rr_next_ctr r + 1\<rparr>)"
proof -
  let ?l = "word_of_nat (length (resources r)) :: u32"
  from assms have l: "unat ?l = length (resources r)" and "resources r \<noteq> []"
    by (auto simp: rr_wf_def unat_length_u32)
  then have "?l \<noteq> 0" by (metis length_0_conv unat_0)
  moreover have "unat ((rr_next_ctr r + 1) mod ?l) = unat (rr_next_ctr r + 1) mod length (resources r)"
    using l by (simp add: unat_mod_distrib)
  ultimately show ?thesis
    using \<open>resources r \<noteq> []\<close> by (simp add: rr_Next_def Let_def)
qed

interpretation rr: distributor rr_Next resources rr_wf
proof
  fix s :: "'a round_robin"
  assume "rr_wf s"
  then have "resources s \<noteq> []" by (simp add: rr_wf_def)
  with rr_Next_eq [OF \<open>rr_wf s\<close>] show "\<exists>x s'. rr_Next s = Ok (x, s') \<and> x \<in> set (resources s)"
    by simp
next
  fix s s' :: "'a round_robin" and x
  assume "rr_wf s" "rr_Next s = Ok (x, s')"
  with rr_Next_eq show "rr_wf s'" by (fastforce simp: rr_wf_def)
next
  fix s s' :: "'a round_robin" and x
  assume "rr_wf s" "rr_Next s = Ok (x, s')"
  with rr_Next_eq show "resources s' = resources s" by fastforce
qed

lemma rr_draws_eq:
  "rr_wf r \<Longrightarrow> unat (rr_next_ctr r) + m < 4294967296 \<Longrightarrow>
   draws rr_Next m r =
     Ok (map (\<lambda>k. resources r ! ((unat (rr_next_ctr r) + 1 + k) mod length (resources r))) [0..<m],
         r\<lparr>rr_next_ctr := rr_next_ctr r + word_of_nat m\<rparr>)"
proof (induction m arbitrary: r)
  case 0
  then show ?case by simp
next
  case (Suc m)
  let ?r = "r\<lparr>rr_next_ctr := rr_next_ctr r + 1\<rparr>"
  have wf: "rr_wf ?r" using Suc.prems(1) by (simp add: rr_wf_def)
  have ctr: "unat (1 + rr_next_ctr r) = unat (rr_next_ctr r) + 1"
    using Suc.prems(2) by (simp add: unat_word_ariths)
  with Suc.prems(2) have b: "unat (rr_next_ctr ?r) + m < 4294967296"
    by (simp add: add.commute)
  show ?case
    using Suc.IH [OF wf b] Suc.prems(1)
    by (simp add: rr_Next_eq ctr upt_conv_Cons map_Suc_upt [symmetric] algebra_simps
        del: map_Suc_upt upt_Suc)
qed

lemma nth_mod_rotate:
  assumes "xs \<noteq> []"
  shows "map (\<lambda>k. xs ! ((c + k) mod length xs)) [0..<length xs] = rotate c xs"
  by (rule nth_equalityI) (simp_all add: nth_rotate)

lemma rr_full_turn:
  assumes "rr_wf r" "unat (rr_next_ctr r) + length (resources r) < 4294967296"
  shows "\<exists>r'. draws rr_Next (length (resources r)) r
      = Ok (rotate (unat (rr_next_ctr r) + 1) (resources r), r')"
  using rr_draws_eq [OF assms] nth_mod_rotate [of "resources r" "unat (rr_next_ctr r) + 1"] assms(1)
  by (simp add: rr_wf_def)

subsection \<open>Weighted round robin\<close>

record 'a weighted_resource =
  wR :: 'a
  Weight :: int
  currentWeight :: int

text \<open>
  One iteration of the loop of \<open>calc\<close>. The loop variable \<open>rr\<close> is a copy taken before
  \<open>r.resources[i].currentWeight\<close> is increased, while \<open>got\<close> is a pointer into the slice:
  the old weight of the element is compared with the new weight of the best one so far.
\<close>

definition calc_body ::
  "nat \<Rightarrow> 'a weighted_resource list \<times> nat \<times> int \<Rightarrow> 'a weighted_resource list \<times> nat \<times> int" where
  "calc_body i st =
     (case st of (rs, got, tot) \<Rightarrow>
        let rr = rs ! i;
            rs' = rs[i := (rs ! i)\<lparr>currentWeight := wrap64 (currentWeight (rs ! i) + Weight rr)\<rparr>];
            tot' = wrap64 (tot + Weight rr);
            got' = (if currentWeight rr > currentWeight (rs' ! got) then i else got)
        in (rs', got', tot'))"

text \<open>
  \<open>calc\<close> returns the chosen index beside the updated resources; \<open>&r.resources[0]\<close> panics on
  an empty slice.
\<close>

definition calc_pick :: "'a weighted_resource list \<Rightarrow> nat \<times> 'a weighted_resource list" where
  "calc_pick rs =
     (case fold calc_body [0..<length rs] (rs, 0, 0) of (rs', got, tot) \<Rightarrow>
        (got, rs'[got := (rs' ! got)\<lparr>currentWeight := wrap64 (currentWeight (rs' ! got) - tot)\<rparr>]))"

definition calc :: "'a weighted_resource list \<Rightarrow> (unit, 'a \<times> 'a weighted_resource list) res" where
  "calc rs =
     (if rs = [] then Panic Index_Out_Of_Range
      else case calc_pick rs of (got, rs') \<Rightarrow> Ok (wR (rs' ! got), rs'))"

record 'a weighted_round_robin =
  wresources :: "'a weighted_resource list"
  wrr :: "'a round_robin"

definition totalWeight :: "'a weighted_resource list \<Rightarrow> int" where
  "totalWeight rs = fold (\<lambda>r t. wrap64 (t + Weight r)) rs 0"

definition NewWeightedRoundRobin ::
  "'a weighted_resource list \<Rightarrow> (unit, 'a weighted_round_robin) res" where
  "NewWeightedRoundRobin rs =
     (if totalWeight rs < 0 then Panic Make_Slice_Len
      else map_ok (\<lambda>(xs, rs'). \<lparr>wresources = rs', wrr = NewRoundRobin xs\<rparr>)
             (draws calc (nat (totalWeight rs)) rs))"

definition wrr_Next ::
  "'a weighted_round_robin \<Rightarrow> (unit, 'a \<times> 'a weighted_round_robin) res" where
  "wrr_Next w = map_ok (\<lambda>(x, r). (x, w\<lparr>wrr := r\<rparr>)) (rr_Next (wrr w))"

interpretation wrr: distributor wrr_Next "\<lambda>w. resources (wrr w)" "\<lambda>w. rr_wf (wrr w)"
  by unfold_locales (auto simp: wrr_Next_def rr_Next_eq rr_wf_def)

subsection \<open>What one pick does\<close>

text \<open>The current weights and the weights as plain lists.\<close>

abbreviation weights :: "'a weighted_resource list \<Rightarrow> int list" where
  "weights rs \<equiv> map Weight rs"

abbreviation currents :: "'a weighted_resource list \<Rightarrow> int list" where
  "currents rs \<equiv> map currentWeight rs"

text \<open>
  The invariant between picks: all weights positive, the current weights sum to zero and stay
  above \<open>-W\<close>, and \<open>W\<close> times the number of resources fits a signed 64-bit number.
\<close>

definition wrr_inv :: "'a weighted_resource list \<Rightarrow> bool" where
  "wrr_inv rs \<longleftrightarrow>
     rs \<noteq> [] \<and> (\<forall>r \<in> set rs. 0 < Weight r) \<and> sum_list (currents rs) = 0
     \<and> (\<forall>r \<in> set rs. - sum_list (weights rs) < currentWeight r)
     \<and> int (length rs) * sum_list (weights rs) < 9223372036854775808"

lemma sum_list_bound_above:
  fixes xs :: "int list"
  assumes "\<forall>x \<in> set xs. - w < x" "x \<in> set xs" "0 \<le> w"
  shows "x \<le> sum_list xs + (int (length xs) - 1) * w"
  using assms
proof (induction xs)
  case Nil
  then show ?case by simp
next
  case (Cons a xs)
  have lower: "- (int (length ys) * w) \<le> sum_list ys" if "\<forall>y \<in> set ys. - w < y" for ys
    using that by (induction ys) (auto simp: algebra_simps)
  show ?case
  proof (cases "x = a")
    case True
    with lower [of xs] Cons.prems show ?thesis by simp
  next
    case False
    with Cons have "x \<le> sum_list xs + (int (length xs) - 1) * w" by simp
    moreover have "- w < a" using Cons.prems by simp
    ultimately show ?thesis by (simp add: algebra_simps)
  qed
qed

lemma sum_list_weights_nonneg:
  "\<forall>r \<in> set rs. 0 < Weight r \<Longrightarrow> 0 \<le> sum_list (weights rs)"
  by (auto intro!: sum_list_nonneg simp: less_imp_le)

lemma sum_list_pos_le:
  "\<forall>r \<in> set rs. 0 < Weight r \<Longrightarrow> r \<in> set rs \<Longrightarrow> Weight r \<le> sum_list (weights rs)"
  by (induction rs) (auto dest: sum_list_weights_nonneg)

lemma wrr_inv_bounds:
  assumes "wrr_inv rs" "r \<in> set rs"
  shows "currentWeight r \<le> (int (length rs) - 1) * sum_list (weights rs)"
    and "0 < Weight r" "Weight r \<le> sum_list (weights rs)"
    and "- sum_list (weights rs) < currentWeight r"
proof -
  let ?w = "sum_list (weights rs)"
  from assms have pos: "\<forall>r \<in> set rs. 0 < Weight r" by (simp add: wrr_inv_def)
  then have "0 \<le> ?w" by (rule sum_list_weights_nonneg)
  with assms sum_list_bound_above [of "currents rs" ?w "currentWeight r"]
  show "currentWeight r \<le> (int (length rs) - 1) * ?w" by (simp add: wrr_inv_def)
  from pos assms(2) show "0 < Weight r" "Weight r \<le> ?w"
    by (simp_all add: sum_list_pos_le)
  from assms show "- ?w < currentWeight r" by (simp add: wrr_inv_def)
qed

lemma wrr_inv_no_wrap:
  assumes "wrr_inv rs" "r \<in> set rs"
  shows "in_int64 (currentWeight r + Weight r)"
    and "0 < currentWeight r + Weight r \<Longrightarrow>
      in_int64 (currentWeight r + Weight r - sum_list (weights rs))"
    and "in_int64 (sum_list (weights rs))"
proof -
  let ?w = "sum_list (weights rs)" and ?n = "int (length rs)"
  note b = wrr_inv_bounds [OF assms]
  from b(1,3) have up: "currentWeight r + Weight r \<le> ?n * ?w" by (simp add: algebra_simps)
  from b have low: "- ?w < currentWeight r + Weight r" by simp
  from assms have lim: "?n * ?w < 9223372036854775808" and "1 \<le> ?n"
    by (auto simp: wrr_inv_def Suc_le_eq)
  with b(2,3) have w: "?w \<le> ?n * ?w"
    using mult_right_mono [of 1 ?n ?w] by auto
  with up low lim b(2,3) show "in_int64 (currentWeight r + Weight r)" "in_int64 ?w"
    unfolding in_int64_def by linarith+
  assume "0 < currentWeight r + Weight r"
  with b(2,3) up lim w show "in_int64 (currentWeight r + Weight r - ?w)"
    unfolding in_int64_def by linarith
qed

text \<open>
  The loop of \<open>calc\<close> after its first \<open>k\<close> iterations: the first \<open>k\<close> current weights are
  increased, \<open>got\<close> is among them, no old weight seen exceeds the new weight of \<open>got\<close>, and
  the old weight of resource 0 is strictly below it.
\<close>

definition bumped :: "nat \<Rightarrow> 'a weighted_resource list \<Rightarrow> 'a weighted_resource list" where
  "bumped k rs =
     map (\<lambda>r. r\<lparr>currentWeight := currentWeight r + Weight r\<rparr>) (take k rs) @ drop k rs"

lemma length_bumped [simp]: "length (bumped k rs) = length rs"
  by (simp add: bumped_def)

lemma nth_bumped:
  "i < length rs \<Longrightarrow> bumped k rs ! i =
     (if i < k then (rs ! i)\<lparr>currentWeight := currentWeight (rs ! i) + Weight (rs ! i)\<rparr> else rs ! i)"
  by (auto simp: bumped_def nth_append)

lemma bumped_step:
  "k < length rs \<Longrightarrow>
   (bumped k rs)[k := (rs ! k)\<lparr>currentWeight := currentWeight (rs ! k) + Weight (rs ! k)\<rparr>]
     = bumped (Suc k) rs"
  by (rule nth_equalityI) (auto simp: nth_bumped nth_list_update less_Suc_eq)

definition new_weight :: "'a weighted_resource list \<Rightarrow> nat \<Rightarrow> int" where
  "new_weight rs i = currentWeight (rs ! i) + Weight (rs ! i)"

lemma calc_loop:
  assumes inv: "wrr_inv rs" and k: "0 < k" "k \<le> length rs"
  shows "\<exists>got < k. fold calc_body [0..<k] (rs, 0, 0)
           = (bumped k rs, got, sum_list (weights (take k rs)))
         \<and> (\<forall>j < k. currentWeight (rs ! j) \<le> new_weight rs got)
         \<and> currentWeight (rs ! 0) < new_weight rs got"
  using k
proof (induction k)
  case 0
  then show ?case by simp
next
  case (Suc k)
  have kl: "k < length rs" and mem: "rs ! k \<in> set rs" using Suc.prems by auto
  have wk: "0 < Weight (rs ! k)" using wrr_inv_bounds(2) [OF inv mem] .
  have nw: "wrap64 (currentWeight (rs ! k) + Weight (rs ! k)) = currentWeight (rs ! k) + Weight (rs ! k)"
    using wrr_inv_no_wrap(1) [OF inv mem] by simp
  have pos: "\<forall>r \<in> set rs. 0 < Weight r" using inv by (simp add: wrr_inv_def)
  have "sum_list (weights (take (Suc k) rs)) + sum_list (weights (drop (Suc k) rs)) = sum_list (weights rs)"
    by (metis append_take_drop_id map_append sum_list_append)
  moreover have "0 \<le> sum_list (weights (drop (Suc k) rs))" "0 \<le> sum_list (weights (take (Suc k) rs))"
    using pos by (auto intro!: sum_list_weights_nonneg dest: in_set_dropD in_set_takeD)
  ultimately have tot: "in_int64 (sum_list (weights (take (Suc k) rs)))"
    using wrr_inv_no_wrap(3) [OF inv mem] by (auto simp: in_int64_def)
  have take: "sum_list (weights (take (Suc k) rs)) = sum_list (weights (take k rs)) + Weight (rs ! k)"
    using kl by (simp add: take_Suc_conv_app_nth)
  show ?case
  proof (cases k)
    case 0
    with nw tot take wk kl show ?thesis
      using bumped_step [OF kl] by (simp add: calc_body_def Let_def new_weight_def bumped_def)
  next
    case (Suc k')
    with Suc.IH kl obtain got where got: "got < k"
      and fold: "fold calc_body [0..<k] (rs, 0, 0) = (bumped k rs, got, sum_list (weights (take k rs)))"
      and all: "\<forall>j < k. currentWeight (rs ! j) \<le> new_weight rs got"
      and zero: "currentWeight (rs ! 0) < new_weight rs got"
      by auto
    have bk: "bumped k rs ! k = rs ! k" using kl by (simp add: nth_bumped)
    have bg: "currentWeight (bumped (Suc k) rs ! got) = new_weight rs got"
      using got kl by (simp add: nth_bumped new_weight_def)
    let ?got = "if currentWeight (rs ! k) > new_weight rs got then k else got"
    have "fold calc_body [0..<Suc k] (rs, 0, 0)
        = (bumped (Suc k) rs, ?got, sum_list (weights (take (Suc k) rs)))"
      using fold bk nw tot take bumped_step [OF kl] bg
      by (simp add: calc_body_def Let_def)
    moreover have "currentWeight (rs ! k) < new_weight rs k"
      using wk by (simp add: new_weight_def)
    ultimately show ?thesis
      using all zero got by (intro exI [of _ ?got]) (auto simp: less_Suc_eq)
  qed
qed

text \<open>
  The chosen resource has a positive new weight: were it not, every old weight would be at most
  zero and one of them negative, but they sum to zero.
\<close>

lemma new_weight_pos:
  assumes inv: "wrr_inv rs"
    and all: "\<forall>j < length rs. currentWeight (rs ! j) \<le> m" and zero: "currentWeight (rs ! 0) < m"
  shows "0 < m"
proof (rule ccontr)
  assume "\<not> 0 < m"
  have "\<forall>x \<in> set (currents (tl rs)). x \<le> 0"
  proof
    fix x
    assume "x \<in> set (currents (tl rs))"
    then have "x \<in> set (currents rs)" by (cases rs) auto
    then obtain i where "i < length rs" "x = currentWeight (rs ! i)"
      by (auto simp: in_set_conv_nth)
    with all \<open>\<not> 0 < m\<close> show "x \<le> 0" by fastforce
  qed
  then have "sum_list (currents (tl rs)) \<le> 0"
    by (intro sum_list_nonpos) blast
  moreover have "sum_list (currents rs) = currentWeight (rs ! 0) + sum_list (currents (tl rs))"
    using inv by (cases rs) (auto simp: wrr_inv_def)
  ultimately show False
    using inv zero \<open>\<not> 0 < m\<close> by (simp add: wrr_inv_def)
qed

definition picked :: "nat \<Rightarrow> 'a weighted_resource list \<Rightarrow> 'a weighted_resource list" where
  "picked g rs = (bumped (length rs) rs)
     [g := (rs ! g)\<lparr>currentWeight := new_weight rs g - sum_list (weights rs)\<rparr>]"

lemma calc_pick_spec:
  assumes inv: "wrr_inv rs"
  shows "\<exists>g < length rs. calc_pick rs = (g, picked g rs) \<and> 0 < new_weight rs g"
proof -
  from inv have "0 < length rs" by (simp add: wrr_inv_def)
  from calc_loop [OF inv this order_refl] obtain g where g: "g < length rs"
    and fold: "fold calc_body [0..<length rs] (rs, 0, 0) = (bumped (length rs) rs, g, sum_list (weights rs))"
    and all: "\<forall>j < length rs. currentWeight (rs ! j) \<le> new_weight rs g"
    and zero: "currentWeight (rs ! 0) < new_weight rs g"
    by auto
  from new_weight_pos [OF inv all zero] have pos: "0 < new_weight rs g" .
  have "in_int64 (new_weight rs g - sum_list (weights rs))"
    using wrr_inv_no_wrap(2) [OF inv nth_mem [OF g]] pos by (simp add: new_weight_def)
  with fold g pos show ?thesis
    by (intro exI [of _ g]) (simp add: calc_pick_def picked_def nth_bumped new_weight_def)
qed

lemma nth_picked:
  "i < length rs \<Longrightarrow> g < length rs \<Longrightarrow>
   picked g rs ! i = (rs ! i)\<lparr>currentWeight := new_weight rs i - (if i = g then sum_list (weights rs) else 0)\<rparr>"
  by (simp add: picked_def nth_list_update nth_bumped new_weight_def)

lemma length_picked [simp]: "length (picked g rs) = length rs"
  by (simp add: picked_def)

lemma weights_picked [simp]: "g < length rs \<Longrightarrow> weights (picked g rs) = weights rs"
  by (rule nth_equalityI) (simp_all add: nth_picked)

lemma wR_picked [simp]: "g < length rs \<Longrightarrow> map wR (picked g rs) = map wR rs"
  by (rule nth_equalityI) (simp_all add: nth_picked)

lemma currents_picked:
  "g < length rs \<Longrightarrow>
   currents (picked g rs) = (map (\<lambda>r. currentWeight r + Weight r) rs)
      [g := new_weight rs g - sum_list (weights rs)]"
  by (rule nth_equalityI) (simp_all add: nth_picked nth_list_update new_weight_def)

lemma wrr_inv_picked:
  assumes inv: "wrr_inv rs" and g: "g < length rs" "0 < new_weight rs g"
  shows "wrr_inv (picked g rs)"
proof -
  have "sum_list (currents (picked g rs)) = sum_list (currents rs)"
    using g(1) by (simp add: currents_picked sum_list_update_int sum_list_addf new_weight_def)
  moreover have "\<forall>r \<in> set (picked g rs). 0 < Weight r \<and> - sum_list (weights rs) < currentWeight r"
  proof
    fix r
    assume "r \<in> set (picked g rs)"
    then obtain i where i: "i < length rs" "r = picked g rs ! i"
      by (auto simp: in_set_conv_nth)
    with g wrr_inv_bounds(2,4) [OF inv nth_mem [OF i(1)]]
    show "0 < Weight r \<and> - sum_list (weights rs) < currentWeight r"
      by (simp add: nth_picked new_weight_def)
  qed
  ultimately show ?thesis
    using inv g(1) by (auto simp: wrr_inv_def simp flip: length_greater_0_conv)
qed

lemma calc_spec:
  assumes "wrr_inv rs"
  shows "\<exists>g < length rs. calc rs = Ok (wR (rs ! g), picked g rs) \<and> wrr_inv (picked g rs)"
proof -
  from calc_pick_spec [OF assms] obtain g where g: "g < length rs"
    "calc_pick rs = (g, picked g rs)" "0 < new_weight rs g" by blast
  from g(1) have "wR (picked g rs ! g) = wR (rs ! g)" by (simp add: nth_picked)
  moreover have "rs \<noteq> []" using g(1) by auto
  ultimately show ?thesis
    using g wrr_inv_picked [OF assms g(1,3)] by (auto simp: calc_def)
qed

subsection \<open>A whole schedule\<close>

text \<open>
  After \<open>m\<close> picks the current weight of resource \<open>i\<close> is its old one plus \<open>m\<close> times its
  weight less \<open>W\<close> for each time it was picked.
\<close>

lemma calcs_spec:
  "wrr_inv rs \<Longrightarrow>
   \<exists>js rs'. draws calc m rs = Ok (map (\<lambda>j. wR (rs ! j)) js, rs') \<and> length js = m
     \<and> set js \<subseteq> {..<length rs} \<and> wrr_inv rs' \<and> weights rs' = weights rs \<and> map wR rs' = map wR rs
     \<and> (\<forall>i < length rs. currentWeight (rs' ! i) = currentWeight (rs ! i) + int m * Weight (rs ! i)
           - int (count_list js i) * sum_list (weights rs))"
proof (induction m arbitrary: rs)
  case 0
  then show ?case by (intro exI [of _ "[]"] exI [of _ rs]) simp
next
  case (Suc m)
  from calc_spec [OF Suc.prems] obtain g where g: "g < length rs"
    and c: "calc rs = Ok (wR (rs ! g), picked g rs)" and inv: "wrr_inv (picked g rs)" by blast
  from Suc.IH [OF inv] obtain js rs' where
    d: "draws calc m (picked g rs) = Ok (map (\<lambda>j. wR (picked g rs ! j)) js, rs')" and
    js: "length js = m" "set js \<subseteq> {..<length rs}" "wrr_inv rs'" "weights rs' = weights rs"
      "map wR rs' = map wR rs" and
    cw: "\<forall>i < length rs. currentWeight (rs' ! i) = currentWeight (picked g rs ! i)
           + int m * Weight (picked g rs ! i) - int (count_list js i) * sum_list (weights rs)"
    using g by auto
  have "map (\<lambda>j. wR (picked g rs ! j)) js = map (\<lambda>j. wR (rs ! j)) js"
    using js(2) g by (auto simp: nth_picked)
  with c d js cw g show ?case
    by (intro exI [of _ "g # js"] exI [of _ rs'])
      (auto simp: nth_picked new_weight_def algebra_simps)
qed

lemma map_length_weights: "length rs' = length rs" if "weights rs' = weights rs"
  using that map_eq_imp_length_eq by blast

lemma sum_count_list:
  fixes n :: nat
  shows "set js \<subseteq> {..<n} \<Longrightarrow> (\<Sum>i < n. int (count_list js i)) = int (length js)"
proof (induction js)
  case Nil
  then show ?case by simp
next
  case (Cons j js)
  then have "(\<Sum>i < n. int (count_list (j # js) i)) = (\<Sum>i < n. int (count_list js i) + (if i = j then 1 else 0))"
    by (intro sum.cong) auto
  also have "\<dots> = int (length js) + 1"
    using Cons by (simp add: sum.distrib)
  finally show ?case by simp
qed

lemma sum_list_weights_nth: "sum_list (weights rs) = (\<Sum>i < length rs. Weight (rs ! i))"
  using sum_list_sum_nth [of "weights rs"] by (simp add: atLeast0LessThan)

lemma sum_eq_pointwise:
  fixes f h :: "nat \<Rightarrow> int"
  assumes "\<forall>i < n. f i \<le> h i" "(\<Sum>i < n. f i) = (\<Sum>i < n. h i)" "i < n"
  shows "f i = h i"
proof -
  have "(\<Sum>i < n. h i - f i) = 0" using assms(2) by (simp add: sum_subtractf)
  with assms(1) have "\<forall>i \<in> {..<n}. h i - f i = 0"
    by (subst (asm) sum_nonneg_eq_0_iff) auto
  with assms(3) show ?thesis by auto
qed

text \<open>
  A full schedule, from current weights zero, picks each resource exactly as often as its weight,
  and brings the current weights back to zero.
\<close>

lemma full_schedule:
  assumes inv: "wrr_inv rs" and zero: "\<forall>r \<in> set rs. currentWeight r = 0"
  shows "\<exists>js rs'. draws calc (nat (sum_list (weights rs))) rs = Ok (map (\<lambda>j. wR (rs ! j)) js, rs')
     \<and> length js = nat (sum_list (weights rs)) \<and> set js \<subseteq> {..<length rs}
     \<and> (\<forall>i < length rs. int (count_list js i) = Weight (rs ! i)) \<and> rs' = rs"
proof -
  let ?w = "sum_list (weights rs)"
  have "rs \<noteq> []" "\<forall>r \<in> set rs. 0 < Weight r" using inv by (simp_all add: wrr_inv_def)
  then have "0 < Weight (hd rs)" "Weight (hd rs) \<le> ?w" by (simp_all add: sum_list_pos_le)
  then have w: "0 < ?w" by linarith
  from calcs_spec [OF inv, of "nat ?w"] obtain js rs' where
    d: "draws calc (nat ?w) rs = Ok (map (\<lambda>j. wR (rs ! j)) js, rs')" and
    js: "length js = nat ?w" "set js \<subseteq> {..<length rs}" and inv': "wrr_inv rs'" and
    same: "weights rs' = weights rs" "map wR rs' = map wR rs" and
    cw: "\<forall>i < length rs. currentWeight (rs' ! i) = currentWeight (rs ! i) + int (nat ?w) * Weight (rs ! i)
           - int (count_list js i) * ?w"
    by blast
  have len: "length rs' = length rs" using same(1) by (rule map_length_weights)
  have cw': "currentWeight (rs' ! i) = ?w * (Weight (rs ! i) - int (count_list js i))"
    if "i < length rs" for i
    using cw zero that w by (simp add: algebra_simps)
  have le: "\<forall>i < length rs. int (count_list js i) \<le> Weight (rs ! i)"
  proof (intro allI impI)
    fix i
    assume i: "i < length rs"
    have "- ?w < currentWeight (rs' ! i)"
      using wrr_inv_bounds(4) [OF inv' nth_mem] i len same(1) by simp
    with cw' [OF i] have "?w * (- 1) < ?w * (Weight (rs ! i) - int (count_list js i))" by simp
    with w have "- 1 < Weight (rs ! i) - int (count_list js i)"
      by (simp only: mult_less_cancel_left_pos)
    then show "int (count_list js i) \<le> Weight (rs ! i)" by simp
  qed
  have "int (length js) = ?w" using js(1) w by simp
  then have "(\<Sum>i < length rs. int (count_list js i)) = (\<Sum>i < length rs. Weight (rs ! i))"
    unfolding sum_count_list [OF js(2)] sum_list_weights_nth .
  from sum_eq_pointwise [OF le this]
  have eq: "\<forall>i < length rs. int (count_list js i) = Weight (rs ! i)" by simp
  have "rs' = rs"
  proof (rule nth_equalityI)
    show "length rs' = length rs" by (rule len)
    fix i
    assume "i < length rs'"
    with len have i: "i < length rs" by simp
    have "wR (rs' ! i) = wR (rs ! i)" "Weight (rs' ! i) = Weight (rs ! i)"
      using arg_cong [OF same(2), of "\<lambda>l. l ! i"] arg_cong [OF same(1), of "\<lambda>l. l ! i"] i len
      by simp_all
    moreover have "currentWeight (rs' ! i) = currentWeight (rs ! i)"
      using cw' [OF i] eq zero i by simp
    ultimately show "rs' ! i = rs ! i" by simp
  qed
  with d js eq show ?thesis by blast
qed

subsection \<open>The weighted distributor as a whole\<close>

lemma fold_total:
  "\<forall>r \<in> set rs. 0 < Weight r \<Longrightarrow> 0 \<le> t \<Longrightarrow> in_int64 (t + sum_list (weights rs)) \<Longrightarrow>
   fold (\<lambda>r t. wrap64 (t + Weight r)) rs t = t + sum_list (weights rs)"
proof (induction rs arbitrary: t)
  case Nil
  then show ?case by simp
next
  case (Cons r rs)
  have "0 \<le> sum_list (weights rs)" using Cons.prems(1) by (simp add: sum_list_weights_nonneg)
  with Cons.prems have "in_int64 (t + Weight r)" by (simp add: in_int64_def)
  with Cons show ?case by (simp add: add.assoc)
qed

lemma totalWeight_eq:
  "\<forall>r \<in> set rs. 0 < Weight r \<Longrightarrow> in_int64 (sum_list (weights rs)) \<Longrightarrow>
   totalWeight rs = sum_list (weights rs)"
  using fold_total [of rs 0] by (simp add: totalWeight_def)

text \<open>The multiset in which every resource occurs as often as its weight.\<close>

definition weighted_mset :: "'a weighted_resource list \<Rightarrow> 'a multiset" where
  "weighted_mset rs = (\<Sum>i < length rs. replicate_mset (nat (Weight (rs ! i))) (wR (rs ! i)))"

lemma mset_counts:
  fixes n :: nat
  assumes "set js \<subseteq> {..<n}"
  shows "mset js = (\<Sum>i < n. replicate_mset (count_list js i) i)"
proof (rule multiset_eqI)
  fix i
  have "count (\<Sum>k < n. replicate_mset (count_list js k) k) i
      = (\<Sum>k < n. if k = i then count_list js i else 0)"
    by (auto simp: count_sum intro!: sum.cong)
  also have "\<dots> = count_list js i"
    using assms by (auto simp: count_list_0_iff)
  finally show "count (mset js) i = count (\<Sum>k < n. replicate_mset (count_list js k) k) i"
    by (simp add: count_mset)
qed

lemma mset_map_counts:
  fixes n :: nat
  assumes "set js \<subseteq> {..<n}"
  shows "mset (map f js) = (\<Sum>i < n. replicate_mset (count_list js i) (f i))"
proof -
  have "mset (map f js) = image_mset f (mset js)" by simp
  also have "\<dots> = (\<Sum>i < n. image_mset f (replicate_mset (count_list js i) i))"
    unfolding mset_counts [OF assms] by (induction n) simp_all
  finally show ?thesis by simp
qed

text \<open>Configurations the constructor is meant for: positive weights that fit the counters.\<close>

definition wrr_config :: "'a weighted_resource list \<Rightarrow> bool" where
  "wrr_config rs \<longleftrightarrow>
     rs \<noteq> [] \<and> (\<forall>r \<in> set rs. 0 < Weight r \<and> currentWeight r = 0)
     \<and> int (length rs) * sum_list (weights rs) < 9223372036854775808
     \<and> sum_list (weights rs) < 4294967296"

lemma sum_list_currents_zero: "\<forall>r \<in> set rs. currentWeight r = 0 \<Longrightarrow> sum_list (currents rs) = 0"
  by (induction rs) auto

lemma mset_rotated: "mset (rotate n xs) = mset xs"
  by (metis append_take_drop_id mset_append rotate_drop_take union_commute)

lemma wrr_config_inv: "wrr_config rs \<Longrightarrow> wrr_inv rs"
proof -
  assume c: "wrr_config rs"
  then have "0 < Weight (hd rs)" "Weight (hd rs) \<le> sum_list (weights rs)"
    by (simp_all add: wrr_config_def sum_list_pos_le)
  then have "0 < sum_list (weights rs)" by linarith
  moreover have "sum_list (currents rs) = 0"
    using c by (intro sum_list_currents_zero) (simp add: wrr_config_def)
  ultimately show "wrr_inv rs"
    using c by (auto simp: wrr_config_def wrr_inv_def)
qed

lemma NewWeightedRoundRobin_schedule:
  assumes c: "wrr_config rs"
  shows "\<exists>w. NewWeightedRoundRobin rs = Ok w \<and> wresources w = rs \<and> rr_next_ctr (wrr w) = 0
     \<and> int (length (resources (wrr w))) = sum_list (weights rs)
     \<and> mset (resources (wrr w)) = weighted_mset rs \<and> rr_wf (wrr w)"
proof -
  note inv = wrr_config_inv [OF c]
  let ?w = "sum_list (weights rs)"
  from c have pos: "\<forall>r \<in> set rs. 0 < Weight r" and "rs \<noteq> []" and lim: "?w < 4294967296"
    by (simp_all add: wrr_config_def)
  then have "0 < Weight (hd rs)" "Weight (hd rs) \<le> ?w" by (simp_all add: sum_list_pos_le)
  then have w0: "0 < ?w" by linarith
  have tw: "totalWeight rs = ?w"
    using pos w0 lim by (intro totalWeight_eq) (simp_all add: in_int64_def)
  from c have "\<forall>r \<in> set rs. currentWeight r = 0" by (simp add: wrr_config_def)
  from full_schedule [OF inv this] obtain js where
    d: "draws calc (nat ?w) rs = Ok (map (\<lambda>j. wR (rs ! j)) js, rs)" and len: "length js = nat ?w"
    and js: "set js \<subseteq> {..<length rs}" and cnt: "\<forall>i < length rs. int (count_list js i) = Weight (rs ! i)"
    by blast
  let ?xs = "map (\<lambda>j. wR (rs ! j)) js"
  have "mset ?xs = weighted_mset rs"
    unfolding mset_map_counts [OF js] weighted_mset_def
    by (rule sum.cong) (use cnt in \<open>auto simp flip: cnt\<close>)
  moreover have "rr_wf (NewRoundRobin ?xs)"
    using len w0 lim by (auto simp: rr_wf_def NewRoundRobin_def)
  ultimately show ?thesis
    using d tw w0 len by (simp add: NewWeightedRoundRobin_def NewRoundRobin_def)
qed

lemma draws_wrr:
  "draws wrr_Next m w = map_ok (\<lambda>(xs, r). (xs, w\<lparr>wrr := r\<rparr>)) (draws rr_Next m (wrr w))"
proof (induction m arbitrary: w)
  case 0
  then show ?case by simp
next
  case (Suc m)
  show ?case
  proof (cases "rr_Next (wrr w)")
    case (Ok xr)
    obtain x r where "xr = (x, r)" by fastforce
    with Ok Suc [of "w\<lparr>wrr := r\<rparr>"] show ?thesis
      by (cases "draws rr_Next m r") (auto simp: wrr_Next_def)
  qed (simp_all add: wrr_Next_def)
qed

text \<open>
  C19. Fairness of \<open>NewWeightedRoundRobin\<close> within the bounds of its counters. The configuration has
  positive weights whose sum is below \<open>2^32\<close> and, times their number, below \<open>2^63\<close>. Then the
  constructor returns, no number of \<open>Next\<close> calls panics, and in every window of \<open>totalWeight\<close>
  consecutive calls that starts after \<open>k\<close> calls and ends before the 32-bit counter wraps
  (\<open>k + totalWeight < 2^32\<close>) each resource is handed out exactly as often as its weight says.
  (\<open>rr_wrap\<close> and \<open>weighted_sum_wraps\<close> below say what happens outside of these bounds.)
\<close>

theorem weighted_round_robin_fair:
  assumes "wrr_config rs" and "int k + sum_list (weights rs) < 4294967296"
  shows "\<exists>w ys w1 xs w2. NewWeightedRoundRobin rs = Ok w
     \<and> (\<forall>n. \<not> is_panic (draws wrr_Next n w))
     \<and> draws wrr_Next k w = Ok (ys, w1)
     \<and> draws wrr_Next (nat (sum_list (weights rs))) w1 = Ok (xs, w2)
     \<and> mset xs = weighted_mset rs"
proof -
  from NewWeightedRoundRobin_schedule [OF assms(1)] obtain w where
    w: "NewWeightedRoundRobin rs = Ok w" "rr_next_ctr (wrr w) = 0"
      "int (length (resources (wrr w))) = sum_list (weights rs)"
      "mset (resources (wrr w)) = weighted_mset rs" "rr_wf (wrr w)"
    by blast
  let ?n = "length (resources (wrr w))" and ?r = "(wrr w)\<lparr>rr_next_ctr := word_of_nat k\<rparr>"
  have n: "nat (sum_list (weights rs)) = ?n" and lim: "k + ?n < 4294967296"
    using w(3) assms(2) by linarith+
  have k: "unat (word_of_nat k :: u32) = k"
    using lim by (simp add: unat_of_nat take_bit_nat_eq_self)
  obtain ys where ys: "draws wrr_Next k w = Ok (ys, w\<lparr>wrr := ?r\<rparr>)"
    using rr_draws_eq [OF w(5), of k] lim w(2) by (simp add: draws_wrr)
  have "rr_wf ?r" using w(5) by (simp add: rr_wf_def)
  then obtain r' where
    "draws rr_Next ?n ?r = Ok (rotate (unat (rr_next_ctr ?r) + 1) (resources (wrr w)), r')"
    using rr_full_turn [of ?r] lim k by auto
  then have "draws wrr_Next ?n (w\<lparr>wrr := ?r\<rparr>)
      = Ok (rotate (k + 1) (resources (wrr w)), w\<lparr>wrr := r'\<rparr>)"
    by (simp add: draws_wrr k)
  moreover have "mset (rotate (k + 1) (resources (wrr w))) = weighted_mset rs"
    using w(4) by (simp only: mset_rotated)
  moreover have "\<not> is_panic (draws wrr_Next i w)" for i
    using wrr.draws_Ok [of w i] w(5) by auto
  ultimately show ?thesis
    using w(1) ys n by metis
qed

definition sample_weighted :: "string weighted_resource list" where
  "sample_weighted =
     [\<lparr>wR = ''a'', Weight = 2, currentWeight = 0\<rparr>, \<lparr>wR = ''b'', Weight = 1, currentWeight = 0\<rparr>]"

theorem weighted_round_robin_fair_witness:
  "wrr_config sample_weighted \<and>
   (\<exists>w ys w1 xs w2. NewWeightedRoundRobin sample_weighted = Ok w
     \<and> (\<forall>n. \<not> is_panic (draws wrr_Next n w)) \<and> draws wrr_Next 5 w = Ok (ys, w1) \<and> draws wrr_Next 3 w1 = Ok (xs, w2)
     \<and> mset xs = weighted_mset sample_weighted)"
proof -
  have c: "wrr_config sample_weighted" by (simp add: wrr_config_def sample_weighted_def)
  have s: "sum_list (weights sample_weighted) = 3" by (simp add: sample_weighted_def)
  from weighted_round_robin_fair [OF c, of 5] c s show ?thesis by simp
qed

subsection \<open>Configurations outside the intended ones\<close>

lemma fold_calc_length: "fold calc_body is (rs, g, t) = (rs', g', t') \<Longrightarrow> length rs' = length rs"
proof (induction "is" arbitrary: rs g t)
  case Nil
  then show ?case by simp
next
  case (Cons i "is")
  obtain rs1 g1 t1 where b: "calc_body i (rs, g, t) = (rs1, g1, t1)" by (metis prod_cases3)
  then have "length rs1 = length rs" by (auto simp: calc_body_def Let_def)
  with Cons b show ?case by simp
qed

lemma calc_Ok: "rs \<noteq> [] \<Longrightarrow> \<exists>x rs'. calc rs = Ok (x, rs') \<and> rs' \<noteq> []"
proof -
  assume ne: "rs \<noteq> []"
  obtain rs' g t where f: "fold calc_body [0..<length rs] (rs, 0, 0) = (rs', g, t)"
    by (metis prod_cases3)
  from fold_calc_length [OF f] ne have "rs' \<noteq> []" by auto
  with ne f show ?thesis by (auto simp: calc_def calc_pick_def)
qed

lemma draws_calc_Ok: "rs \<noteq> [] \<Longrightarrow> \<exists>xs rs'. draws calc n rs = Ok (xs, rs') \<and> length xs = n"
proof (induction n arbitrary: rs)
  case 0
  then show ?case by simp
next
  case (Suc n)
  from calc_Ok [OF Suc.prems] obtain x rs' where "calc rs = Ok (x, rs')" "rs' \<noteq> []" by blast
  with Suc.IH [of rs'] show ?case by auto
qed

text \<open>
  The outcome of the constructor for any non-empty slice of resources, whatever the weights: a
  negative total weight makes it panic in \<open>make\<close>; a total weight of zero gives a distributor
  whose first \<open>Next\<close> divides by zero; a positive total (below \<open>2^32\<close>) gives one that never
  panics.
\<close>

lemma weighted_ctor_outcome:
  assumes "rs \<noteq> []" and "totalWeight rs < 4294967296"
  shows "if totalWeight rs < 0 then NewWeightedRoundRobin rs = Panic Make_Slice_Len
     else if totalWeight rs = 0 then
       \<exists>w. NewWeightedRoundRobin rs = Ok w \<and> wrr_Next w = Panic Divide_By_Zero
     else \<exists>w. NewWeightedRoundRobin rs = Ok w \<and> (\<forall>n. \<not> is_panic (draws wrr_Next n w))"
proof -
  consider "totalWeight rs < 0" | "totalWeight rs = 0" | "0 < totalWeight rs" by linarith
  then show ?thesis
  proof cases
    case 1
    then show ?thesis by (simp add: NewWeightedRoundRobin_def)
  next
    case 2
    then show ?thesis
      by (simp add: NewWeightedRoundRobin_def NewRoundRobin_def wrr_Next_def rr_Next_def)
  next
    case 3
    from draws_calc_Ok [OF assms(1)] obtain xs rs' where
      d: "draws calc (nat (totalWeight rs)) rs = Ok (xs, rs')" "length xs = nat (totalWeight rs)"
      by blast
    let ?w = "\<lparr>wresources = rs', wrr = NewRoundRobin xs\<rparr>"
    have "rr_wf (wrr ?w)"
      using d(2) 3 assms(2) by (auto simp: rr_wf_def NewRoundRobin_def)
    then have "\<not> is_panic (draws wrr_Next n ?w)" for n
      using wrr.draws_Ok [of ?w n] by auto
    with 3 d show ?thesis by (simp add: NewWeightedRoundRobin_def)
  qed
qed

lemma weighted_ctor_outcome_witness:
  "\<exists>w. NewWeightedRoundRobin [\<lparr>wR = ''a'', Weight = 1, currentWeight = 0\<rparr>,
       \<lparr>wR = ''b'', Weight = - 1, currentWeight = 0\<rparr>] = Ok w
     \<and> wrr_Next w = Panic Divide_By_Zero"
proof -
  let ?rs = "[\<lparr>wR = ''a'', Weight = 1, currentWeight = 0\<rparr>,
       \<lparr>wR = ''b'', Weight = - 1, currentWeight = 0\<rparr>]"
  have t: "totalWeight ?rs = 0" by (simp add: totalWeight_def wrap64_def)
  then have b: "totalWeight ?rs < 4294967296" by simp
  from weighted_ctor_outcome [OF _ b] t show ?thesis by simp
qed

text \<open>
  Where the bounds of the fairness are needed. When the 32-bit counter wraps, the turn is cut off: the
  call before gives the resource of index \<open>4294967295 mod n\<close> and the next one that of index 0, which is
  the same resource twice in a row for three resources.
\<close>

lemma rr_wrap:
  assumes "rr_wf r" "rr_next_ctr r = - 2"
  shows "draws rr_Next 2 r = Ok ([resources r ! (4294967295 mod length (resources r)), resources r ! 0],
    r\<lparr>rr_next_ctr := 0\<rparr>)"
proof -
  let ?r = "r\<lparr>rr_next_ctr := - 1\<rparr>"
  have "unat (- 1 :: u32) = 4294967295" by (simp add: unsigned_minus_1_eq_mask mask_eq_exp_minus_1)
  then have 1: "rr_Next r = Ok (resources r ! (4294967295 mod length (resources r)), ?r)"
    using rr_Next_eq [OF assms(1)] assms(2) by simp
  have "rr_wf ?r" using assms(1) by (simp add: rr_wf_def)
  from rr_Next_eq [OF this] have 2: "rr_Next ?r = Ok (resources r ! 0, r\<lparr>rr_next_ctr := 0\<rparr>)" by simp
  show ?thesis unfolding numeral_2_eq_2 by (simp add: 1 2)
qed

lemma rr_wrap_witness:
  "draws rr_Next 2 \<lparr>resources = [7 :: int, 8, 9], rr_next_ctr = - 2\<rparr> = Ok ([7, 7], \<lparr>resources = [7, 8, 9], rr_next_ctr = 0\<rparr>)"
  using rr_wrap [of "\<lparr>resources = [7 :: int, 8, 9], rr_next_ctr = - 2\<rparr>"] by (simp add: rr_wf_def)

text \<open>A sum of weights of \<open>2^32\<close> gives a schedule whose length is zero as a \<open>uint32\<close>.\<close>

lemma weighted_sum_wraps:
  assumes "rs \<noteq> []" and "totalWeight rs = 4294967296"
  shows "\<exists>w. NewWeightedRoundRobin rs = Ok w \<and> wrr_Next w = Panic Divide_By_Zero"
proof -
  from draws_calc_Ok [OF assms(1)] obtain xs rs' where
    d: "draws calc 4294967296 rs = Ok (xs, rs')" "length xs = 4294967296"
    by blast
  have "(word_of_nat (length xs) :: u32) = 0" unfolding d(2) by simp
  then have "rr_Next (NewRoundRobin xs) = Panic Divide_By_Zero"
    by (simp add: rr_Next_def NewRoundRobin_def)
  then show ?thesis using d(1) assms(2) by (simp add: NewWeightedRoundRobin_def wrr_Next_def)
qed

lemma weighted_sum_wraps_witness:
  "\<exists>w. NewWeightedRoundRobin [\<lparr>wR = ''a'', Weight = 4294967296, currentWeight = 0\<rparr>] = Ok w
     \<and> wrr_Next w = Panic Divide_By_Zero"
  by (rule weighted_sum_wraps) (simp_all add: totalWeight_def wrap64_def)

end
