(* ===== verification/Strconv.thy ===== *)
theory Strconv
  imports Prelude
begin

section \<open>Strings: the parts of \<open>strings\<close> and \<open>strconv\<close> the program uses\<close>

text \<open>
  A Go string is a sequence of bytes, here a \<open>string\<close> (a list of 8-bit \<open>char\<close>s). This theory
  holds \<open>strings.IndexByte\<close>, \<open>strings.Split\<close> with a one-byte separator, \<open>strings.Fields\<close> on
  ASCII text, \<open>strconv.ParseInt(s, 10, 64)\<close>, \<open>strconv.Atoi\<close> and decimal printing (\<open>%d\<close>,
  \<open>strconv.Itoa\<close>), with the round trip of printing and parsing.
\<close>

subsection \<open>Searching and splitting\<close>

text \<open>\<open>strings.IndexByte\<close>; \<open>None\<close> is the source's \<open>-1\<close>.\<close>

fun index_byte :: "string \<Rightarrow> char \<Rightarrow> nat option" where
  "index_byte [] c = None"
| "index_byte (x # xs) c = (if x = c then Some 0 else map_option Suc (index_byte xs c))"

lemma index_byte_None: "index_byte s c = None \<longleftrightarrow> c \<notin> set s"
  by (induction s) auto

lemma index_byte_absent [simp]: "c \<notin> set s \<Longrightarrow> index_byte s c = None"
  by (simp add: index_byte_None)

lemma index_byte_append: "c \<notin> set s \<Longrightarrow> index_byte (s @ c # t) c = Some (length s)"
  by (induction s) auto

lemma index_byte_append_None: "c \<notin> set s \<Longrightarrow> index_byte (s @ t) c = map_option (\<lambda>i. length s + i) (index_byte t c)"
  by (induction s; cases "index_byte t c") auto

lemma index_byte_SomeD:
  "index_byte s c = Some i \<Longrightarrow> i < length s \<and> s ! i = c \<and> c \<notin> set (take i s)"
  by (induction s arbitrary: i) (auto split: if_splits)

text \<open>\<open>strings.Split(s, sep)\<close> for a separator of one byte: never the empty list.\<close>

fun split_on :: "char \<Rightarrow> string \<Rightarrow> string list" where
  "split_on c [] = [[]]"
| "split_on c (x # xs) =
     (if x = c then [] # split_on c xs
      else case split_on c xs of [] \<Rightarrow> [[x]] | y # ys \<Rightarrow> (x # y) # ys)"

lemma split_on_not_Nil [simp]: "split_on c s \<noteq> []"
  by (induction s) (auto split: list.splits)

lemma split_on_no_sep: "c \<notin> set s \<Longrightarrow> split_on c s = [s]"
  by (induction s) auto

lemma split_on_append: "c \<notin> set s \<Longrightarrow> split_on c (s @ c # t) = s # split_on c t"
  by (induction s) auto

text \<open>\<open>strings.Join\<close>, the inverse of \<open>split_on\<close> on pieces without the separator.\<close>

fun join_with :: "char \<Rightarrow> string list \<Rightarrow> string" where
  "join_with c [] = []"
| "join_with c [s] = s"
| "join_with c (s # t # ts) = s @ c # join_with c (t # ts)"

lemma split_join:
  "ss \<noteq> [] \<Longrightarrow> \<forall>s \<in> set ss. c \<notin> set s \<Longrightarrow> split_on c (join_with c ss) = ss"
  by (induction c ss rule: join_with.induct) (auto simp: split_on_no_sep split_on_append)

lemma join_split: "join_with c (split_on c s) = s"
proof (induction s)
  case Nil
  then show ?case by simp
next
  case (Cons x xs)
  obtain y ys where ys: "split_on c xs = y # ys"
    by (cases "split_on c xs") auto
  with Cons show ?case by (cases ys) auto
qed

text \<open>
  \<open>strings.Fields\<close> on ASCII text: the maximal runs of non-space bytes. White space is the
  library's ASCII table: tab, newline, vertical tab, form feed, carriage return and space.
\<close>

definition is_space :: "char \<Rightarrow> bool" where
  "is_space c \<longleftrightarrow> of_char c \<in> {9 :: nat, 10, 11, 12, 13, 32}"

fun fields_aux :: "string \<Rightarrow> string \<Rightarrow> string list" where
  "fields_aux acc [] = (if acc = [] then [] else [acc])"
| "fields_aux acc (c # cs) =
     (if is_space c then (if acc = [] then fields_aux [] cs else acc # fields_aux [] cs)
      else fields_aux (acc @ [c]) cs)"

definition str_fields :: "string \<Rightarrow> string list" where
  "str_fields s = fields_aux [] s"

lemma fields_aux_token:
  "\<forall>c \<in> set w. \<not> is_space c \<Longrightarrow> fields_aux acc (w @ s) = fields_aux (acc @ w) s"
  by (induction w arbitrary: acc) auto

lemma fields_aux_spaces: "\<forall>c \<in> set sp. is_space c \<Longrightarrow> fields_aux [] (sp @ s) = fields_aux [] s"
  by (induction sp) auto

lemma fields_token_space:
  assumes "w \<noteq> []" "\<forall>c \<in> set w. \<not> is_space c" "is_space c"
  shows "str_fields (w @ c # s) = w # str_fields s"
  using assms by (simp add: str_fields_def fields_aux_token)

lemma fields_token:
  assumes "w \<noteq> []" "\<forall>c \<in> set w. \<not> is_space c"
  shows "str_fields w = [w]"
  using assms fields_aux_token [of w "[]" "[]"] by (simp add: str_fields_def)

lemma fields_leading_spaces: "\<forall>c \<in> set sp. is_space c \<Longrightarrow> str_fields (sp @ s) = str_fields s"
  by (simp add: str_fields_def fields_aux_spaces)

subsection \<open>Decimal numbers\<close>

datatype num_error = Err_Syntax | Err_Range

definition digit_val :: "char \<Rightarrow> nat option" where
  "digit_val c = (let n = of_char c :: nat in if 48 \<le> n \<and> n \<le> 57 then Some (n - 48) else None)"

definition digit_char :: "nat \<Rightarrow> char" where
  "digit_char d = char_of (48 + d)"

lemma digit_val_char [simp]: "d < 10 \<Longrightarrow> digit_val (digit_char d) = Some d"
  by (simp add: digit_val_def digit_char_def)

lemma of_char_digit [simp]: "d < 10 \<Longrightarrow> (of_char (digit_char d) :: nat) = 48 + d"
  by (simp add: digit_char_def)

lemma digit_char_neq:
  "d < 10 \<Longrightarrow> \<not> (48 \<le> (of_char c :: nat) \<and> (of_char c :: nat) \<le> 57) \<Longrightarrow> digit_char d \<noteq> c"
  by auto

text \<open>
  The digit loop of \<open>ParseUint(s, 10, 64)\<close>: a byte that is no digit ends it with a syntax error,
  a value beyond \<open>2^64 - 1\<close> with a range error, whichever comes first from the left.
\<close>

fun parse_digits :: "nat \<Rightarrow> string \<Rightarrow> (num_error, nat) res" where
  "parse_digits acc [] = Ok acc"
| "parse_digits acc (c # cs) =
     (case digit_val c of
        None \<Rightarrow> Err Err_Syntax
      | Some d \<Rightarrow>
          (if acc * 10 + d > 18446744073709551615 then Err Err_Range
           else parse_digits (acc * 10 + d) cs))"

definition parse_uint :: "string \<Rightarrow> (num_error, nat) res" where
  "parse_uint s = (if s = [] then Err Err_Syntax else parse_digits 0 s)"

text \<open>\<open>strconv.ParseInt(s, 10, 64)\<close>, which is also what \<open>strconv.Atoi\<close> computes.\<close>

definition parse_int :: "string \<Rightarrow> (num_error, int) res" where
  "parse_int s =
     (case s of
        [] \<Rightarrow> Err Err_Syntax
      | c # cs \<Rightarrow>
          (let neg = (c = CHR ''-''); body = (if c = CHR ''-'' \<or> c = CHR ''+'' then cs else s)
           in case parse_uint body of
                Err e \<Rightarrow> Err e
              | Panic p \<Rightarrow> Panic p
              | Ok un \<Rightarrow>
                  (if \<not> neg \<and> un \<ge> 9223372036854775808 then Err Err_Range
                   else if neg \<and> un > 9223372036854775808 then Err Err_Range
                   else Ok (if neg then - int un else int un))))"

abbreviation atoi :: "string \<Rightarrow> (num_error, int) res" where
  "atoi \<equiv> parse_int"

text \<open>Decimal printing of a number, as \<open>%d\<close> and \<open>strconv.Itoa\<close> do it.\<close>

fun show_nat :: "nat \<Rightarrow> string" where
  "show_nat n = (if n < 10 then [digit_char n] else show_nat (n div 10) @ [digit_char (n mod 10)])"

definition show_int :: "int \<Rightarrow> string" where
  "show_int i = (if i < 0 then CHR ''-'' # show_nat (nat (- i)) else show_nat (nat i))"

declare show_nat.simps [simp del]

lemma parse_digits_no_panic [simp]: "parse_digits acc s \<noteq> Panic p"
  by (induction acc s rule: parse_digits.induct) (auto split: option.splits)

lemma parse_uint_no_panic [simp]: "parse_uint s \<noteq> Panic p"
  by (simp add: parse_uint_def)

lemma parse_int_no_panic [simp]: "parse_int s \<noteq> Panic p"
  by (auto simp: parse_int_def Let_def split: list.splits res.splits if_splits)

lemma parse_int_range: "parse_int s = Ok n \<Longrightarrow> in_int64 n"
  by (auto simp: parse_int_def Let_def in_int64_def split: list.splits res.splits if_splits)

lemma parse_digits_append:
  "parse_digits acc s = Ok n \<Longrightarrow> parse_digits acc (s @ t) = parse_digits n t"
  by (induction acc s rule: parse_digits.induct) (auto split: option.splits if_splits)

lemma show_nat_not_Nil [simp]: "show_nat n \<noteq> []"
  by (subst show_nat.simps) simp

lemma show_nat_digits: "c \<in> set (show_nat n) \<Longrightarrow> \<exists>d < 10. c = digit_char d"
proof (induction n rule: show_nat.induct)
  case (1 n)
  show ?case
  proof (cases "n < 10")
    case True
    with "1.prems" show ?thesis by (auto simp: show_nat.simps [of n])
  next
    case False
    with "1.prems" have "c \<in> set (show_nat (n div 10)) \<or> c = digit_char (n mod 10)"
      by (auto simp: show_nat.simps [of n])
    with "1.IH" [OF False] show ?thesis by (auto intro: exI [of _ "n mod 10"])
  qed
qed

lemma show_nat_not_in:
  "\<not> (48 \<le> (of_char c :: nat) \<and> (of_char c :: nat) \<le> 57) \<Longrightarrow> c \<notin> set (show_nat n)"
  using show_nat_digits by fastforce

lemma parse_show_digits: "n \<le> 18446744073709551615 \<Longrightarrow> parse_digits 0 (show_nat n) = Ok n"
proof (induction n rule: show_nat.induct)
  case (1 n)
  show ?case
  proof (cases "n < 10")
    case True
    then show ?thesis by (simp add: show_nat.simps [of n])
  next
    case False
    with 1 have IH: "parse_digits 0 (show_nat (n div 10)) = Ok (n div 10)" by simp
    have "n div 10 * 10 + n mod 10 = n" by simp
    with False IH "1.prems" show ?thesis
      by (simp add: show_nat.simps [of n] parse_digits_append)
  qed
qed

lemma parse_uint_show_nat: "n \<le> 18446744073709551615 \<Longrightarrow> parse_uint (show_nat n) = Ok n"
  by (simp add: parse_uint_def parse_show_digits)

lemma parse_int_show_nat:
  assumes "n < 9223372036854775808"
  shows "parse_int (show_nat n) = Ok (int n)"
proof -
  obtain c cs where c: "show_nat n = c # cs"
    by (cases "show_nat n") auto
  then obtain d where "d < 10" "c = digit_char d"
    using show_nat_digits [of c n] by auto
  then have "c \<noteq> CHR ''-''" "c \<noteq> CHR ''+''"
    by (auto simp: digit_char_neq)
  with c assms parse_uint_show_nat [of n] show ?thesis
    by (simp add: parse_int_def Let_def)
qed

lemma parse_int_show_int:
  assumes "in_int64 i"
  shows "parse_int (show_int i) = Ok i"
proof (cases "i < 0")
  case True
  with assms have "nat (- i) \<le> 9223372036854775808" by (simp add: in_int64_def)
  with True show ?thesis
    by (simp add: show_int_def parse_int_def Let_def parse_uint_show_nat)
next
  case False
  with assms show ?thesis
    by (simp add: show_int_def in_int64_def parse_int_show_nat)
qed

end
