(* ===== verification/Time_Range.thy ===== *)
theory Time_Range
  imports Strconv Distributor
begin

section \<open>Time ranges (\<open>pkg/time_range.go\<close>)\<close>

text \<open>
  A time range is a fixed duration, an interval from which a duration is drawn, or a weighted
  choice among such; it is parsed from a flag such as \<open>5\<close>, \<open>5-10\<close> or \<open>5=1,6-12=2\<close>. The
  interface \<open>weightedTimeRange\<close> becomes a datatype of its two implementations. A
  \<open>time.Duration\<close> is a 64-bit number of nanoseconds.
\<close>

datatype weightedTimeRange =
    timeSingle (ts_d: int) (ts_weight: int)
  | timeRange (tr_min: int) (tr_max: int) (tr_weight: int)

fun getWeight :: "weightedTimeRange \<Rightarrow> int" where
  "getWeight (timeSingle d w) = w"
| "getWeight (timeRange mn mx w) = w"

text \<open>
  \<open>rand.Int64N(n)\<close> panics for \<open>n <= 0\<close> and else returns some number in \<open>[0, n)\<close>. The draw
  \<open>u\<close> is an argument of the model: every result is \<open>u mod n\<close> for some \<open>u\<close>.
\<close>

definition Int64N :: "nat \<Rightarrow> int \<Rightarrow> (unit, int) res" where
  "Int64N u n = (if n \<le> 0 then Panic Rand_Argument else Ok (int u mod n))"

fun wtr_Get :: "nat \<Rightarrow> weightedTimeRange \<Rightarrow> (unit, int) res" where
  "wtr_Get u (timeSingle d w) = Ok d"
| "wtr_Get u (timeRange mn mx w) =
     (if mn \<ge> mx then Ok mn
      else map_ok (\<lambda>n. wrap64 (n + mn)) (Int64N u (wrap64 (mx - mn))))"

datatype TimeRange =
    Weighted weightedTimeRange
  | Multi "weightedTimeRange weighted_round_robin"

text \<open>\<open>Get\<close> of any \<open>TimeRange\<close>; the weighted choice advances its distributor.\<close>

fun tr_Get :: "nat \<Rightarrow> TimeRange \<Rightarrow> (unit, int \<times> TimeRange) res" where
  "tr_Get u (Weighted t) = map_ok (\<lambda>d. (d, Weighted t)) (wtr_Get u t)"
| "tr_Get u (Multi w) =
     (case wrr_Next w of
        Ok (t, w') \<Rightarrow> map_ok (\<lambda>d. (d, Multi w')) (wtr_Get u t)
      | Err e \<Rightarrow> Err e
      | Panic p \<Rightarrow> Panic p)"

subsection \<open>Parsing\<close>

datatype tr_error = Err_Empty_Range | Err_Number num_error

definition second :: int where
  "second = 1000000000"

definition parse_number :: "string \<Rightarrow> (tr_error, int) res" where
  "parse_number s = (case parse_int s of Ok n \<Rightarrow> Ok n | Err e \<Rightarrow> Err (Err_Number e) | Panic p \<Rightarrow> Panic p)"

definition newWeightedTimeRange :: "string \<Rightarrow> (tr_error, weightedTimeRange) res" where
  "newWeightedTimeRange raw0 =
     bind_res
       (case index_byte raw0 (CHR ''='') of
          Some i \<Rightarrow> map_ok (\<lambda>w. (w, take i raw0)) (parse_number (drop (i + 1) raw0))
        | None \<Rightarrow> Ok (0, raw0))
       (\<lambda>(weight, raw).
          case index_byte raw (CHR ''-'') of
            None \<Rightarrow> map_ok (\<lambda>d. timeSingle (wrap64 (d * second)) weight) (parse_number raw)
          | Some i \<Rightarrow>
              bind_res (parse_number (take i raw)) (\<lambda>minD.
              bind_res (parse_number (drop (i + 1) raw)) (\<lambda>maxD.
                Ok (timeRange (wrap64 (minD * second)) (wrap64 (maxD * second)) weight))))"

text \<open>The loop over the comma-separated parts stops at the first error.\<close>

fun parse_all :: "string list \<Rightarrow> (tr_error, weightedTimeRange list) res" where
  "parse_all [] = Ok []"
| "parse_all (s # ss) =
     bind_res (newWeightedTimeRange s) (\<lambda>tr. map_ok (\<lambda>trs. tr # trs) (parse_all ss))"

definition weighted_of :: "weightedTimeRange \<Rightarrow> weightedTimeRange weighted_resource" where
  "weighted_of tr =
     (let weight = getWeight tr
      in \<lparr>wR = tr, Weight = (if weight = 0 then 1 else weight), currentWeight = 0\<rparr>)"

definition NewTimeRange :: "string \<Rightarrow> (tr_error, TimeRange) res" where
  "NewTimeRange raw =
     (if raw = [] then Err Err_Empty_Range
      else bind_res (parse_all (split_on (CHR '','') raw)) (\<lambda>trs.
        if length trs = 1 then Ok (Weighted (trs ! 0))
        else map_ok Multi (no_err Err_Empty_Range (NewWeightedRoundRobin (map weighted_of trs)))))"


subsection \<open>The grammar of the flag\<close>

text \<open>
  The four forms of a part that the comments of the source list, with an optional weight, how a
  user writes them and the value they stand for.
\<close>

datatype time_spec = Fixed nat "nat option" | Between nat nat "nat option"

fun show_weight :: "nat option \<Rightarrow> string" where
  "show_weight None = []"
| "show_weight (Some w) = CHR ''='' # show_nat w"

fun show_spec :: "time_spec \<Rightarrow> string" where
  "show_spec (Fixed d w) = show_nat d @ show_weight w"
| "show_spec (Between lo hi w) = show_nat lo @ CHR ''-'' # show_nat hi @ show_weight w"

fun weight_val :: "nat option \<Rightarrow> int" where
  "weight_val None = 0"
| "weight_val (Some w) = int w"

fun spec_val :: "time_spec \<Rightarrow> weightedTimeRange" where
  "spec_val (Fixed d w) = timeSingle (int d * second) (weight_val w)"
| "spec_val (Between lo hi w) = timeRange (int lo * second) (int hi * second) (weight_val w)"

text \<open>Durations whose nanoseconds fit 64 bits (some 292 years), and weights that fit an \<open>int\<close>.\<close>

fun spec_fits :: "time_spec \<Rightarrow> bool" where
  "spec_fits (Fixed d w) \<longleftrightarrow> d \<le> 9223372036 \<and> weight_val w < 9223372036854775808"
| "spec_fits (Between lo hi w) \<longleftrightarrow>
     lo \<le> 9223372036 \<and> hi \<le> 9223372036 \<and> weight_val w < 9223372036854775808"

lemma no_eq_in_show_nat [simp]: "CHR ''='' \<notin> set (show_nat n)"
  by (rule show_nat_not_in) simp

lemma no_dash_in_show_nat [simp]: "CHR ''-'' \<notin> set (show_nat n)"
  by (rule show_nat_not_in) simp

lemma no_comma_in_show_nat [simp]: "CHR '','' \<notin> set (show_nat n)"
  by (rule show_nat_not_in) simp

lemma no_comma_in_show_spec: "CHR '','' \<notin> set (show_spec s)"
  by (cases s rule: show_spec.cases; rename_tac w; case_tac w) auto

lemma parse_number_show: "n < 9223372036854775808 \<Longrightarrow> parse_number (show_nat n) = Ok (int n)"
  by (simp add: parse_number_def parse_int_show_nat)

lemma wrap64_seconds: "n \<le> 9223372036 \<Longrightarrow> wrap64 (int n * second) = int n * second"
  by (rule wrap64_id) (simp add: in_int64_def second_def)

lemma split_weight:
  assumes "raw = body @ show_weight w" "CHR ''='' \<notin> set body" "weight_val w < 9223372036854775808"
  shows "(case index_byte raw (CHR ''='') of
      Some i \<Rightarrow> map_ok (\<lambda>v. (v, take i raw)) (parse_number (drop (i + 1) raw))
    | None \<Rightarrow> Ok (0, raw)) = Ok (weight_val w, body)"
  using assms by (cases w) (simp_all add: index_byte_append parse_number_show)

lemma newWeightedTimeRange_split:
  assumes "raw = body @ show_weight w" "CHR ''='' \<notin> set body" "weight_val w < 9223372036854775808"
  shows "newWeightedTimeRange raw =
     (case index_byte body (CHR ''-'') of
        None \<Rightarrow> map_ok (\<lambda>d. timeSingle (wrap64 (d * second)) (weight_val w)) (parse_number body)
      | Some i \<Rightarrow>
          bind_res (parse_number (take i body)) (\<lambda>minD.
          bind_res (parse_number (drop (i + 1) body)) (\<lambda>maxD.
            Ok (timeRange (wrap64 (minD * second)) (wrap64 (maxD * second)) (weight_val w)))))"
  unfolding newWeightedTimeRange_def split_weight [OF assms] by simp

lemma newWeightedTimeRange_show:
  assumes "spec_fits s"
  shows "newWeightedTimeRange (show_spec s) = Ok (spec_val s)"
proof (cases s)
  case (Fixed d w)
  with assms show ?thesis
    by (simp add: newWeightedTimeRange_split [of _ "show_nat d" w] parse_number_show wrap64_seconds)
next
  case (Between lo hi w)
  let ?body = "show_nat lo @ CHR ''-'' # show_nat hi"
  have "index_byte ?body (CHR ''-'') = Some (length (show_nat lo))"
    by (simp add: index_byte_append)
  with Between assms show ?thesis
    by (simp add: newWeightedTimeRange_split [of _ ?body w] parse_number_show wrap64_seconds)
qed

lemma parse_all_show:
  "\<forall>s \<in> set specs. spec_fits s \<Longrightarrow> parse_all (map show_spec specs) = Ok (map spec_val specs)"
  by (induction specs) (auto simp: newWeightedTimeRange_show)

lemma show_spec_not_Nil: "show_spec s \<noteq> []"
  by (cases s) auto

definition show_specs :: "time_spec list \<Rightarrow> string" where
  "show_specs specs = join_with (CHR '','') (map show_spec specs)"

lemma show_specs_not_Nil: "specs \<noteq> [] \<Longrightarrow> show_specs specs \<noteq> []"
  by (cases specs rule: remdups_adj.cases) (auto simp: show_specs_def show_spec_not_Nil)

lemma split_show_specs:
  "specs \<noteq> [] \<Longrightarrow> split_on (CHR '','') (show_specs specs) = map show_spec specs"
  unfolding show_specs_def by (rule split_join) (auto simp: no_comma_in_show_spec)

lemma NewTimeRange_show:
  assumes "specs \<noteq> []" "\<forall>s \<in> set specs. spec_fits s"
  shows "NewTimeRange (show_specs specs) =
    (if length specs = 1 then Ok (Weighted (spec_val (hd specs)))
     else map_ok Multi (no_err Err_Empty_Range
            (NewWeightedRoundRobin (map (\<lambda>s. weighted_of (spec_val s)) specs))))"
  using assms
  by (simp add: NewTimeRange_def show_specs_not_Nil split_show_specs parse_all_show hd_conv_nth comp_def)

text \<open>The weight the distributor uses: a missing or zero weight counts as one.\<close>

fun spec_weight :: "time_spec \<Rightarrow> nat" where
  "spec_weight (Fixed d w) = (case w of None \<Rightarrow> 1 | Some n \<Rightarrow> if n = 0 then 1 else n)"
| "spec_weight (Between lo hi w) = (case w of None \<Rightarrow> 1 | Some n \<Rightarrow> if n = 0 then 1 else n)"

lemma Weight_spec: "Weight (weighted_of (spec_val s)) = int (spec_weight s)"
  by (cases s) (auto simp: weighted_of_def Let_def split: option.split)

lemma spec_weight_pos: "0 < spec_weight s"
  by (cases s) (auto split: option.split)

definition specs_fit :: "time_spec list \<Rightarrow> bool" where
  "specs_fit specs \<longleftrightarrow>
     specs \<noteq> [] \<and> (\<forall>s \<in> set specs. spec_fits s)
     \<and> length specs < 2147483648 \<and> sum_list (map spec_weight specs) < 2147483648"

definition resources_of :: "time_spec list \<Rightarrow> weightedTimeRange weighted_resource list" where
  "resources_of specs = map (\<lambda>s. weighted_of (spec_val s)) specs"

lemma weights_resources_of: "sum_list (weights (resources_of specs)) = int (sum_list (map spec_weight specs))"
  by (induction specs) (simp_all add: resources_of_def Weight_spec)

lemma wrr_config_resources:
  assumes "specs_fit specs"
  shows "wrr_config (resources_of specs)"
proof -
  let ?n = "length specs" and ?w = "sum_list (map spec_weight specs)"
  from assms have "?n < 2147483648" "?w < 2147483648" by (simp_all add: specs_fit_def)
  then have "?n * ?w \<le> 2147483647 * 2147483647" by (intro mult_le_mono) simp_all
  then have "int (?n * ?w) \<le> int (2147483647 * 2147483647)" by (simp only: of_nat_le_iff)
  then have "int ?n * int ?w < 9223372036854775808" by simp
  moreover have "\<forall>r \<in> set (resources_of specs). 0 < Weight r \<and> currentWeight r = 0"
    by (auto simp: resources_of_def Weight_spec spec_weight_pos) (simp add: weighted_of_def Let_def)
  ultimately show ?thesis
    using assms weights_resources_of [of specs]
    by (simp add: wrr_config_def specs_fit_def) (simp add: resources_of_def)
qed

lemma wR_resources_of: "i < length specs \<Longrightarrow> wR (resources_of specs ! i) = spec_val (specs ! i)"
  by (simp add: resources_of_def weighted_of_def Let_def)

lemma weighted_mset_resources_of:
  "weighted_mset (resources_of specs)
     = (\<Sum>i < length specs. replicate_mset (spec_weight (specs ! i)) (spec_val (specs ! i)))"
  unfolding weighted_mset_def
  by (rule sum.cong) (simp_all add: resources_of_def Weight_spec, simp add: weighted_of_def Let_def)

text \<open>
  C23. Parsing what the flag's grammar writes gives back what was written: one part is that range
  itself; several parts become a distributor whose schedule holds each range exactly as often as
  its weight (a missing or zero weight counting as one).
\<close>

theorem NewTimeRange_roundtrip:
  assumes "specs_fit specs"
  shows "if length specs = 1
     then NewTimeRange (show_specs specs) = Ok (Weighted (spec_val (hd specs)))
     else \<exists>w. NewTimeRange (show_specs specs) = Ok (Multi w)
       \<and> mset (resources (wrr w))
           = (\<Sum>i < length specs. replicate_mset (spec_weight (specs ! i)) (spec_val (specs ! i)))"
proof -
  from assms have "specs \<noteq> []" "\<forall>s \<in> set specs. spec_fits s" by (simp_all add: specs_fit_def)
  note p = NewTimeRange_show [OF this, folded resources_of_def]
  show ?thesis
    using NewWeightedRoundRobin_schedule [OF wrr_config_resources [OF assms]] p
    by (auto simp: weighted_mset_resources_of)
qed

theorem NewTimeRange_roundtrip_witness:
  "show_specs [Fixed 5 (Some 1), Between 6 12 (Some 2)] = ''5=1,6-12=2'' \<and>
   (\<exists>w. NewTimeRange ''5=1,6-12=2'' = Ok (Multi w)
      \<and> mset (resources (wrr w)) = {# timeSingle 5000000000 1,
            timeRange 6000000000 12000000000 2, timeRange 6000000000 12000000000 2 #})"
proof -
  let ?s = "[Fixed 5 (Some 1), Between 6 12 (Some 2)]"
  have f: "specs_fit ?s" by (simp add: specs_fit_def)
  have str: "show_specs ?s = ''5=1,6-12=2''"
    by code_simp
  from NewTimeRange_roundtrip [OF f] show ?thesis
    unfolding str by (simp add: second_def numeral_2_eq_2 lessThan_Suc)
qed

subsection \<open>What \<open>Get\<close> returns\<close>

text \<open>The durations a part allows: \<open>lo <= d < hi\<close> for an interval, \<open>lo\<close> if it is empty.\<close>

fun spec_allows :: "time_spec \<Rightarrow> int \<Rightarrow> bool" where
  "spec_allows (Fixed d w) x \<longleftrightarrow> x = int d * second"
| "spec_allows (Between lo hi w) x \<longleftrightarrow>
     (if lo < hi then int lo * second \<le> x \<and> x < int hi * second else x = int lo * second)"

lemma wtr_Get_allowed:
  assumes "spec_fits s"
  shows "\<exists>d. wtr_Get u (spec_val s) = Ok d \<and> spec_allows s d"
proof (cases s)
  case (Fixed d w)
  then show ?thesis by simp
next
  case (Between lo hi w)
  let ?mn = "int lo * second" and ?mx = "int hi * second"
  have fit: "0 \<le> ?mn" "0 \<le> ?mx" "in_int64 ?mx" "in_int64 ?mn"
    using assms Between by (auto simp: second_def in_int64_def)
  show ?thesis
  proof (cases "lo < hi")
    case True
    then have lt: "?mn < ?mx" by (simp add: second_def)
    with fit have diff: "wrap64 (?mx - ?mn) = ?mx - ?mn"
      by (intro wrap64_id) (auto simp: in_int64_def)
    let ?n = "int u mod (?mx - ?mn)"
    from lt have n: "0 \<le> ?n" "?n < ?mx - ?mn" by simp_all
    with fit have "wrap64 (?n + ?mn) = ?n + ?mn"
      by (intro wrap64_id) (auto simp: in_int64_def)
    with Between True lt diff n show ?thesis by (simp add: Int64N_def)
  next
    case False
    then have "?mx \<le> ?mn" by (simp add: second_def)
    with Between False show ?thesis by simp
  qed
qed

text \<open>A sequence of \<open>Get\<close> calls, one draw of the random source for each.\<close>

fun tr_Gets :: "nat list \<Rightarrow> TimeRange \<Rightarrow> (unit, int list) res" where
  "tr_Gets [] t = Ok []"
| "tr_Gets (u # us) t =
     (case tr_Get u t of
        Ok (d, t') \<Rightarrow> map_ok (\<lambda>ds. d # ds) (tr_Gets us t')
      | Err e \<Rightarrow> Err e
      | Panic p \<Rightarrow> Panic p)"

fun tr_from :: "time_spec list \<Rightarrow> TimeRange \<Rightarrow> bool" where
  "tr_from specs (Weighted t) \<longleftrightarrow> t \<in> spec_val ` set specs"
| "tr_from specs (Multi w) \<longleftrightarrow> rr_wf (wrr w) \<and> set (resources (wrr w)) \<subseteq> spec_val ` set specs"

lemma tr_Get_from:
  assumes "tr_from specs t" "\<forall>s \<in> set specs. spec_fits s"
  shows "\<exists>d t'. tr_Get u t = Ok (d, t') \<and> tr_from specs t' \<and> (\<exists>s \<in> set specs. spec_allows s d)"
proof (cases t)
  case (Weighted r)
  with assms obtain s where s: "s \<in> set specs" "r = spec_val s" by auto
  with assms wtr_Get_allowed [of s u] Weighted show ?thesis by auto
next
  case (Multi w)
  with assms(1) have wf: "rr_wf (wrr w)" by simp
  from wrr.next_Ok [OF wf] obtain r w' where
    r: "wrr_Next w = Ok (r, w')" "r \<in> set (resources (wrr w))" by blast
  with Multi assms(1) obtain s where s: "s \<in> set specs" "r = spec_val s" by auto
  from wrr.next_wf [OF wf r(1)] wrr.next_pool [OF wf r(1)] Multi assms(1)
  have "tr_from specs (Multi w')" by simp
  with s r assms(2) wtr_Get_allowed [of s u] Multi show ?thesis by auto
qed

lemma tr_Gets_from:
  "tr_from specs t \<Longrightarrow> \<forall>s \<in> set specs. spec_fits s \<Longrightarrow>
   \<exists>ds. tr_Gets us t = Ok ds \<and> length ds = length us \<and> (\<forall>d \<in> set ds. \<exists>s \<in> set specs. spec_allows s d)"
proof (induction us arbitrary: t)
  case Nil
  then show ?case by simp
next
  case (Cons u us)
  from tr_Get_from [OF Cons.prems] obtain d t' where
    d: "tr_Get u t = Ok (d, t')" "tr_from specs t'" "\<exists>s \<in> set specs. spec_allows s d" by blast
  from Cons.IH [OF d(2) Cons.prems(2)] d show ?case by auto
qed

lemma set_mset_weighted:
  "set_mset (\<Sum>i < n. replicate_mset (f i) (g i)) \<subseteq> g ` {..<n}" for n :: nat
  by (induction n) (auto simp: lessThan_Suc)

lemma NewTimeRange_from:
  assumes "specs_fit specs"
  shows "\<exists>t. NewTimeRange (show_specs specs) = Ok t \<and> tr_from specs t"
proof -
  from assms have ne: "specs \<noteq> []" and fit: "\<forall>s \<in> set specs. spec_fits s"
    by (simp_all add: specs_fit_def)
  note p = NewTimeRange_show [OF ne fit, folded resources_of_def]
  show ?thesis
  proof (cases "length specs = 1")
    case True
    with p ne show ?thesis by simp
  next
    case False
    from NewWeightedRoundRobin_schedule [OF wrr_config_resources [OF assms]] obtain w where
      w: "NewWeightedRoundRobin (resources_of specs) = Ok w" "rr_wf (wrr w)"
      "mset (resources (wrr w)) = weighted_mset (resources_of specs)" by blast
    from w(3) have "set (resources (wrr w)) \<subseteq> (\<lambda>i. spec_val (specs ! i)) ` {..<length specs}"
      using set_mset_weighted [of "\<lambda>i. spec_weight (specs ! i)" "\<lambda>i. spec_val (specs ! i)" "length specs"]
      by (simp add: weighted_mset_resources_of flip: set_mset_mset)
    with w False p show ?thesis by fastforce
  qed
qed

text \<open>
  C24. A time range written in the flag's grammar never panics in \<open>Get\<close>, whatever the random
  source returns and however often it is called, and each duration returned is one that some
  part of the flag allows.
\<close>

theorem Get_within_flag:
  assumes "specs_fit specs"
  shows "\<exists>t ds. NewTimeRange (show_specs specs) = Ok t \<and> tr_Gets us t = Ok ds
     \<and> length ds = length us \<and> (\<forall>d \<in> set ds. \<exists>s \<in> set specs. spec_allows s d)"
proof -
  have fit: "\<forall>s \<in> set specs. spec_fits s" using assms by (simp add: specs_fit_def)
  with NewTimeRange_from [OF assms] tr_Gets_from [OF _ fit] show ?thesis by blast
qed

theorem Get_within_flag_witness:
  "\<exists>t ds. NewTimeRange ''5-10'' = Ok t \<and> tr_Gets [7, 6000000000] t = Ok ds \<and> length ds = 2
     \<and> (\<forall>d \<in> set ds. 5000000000 \<le> d \<and> d < 10000000000)"
proof -
  have f: "specs_fit [Between 5 10 None]" by (simp add: specs_fit_def)
  have str: "show_specs [Between 5 10 None] = ''5-10''" by code_simp
  from Get_within_flag [OF f, of "[7, 6000000000]"] show ?thesis
    unfolding str by (simp add: second_def numeral_2_eq_2)
qed

text \<open>
  Outside these bounds nothing is checked: seconds beyond \<open>9223372036\<close> wrap to a negative
  duration, and weights that sum to zero or less are accepted and make the constructor or the
  first \<open>Get\<close> panic.
\<close>

lemmas parse_eval = NewTimeRange_def newWeightedTimeRange_def parse_number_def parse_int_def
  parse_uint_def digit_val_def Let_def second_def wrap64_def

lemma duration_overflow: "NewTimeRange ''9223372037'' = Ok (Weighted (timeSingle (- 9223372036709551616) 0))"
  by (simp add: parse_eval)

lemma zero_total_weight_panics:
  "case NewTimeRange ''5=1,6=-1'' of Ok t \<Rightarrow> tr_Get 0 t = Panic Divide_By_Zero | _ \<Rightarrow> False"
  by (simp add: parse_eval weighted_of_def NewWeightedRoundRobin_def totalWeight_def NewRoundRobin_def
      wrr_Next_def rr_Next_def)

lemma negative_total_weight_panics: "NewTimeRange ''5=-1,6=-1'' = Panic Make_Slice_Len"
  by (simp add: parse_eval weighted_of_def NewWeightedRoundRobin_def totalWeight_def)

end
