(* ===== verification/Pcm.thy ===== *)
theory Pcm
  imports Prelude
begin

section \<open>G.711 companding (\<open>pkg/pcm/pcm.go\<close>)\<close>

text \<open>
  Linear 16-bit samples to mu-law and A-law bytes and back, by the tables of the source. A Go
  \<open>int16\<close> is a \<open>16 word\<close> read as signed: \<open>>>\<close> is the arithmetic shift, \<open>-sample\<close> wraps
  (so the negation of \<open>-32768\<close> is itself), and comparisons are signed.
\<close>

subsection \<open>The tables\<close>

definition muLawCompressTable :: "u8 list" where
  "muLawCompressTable =
    [0, 0, 1, 1, 2, 2, 2, 2, 3, 3, 3, 3, 3, 3, 3, 3, 4, 4, 4, 4, 4, 4, 4, 4, 4, 4, 4, 4, 4, 4, 4, 4,
     5, 5, 5, 5, 5, 5, 5, 5, 5, 5, 5, 5, 5, 5, 5, 5, 5, 5, 5, 5, 5, 5, 5, 5, 5, 5, 5, 5, 5, 5, 5, 5,
     6, 6, 6, 6, 6, 6, 6, 6, 6, 6, 6, 6, 6, 6, 6, 6, 6, 6, 6, 6, 6, 6, 6, 6, 6, 6, 6, 6, 6, 6, 6, 6,
     6, 6, 6, 6, 6, 6, 6, 6, 6, 6, 6, 6, 6, 6, 6, 6, 6, 6, 6, 6, 6, 6, 6, 6, 6, 6, 6, 6, 6, 6, 6, 6,
     7, 7, 7, 7, 7, 7, 7, 7, 7, 7, 7, 7, 7, 7, 7, 7, 7, 7, 7, 7, 7, 7, 7, 7, 7, 7, 7, 7, 7, 7, 7, 7,
     7, 7, 7, 7, 7, 7, 7, 7, 7, 7, 7, 7, 7, 7, 7, 7, 7, 7, 7, 7, 7, 7, 7, 7, 7, 7, 7, 7, 7, 7, 7, 7,
     7, 7, 7, 7, 7, 7, 7, 7, 7, 7, 7, 7, 7, 7, 7, 7, 7, 7, 7, 7, 7, 7, 7, 7, 7, 7, 7, 7, 7, 7, 7, 7,
     7, 7, 7, 7, 7, 7, 7, 7, 7, 7, 7, 7, 7, 7, 7, 7, 7, 7, 7, 7, 7, 7, 7, 7, 7, 7, 7, 7, 7, 7, 7, 7]"

definition aLawCompressTable :: "u8 list" where
  "aLawCompressTable =
    [1, 1, 2, 2, 3, 3, 3, 3, 4, 4, 4, 4, 4, 4, 4, 4, 5, 5, 5, 5, 5, 5, 5, 5, 5, 5, 5, 5, 5, 5, 5, 5,
     6, 6, 6, 6, 6, 6, 6, 6, 6, 6, 6, 6, 6, 6, 6, 6, 6, 6, 6, 6, 6, 6, 6, 6, 6, 6, 6, 6, 6, 6, 6, 6,
     7, 7, 7, 7, 7, 7, 7, 7, 7, 7, 7, 7, 7, 7, 7, 7, 7, 7, 7, 7, 7, 7, 7, 7, 7, 7, 7, 7, 7, 7, 7, 7,
     7, 7, 7, 7, 7, 7, 7, 7, 7, 7, 7, 7, 7, 7, 7, 7, 7, 7, 7, 7, 7, 7, 7, 7, 7, 7, 7, 7, 7, 7, 7, 7]"

definition muLawDecompressTable :: "u16 list" where
  "muLawDecompressTable =
    [- 32124, - 31100, - 30076, - 29052, - 28028, - 27004, - 25980, - 24956,
     - 23932, - 22908, - 21884, - 20860, - 19836, - 18812, - 17788, - 16764,
     - 15996, - 15484, - 14972, - 14460, - 13948, - 13436, - 12924, - 12412,
     - 11900, - 11388, - 10876, - 10364, - 9852, - 9340, - 8828, - 8316,
     - 7932, - 7676, - 7420, - 7164, - 6908, - 6652, - 6396, - 6140,
     - 5884, - 5628, - 5372, - 5116, - 4860, - 4604, - 4348, - 4092,
     - 3900, - 3772, - 3644, - 3516, - 3388, - 3260, - 3132, - 3004,
     - 2876, - 2748, - 2620, - 2492, - 2364, - 2236, - 2108, - 1980,
     - 1884, - 1820, - 1756, - 1692, - 1628, - 1564, - 1500, - 1436,
     - 1372, - 1308, - 1244, - 1180, - 1116, - 1052, - 988, - 924,
     - 876, - 844, - 812, - 780, - 748, - 716, - 684, - 652,
     - 620, - 588, - 556, - 524, - 492, - 460, - 428, - 396,
     - 372, - 356, - 340, - 324, - 308, - 292, - 276, - 260,
     - 244, - 228, - 212, - 196, - 180, - 164, - 148, - 132,
     - 120, - 112, - 104, - 96, - 88, - 80, - 72, - 64,
     - 56, - 48, - 40, - 32, - 24, - 16, - 8, - 1,
     32124, 31100, 30076, 29052, 28028, 27004, 25980, 24956,
     23932, 22908, 21884, 20860, 19836, 18812, 17788, 16764,
     15996, 15484, 14972, 14460, 13948, 13436, 12924, 12412,
     11900, 11388, 10876, 10364, 9852, 9340, 8828, 8316,
     7932, 7676, 7420, 7164, 6908, 6652, 6396, 6140,
     5884, 5628, 5372, 5116, 4860, 4604, 4348, 4092,
     3900, 3772, 3644, 3516, 3388, 3260, 3132, 3004,
     2876, 2748, 2620, 2492, 2364, 2236, 2108, 1980,
     1884, 1820, 1756, 1692, 1628, 1564, 1500, 1436,
     1372, 1308, 1244, 1180, 1116, 1052, 988, 924,
     876, 844, 812, 780, 748, 716, 684, 652,
     620, 588, 556, 524, 492, 460, 428, 396,
     372, 356, 340, 324, 308, 292, 276, 260,
     244, 228, 212, 196, 180, 164, 148, 132,
     120, 112, 104, 96, 88, 80, 72, 64,
     56, 48, 40, 32, 24, 16, 8, 0]"

definition aLawDecompressTable :: "u16 list" where
  "aLawDecompressTable =
    [- 5504, - 5248, - 6016, - 5760, - 4480, - 4224, - 4992, - 4736,
     - 7552, - 7296, - 8064, - 7808, - 6528, - 6272, - 7040, - 6784,
     - 2752, - 2624, - 3008, - 2880, - 2240, - 2112, - 2496, - 2368,
     - 3776, - 3648, - 4032, - 3904, - 3264, - 3136, - 3520, - 3392,
     - 22016, - 20992, - 24064, - 23040, - 17920, - 16896, - 19968, - 18944,
     - 30208, - 29184, - 32256, - 31232, - 26112, - 25088, - 28160, - 27136,
     - 11008, - 10496, - 12032, - 11520, - 8960, - 8448, - 9984, - 9472,
     - 15104, - 14592, - 16128, - 15616, - 13056, - 12544, - 14080, - 13568,
     - 344, - 328, - 376, - 360, - 280, - 264, - 312, - 296,
     - 472, - 456, - 504, - 488, - 408, - 392, - 440, - 424,
     - 88, - 72, - 120, - 104, - 24, - 8, - 56, - 40,
     - 216, - 200, - 248, - 232, - 152, - 136, - 184, - 168,
     - 1376, - 1312, - 1504, - 1440, - 1120, - 1056, - 1248, - 1184,
     - 1888, - 1824, - 2016, - 1952, - 1632, - 1568, - 1760, - 1696,
     - 688, - 656, - 752, - 720, - 560, - 528, - 624, - 592,
     - 944, - 912, - 1008, - 976, - 816, - 784, - 880, - 848,
     5504, 5248, 6016, 5760, 4480, 4224, 4992, 4736,
     7552, 7296, 8064, 7808, 6528, 6272, 7040, 6784,
     2752, 2624, 3008, 2880, 2240, 2112, 2496, 2368,
     3776, 3648, 4032, 3904, 3264, 3136, 3520, 3392,
     22016, 20992, 24064, 23040, 17920, 16896, 19968, 18944,
     30208, 29184, 32256, 31232, 26112, 25088, 28160, 27136,
     11008, 10496, 12032, 11520, 8960, 8448, 9984, 9472,
     15104, 14592, 16128, 15616, 13056, 12544, 14080, 13568,
     344, 328, 376, 360, 280, 264, 312, 296,
     472, 456, 504, 488, 408, 392, 440, 424,
     88, 72, 120, 104, 24, 8, 56, 40,
     216, 200, 248, 232, 152, 136, 184, 168,
     1376, 1312, 1504, 1440, 1120, 1056, 1248, 1184,
     1888, 1824, 2016, 1952, 1632, 1568, 1760, 1696,
     688, 656, 752, 720, 560, 528, 624, 592,
     944, 912, 1008, 976, 816, 784, 880, 848]"

subsection \<open>One sample\<close>

definition cBias :: u16 where "cBias = 0x84"

definition cClip :: u16 where "cClip = 32635"

definition linearToMuLaw :: "u16 \<Rightarrow> u8" where
  "linearToMuLaw sample0 =
     (let sign = (ucast (signed_drop_bit 8 sample0) :: u8) AND 0x80;
          sample1 = (if sign \<noteq> 0 then - sample0 else sample0);
          sample2 = (if sint sample1 > sint cClip then cClip else sample1);
          sample = sample2 + cBias;
          expo = muLawCompressTable ! unat (signed_drop_bit 7 sample AND 0xFF);
          mantissa = (ucast (signed_drop_bit (unat (expo + 3)) sample) :: u8) AND 0x0F
      in NOT (sign OR push_bit 4 expo OR mantissa))"

definition linearToALaw :: "u16 \<Rightarrow> u8" where
  "linearToALaw sample0 =
     (let sign = (ucast (signed_drop_bit 8 (NOT sample0)) :: u8) AND 0x80;
          sample1 = (if sign = 0 then - sample0 else sample0);
          sample = (if sint sample1 > sint cClip then cClip else sample1);
          compressedByte =
            (if sint sample \<ge> 256 then
               (let expo = aLawCompressTable ! unat (signed_drop_bit 8 sample AND 0x7F);
                    mantissa = (ucast (signed_drop_bit (unat (expo + 3)) sample) :: u8) AND 0x0F
                in push_bit 4 expo OR mantissa)
             else ucast (signed_drop_bit 4 sample))
      in compressedByte XOR (sign XOR 0x55))"

subsection \<open>Words that hold a non-negative sample\<close>

lemma sint_of_int16: "- 32768 \<le> i \<Longrightarrow> i < 32768 \<Longrightarrow> sint (word_of_int i :: u16) = i"
  by (simp add: int_word_sint)

lemma sint_of_nat16: "m < 32768 \<Longrightarrow> sint (word_of_nat m :: u16) = int m"
  using sint_of_int16 [of "int m"] by simp

lemma sint_range16: "- 32768 \<le> sint (w :: u16)" "sint (w :: u16) < 32768"
  using sint_ge [of w] sint_lt [of w] by simp_all

lemma of_nat_sint16: "0 \<le> sint (w :: u16) \<Longrightarrow> w = word_of_nat (nat (sint w))"
  using sint_range16 [of w] by (intro signed_word_eqI) (simp add: sint_of_nat16)

lemma sint_minus16: "sint (w :: u16) \<noteq> - 32768 \<Longrightarrow> sint (- w) = - sint w"
  using sint_range16 [of w] sint_of_int16 [of "- sint w"] by simp

lemma shift16:
  assumes "m < 32768"
  shows "signed_drop_bit n (word_of_nat m :: u16) = word_of_nat (m div 2 ^ n)"
proof -
  from assms have "m div 2 ^ n < 32768" by (metis div_le_dividend le_less_trans)
  with assms have "sint (signed_drop_bit n (word_of_nat m :: u16)) = sint (word_of_nat (m div 2 ^ n) :: u16)"
    by (simp add: sint_signed_drop_bit_eq sint_of_nat16 drop_bit_eq_div zdiv_int)
  then show ?thesis by (rule signed_word_eqI)
qed

lemma ucast16_8: "(ucast (word_of_nat k :: u16) :: u8) = word_of_nat k"
  by (rule unsigned_word_eqI) (simp add: unsigned_ucast_eq unsigned_of_nat)

lemma and_low4: "(word_of_nat k :: u8) AND 15 = word_of_nat (k mod 16)"
proof -
  have "(word_of_nat k :: u8) AND 15 = take_bit 4 (word_of_nat k)"
    by (simp add: take_bit_eq_mask mask_eq_exp_minus_1)
  also have "\<dots> = word_of_nat (take_bit 4 k)"
    by (simp add: take_bit_of_nat)
  finally show ?thesis by (simp add: take_bit_eq_mod)
qed

lemma unat_and_mask16:
  "k < 128 \<Longrightarrow> unat ((word_of_nat k :: u16) AND 127) = k"
  "k < 256 \<Longrightarrow> unat ((word_of_nat k :: u16) AND 255) = k"
proof -
  have "(word_of_nat k :: u16) AND 127 = word_of_nat (take_bit 7 k)"
    "(word_of_nat k :: u16) AND 255 = word_of_nat (take_bit 8 k)"
    using take_bit_eq_mask [of 7 "word_of_nat k :: u16"] take_bit_eq_mask [of 8 "word_of_nat k :: u16"]
    by (simp_all add: mask_eq_exp_minus_1 take_bit_of_nat)
  then show "k < 128 \<Longrightarrow> unat ((word_of_nat k :: u16) AND 127) = k"
    "k < 256 \<Longrightarrow> unat ((word_of_nat k :: u16) AND 255) = k"
    by (simp_all add: take_bit_nat_eq_self unat_of_nat)
qed

subsection \<open>The compression tables are base-2 logarithms\<close>

lemma muLawCompressTable_eq:
  "muLawCompressTable = [0, 0] @ replicate 2 1 @ replicate 4 2 @ replicate 8 3 @ replicate 16 4
     @ replicate 32 5 @ replicate 64 6 @ replicate 128 7"
  by (simp add: muLawCompressTable_def numeral_eq_Suc)

lemma aLawCompressTable_eq:
  "aLawCompressTable = [1, 1] @ replicate 2 2 @ replicate 4 3 @ replicate 8 4 @ replicate 16 5
     @ replicate 32 6 @ replicate 64 7"
  by (simp add: aLawCompressTable_def numeral_eq_Suc)

lemma exponent_cases:
  fixes e :: nat
  assumes "e < 8"
  obtains "e = 0" | "e = 1" | "e = 2" | "e = 3" | "e = 4" | "e = 5" | "e = 6" | "e = 7"
  using assms by fastforce

lemma muLaw_exponent:
  assumes "e < 8" "2 ^ e \<le> k" "k < 2 ^ Suc e"
  shows "muLawCompressTable ! k = word_of_nat e"
  using assms(1)
proof (cases rule: exponent_cases)
qed (use assms(2,3) in \<open>auto simp: muLawCompressTable_eq nth_append\<close>)

lemma aLaw_exponent:
  assumes "e < 7" "2 ^ e \<le> k" "k < 2 ^ Suc e"
  shows "aLawCompressTable ! k = word_of_nat (Suc e)"
proof -
  from assms(1) have "e < 8" by simp
  then show ?thesis
  proof (cases rule: exponent_cases)
  qed (use assms in \<open>auto simp: aLawCompressTable_eq nth_append\<close>)
qed

subsection \<open>Companding as arithmetic\<close>

text \<open>
  The reference the code is compared with: the segment of a magnitude (its binary order above
  \<open>2^7\<close>), the code of a magnitude, and the value a code stands for (the middle of its interval).
\<close>

definition seg :: "nat \<Rightarrow> nat" where
  "seg m = (if m < 256 then 0 else if m < 512 then 1 else if m < 1024 then 2 else if m < 2048 then 3
     else if m < 4096 then 4 else if m < 8192 then 5 else if m < 16384 then 6 else 7)"

definition seg_code :: "nat \<Rightarrow> nat" where
  "seg_code m = 16 * seg m + m div 2 ^ (seg m + 3) mod 16"

definition seg_value :: "nat \<Rightarrow> nat" where
  "seg_value c = (2 * (c mod 16) + 33) * 2 ^ (c div 16 + 2)"

definition alaw_code :: "nat \<Rightarrow> nat" where
  "alaw_code m = (if m < 256 then m div 16 else seg_code m)"

definition alaw_value :: "nat \<Rightarrow> nat" where
  "alaw_value c = (if c < 16 then 16 * c + 8 else seg_value c)"

lemma seg_less: "seg m < 8"
  by (simp add: seg_def)

lemma seg_bounds: "128 \<le> m \<Longrightarrow> m < 32768 \<Longrightarrow> 2 ^ (seg m + 7) \<le> m \<and> m < 2 ^ (seg m + 8)"
  by (simp add: seg_def)

lemma seg_unique:
  assumes "e < 8" "2 ^ (e + 7) \<le> m" "m < 2 ^ (e + 8)"
  shows "seg m = e"
  using assms(1)
proof (cases rule: exponent_cases)
qed (use assms(2,3) in \<open>auto simp: seg_def\<close>)

lemma mantissa:
  fixes e m :: nat
  assumes "2 ^ (e + 7) \<le> m" "m < 2 ^ (e + 8)"
  shows "16 \<le> m div 2 ^ (e + 3)" "m div 2 ^ (e + 3) < 32"
    "m div 2 ^ (e + 3) mod 16 = m div 2 ^ (e + 3) - 16"
proof -
  have p: "(2::nat) ^ (e + 7) = 16 * 2 ^ (e + 3)" "(2::nat) ^ (e + 8) = 32 * 2 ^ (e + 3)"
    by (simp_all add: power_add)
  show lo: "16 \<le> m div 2 ^ (e + 3)"
    using assms(1) unfolding p by (simp add: less_eq_div_iff_mult_less_eq)
  show hi: "m div 2 ^ (e + 3) < 32"
    using assms(2) unfolding p by (simp add: div_less_iff_less_mult)
  from lo hi show "m div 2 ^ (e + 3) mod 16 = m div 2 ^ (e + 3) - 16"
    by (simp add: mod_if)
qed

lemma seg_code_parts: "seg_code m div 16 = seg m" "seg_code m mod 16 = m div 2 ^ (seg m + 3) mod 16"
  by (simp_all add: seg_code_def)

lemma seg_code_less: "seg_code m < 128"
  using seg_less [of m] mod_less_divisor [of 16 "m div 2 ^ (seg m + 3)"] by (simp add: seg_code_def)

text \<open>The value of a code is within half an interval of every magnitude with that code.\<close>

lemma seg_error:
  assumes "128 \<le> m" "m < 32768"
  shows "32 * \<bar>int (seg_value (seg_code m)) - int m\<bar> \<le> int m"
proof -
  define e where "e = seg m"
  define d where "d = (2::nat) ^ (e + 2)"
  define q where "q = m div (2 * d)"
  have d2: "2 ^ (e + 3) = 2 * d" by (simp add: d_def power_add)
  have b: "2 ^ (e + 7) \<le> m" "m < 2 ^ (e + 8)" using seg_bounds [OF assms] by (simp_all add: e_def)
  note mt = mantissa [OF b, unfolded d2, folded q_def]
  have "32 * d \<le> m" using b(1) by (simp add: d_def power_add)
  have "m = q * (2 * d) + m mod (2 * d)"
    unfolding q_def by (rule div_mult_mod_eq [symmetric])
  moreover have "m mod (2 * d) < 2 * d" by (simp add: d_def)
  moreover have "seg_value (seg_code m) = (2 * (q - 16) + 33) * d"
    unfolding seg_value_def seg_code_parts e_def [symmetric] d2 d_def [symmetric] q_def [symmetric]
      mt(3) ..
  moreover have "(2 * (q - 16) + 33) * d = q * (2 * d) + d"
    using mt(1) by (simp add: algebra_simps diff_mult_distrib2)
  ultimately have "\<bar>int (seg_value (seg_code m)) - int m\<bar> \<le> int d" by linarith
  then have "32 * \<bar>int (seg_value (seg_code m)) - int m\<bar> \<le> 32 * int d" by simp
  also have "\<dots> = int (32 * d)" by simp
  also have "\<dots> \<le> int m" using \<open>32 * d \<le> m\<close> by (simp only: of_nat_le_iff)
  finally show ?thesis .
qed

lemma seg_value_bounds:
  assumes "c < 128"
  shows "2 ^ (c div 16 + 7) \<le> seg_value c" "seg_value c < 2 ^ (c div 16 + 8)" "seg_value c < 32768"
proof -
  have p: "(2::nat) ^ (c div 16 + 7) = 32 * 2 ^ (c div 16 + 2)" "(2::nat) ^ (c div 16 + 8) = 64 * 2 ^ (c div 16 + 2)"
    by (simp_all add: power_add)
  show "2 ^ (c div 16 + 7) \<le> seg_value c"
    unfolding p seg_value_def by (rule mult_le_mono1) simp
  show lt: "seg_value c < 2 ^ (c div 16 + 8)"
    unfolding p seg_value_def
  proof (rule mult_strict_right_mono)
    show "2 * (c mod 16) + 33 < 64" using mod_less_divisor [of 16 c] by linarith
  qed simp
  have "c div 16 \<le> 7" using assms by simp
  then have "(2::nat) ^ (c div 16 + 8) \<le> 2 ^ 15" by (intro power_increasing) simp_all
  with lt show "seg_value c < 32768" by simp
qed

lemma seg_code_value:
  assumes "c < 128"
  shows "seg_code (seg_value c) = c"
proof -
  define d where "d = (2::nat) ^ (c div 16 + 2)"
  have "c div 16 < 8" using assms by simp
  from seg_unique [OF this seg_value_bounds(1,2) [OF assms]] have s: "seg (seg_value c) = c div 16" .
  have d: "2 ^ (c div 16 + 3) = 2 * d" "0 < d" by (simp_all add: d_def power_add)
  have "seg_value c = (c mod 16 + 16) * (2 * d) + d"
    unfolding seg_value_def d_def by (simp add: algebra_simps power_add)
  then have "seg_value c div (2 * d) = c mod 16 + 16"
    using d(2) by (simp add: div_mult_self1 [of "2 * d"] del: div_mult_self1)
  then show ?thesis by (simp add: seg_code_def s d(1))
qed

lemma alaw_code_less: "alaw_code m < 128"
  by (simp add: alaw_code_def seg_code_less div_less_iff_less_mult)

lemma alaw_code_value: "c < 128 \<Longrightarrow> alaw_code (alaw_value c) = c"
proof (cases "c < 16")
  case True
  then show ?thesis by (simp add: alaw_code_def alaw_value_def)
next
  case False
  assume c: "c < 128"
  from False have "(2::nat) ^ 8 \<le> 2 ^ (c div 16 + 7)" by (intro power_increasing) (simp_all add: Suc_le_eq div_greater_zero_iff)
  with seg_value_bounds(1) [OF c] have "\<not> seg_value c < 256" by simp
  with False c show ?thesis by (simp add: alaw_code_def alaw_value_def seg_code_value)
qed

lemma alaw_value_less: "c < 128 \<Longrightarrow> alaw_value c < 32768"
  by (simp add: alaw_value_def seg_value_bounds(3))

lemma alaw_error: "m < 32768 \<Longrightarrow> 32 * \<bar>int (alaw_value (alaw_code m)) - int m\<bar> \<le> max 256 (int m)"
proof (cases "m < 256")
  case True
  then have "m div 16 < 16" by (simp add: div_less_iff_less_mult)
  with True show ?thesis
    by (simp add: alaw_code_def alaw_value_def)
next
  case False
  assume m: "m < 32768"
  from False m have "1 \<le> seg m" by (simp add: seg_def)
  then have "\<not> seg_code m < 16" by (simp add: seg_code_def)
  with False seg_error [of m] m show ?thesis
    by (simp add: alaw_code_def alaw_value_def)
qed

subsection \<open>The code computes the reference\<close>

lemma nibbles:
  assumes "q < 16"
  shows "push_bit 4 (word_of_nat e :: u8) OR word_of_nat q = word_of_nat (16 * e + q)"
proof -
  have q: "word_of_nat q = take_bit 4 (word_of_nat q :: u8)"
    using assms by (simp add: take_bit_of_nat take_bit_nat_eq_self)
  have "push_bit 4 (word_of_nat e :: u8) AND word_of_nat q = 0"
    by (subst q, rule bit_word_eqI) (auto simp: bit_and_iff bit_push_bit_iff bit_take_bit_iff)
  then have "push_bit 4 (word_of_nat e :: u8) OR word_of_nat q = push_bit 4 (word_of_nat e) + word_of_nat q"
    by (simp add: disjunctive_add_eq_or)
  then show ?thesis by (simp add: push_bit_eq_mult mult.commute)
qed

lemma sint_neg_iff_bit: "sint (w :: u16) < 0 \<longleftrightarrow> bit w 15"
  using bit_last_iff [of w] by simp

lemma bit_128: "bit (128 :: u8) n \<longleftrightarrow> n = 7"
  using bit_exp_iff [of 7 n, where ?'a = u8] by auto

lemma sign_bit:
  "(ucast (signed_drop_bit 8 (w :: u16)) :: u8) AND 128 = (if sint w < 0 then 128 else 0)"
proof (rule bit_word_eqI)
  fix n :: nat
  assume n: "n < LENGTH(8)"
  have "bit ((ucast (signed_drop_bit 8 w) :: u8) AND 128) n \<longleftrightarrow> bit w (8 + n) \<and> n = 7"
    using n by (simp only: bit_and_iff bit_128) (auto simp: bit_ucast_iff bit_signed_drop_bit_iff)
  moreover have "bit (if sint w < 0 then 128 else 0 :: u8) n \<longleftrightarrow> bit w 15 \<and> n = 7"
    by (simp only: sint_neg_iff_bit if_split_mem1 bit_128 split: if_split) simp
  ultimately show "bit ((ucast (signed_drop_bit 8 w) :: u8) AND 128) n
      = bit (if sint w < 0 then 128 else 0 :: u8) n"
    by auto
qed

lemma sint_not_neg: "sint (NOT w :: u16) < 0 \<longleftrightarrow> 0 \<le> sint w"
  by (simp add: sint_neg_iff_bit bit_not_iff flip: not_less)

lemma shift_amount: "e < 8 \<Longrightarrow> unat (word_of_nat e + 3 :: u8) = e + 3"
  by (simp add: unat_word_ariths unat_of_nat take_bit_nat_eq_self)

lemma segment_word:
  assumes "128 \<le> m" "m < 32768"
  shows "push_bit 4 (word_of_nat (seg m) :: u8)
      OR ((ucast (signed_drop_bit (unat (word_of_nat (seg m) + 3 :: u8)) (word_of_nat m :: u16)) :: u8) AND 15)
    = word_of_nat (seg_code m)"
  using assms
  by (simp add: shift_amount [OF seg_less] shift16 ucast16_8 and_low4 nibbles seg_code_def)

lemma alaw_table_lookup:
  assumes "256 \<le> m" "m < 32768"
  shows "aLawCompressTable ! unat (signed_drop_bit 8 (word_of_nat m :: u16) AND 127) = word_of_nat (seg m)"
proof -
  have b: "2 ^ (seg m + 7) \<le> m" "m < 2 ^ (seg m + 8)" using seg_bounds [of m] assms by auto
  have "m div 256 < 128" using assms by (simp add: div_less_iff_less_mult)
  then have i: "unat (signed_drop_bit 8 (word_of_nat m :: u16) AND 127) = m div 256"
    using assms by (simp add: shift16 unat_and_mask16)
  have "0 < seg m" using assms by (simp add: seg_def)
  then obtain e where e: "seg m = Suc e" by (cases "seg m") auto
  have "2 ^ e \<le> m div 256" "m div 256 < 2 ^ Suc e"
    using b unfolding e by (simp_all add: less_eq_div_iff_mult_less_eq div_less_iff_less_mult power_add)
  with i e seg_less [of m] show ?thesis by (simp add: aLaw_exponent)
qed

lemma mulaw_table_lookup:
  assumes "128 \<le> m" "m < 32768"
  shows "muLawCompressTable ! unat (signed_drop_bit 7 (word_of_nat m :: u16) AND 255) = word_of_nat (seg m)"
proof -
  have b: "2 ^ (seg m + 7) \<le> m" "m < 2 ^ (seg m + 8)" using seg_bounds [of m] assms by auto
  have "m div 128 < 256" using assms by (simp add: div_less_iff_less_mult)
  then have i: "unat (signed_drop_bit 7 (word_of_nat m :: u16) AND 255) = m div 128"
    using assms by (simp add: shift16 unat_and_mask16)
  have "2 ^ seg m \<le> m div 128" "m div 128 < 2 ^ Suc (seg m)"
    using b by (simp_all add: less_eq_div_iff_mult_less_eq div_less_iff_less_mult power_add)
  with i seg_less [of m] show ?thesis by (simp add: muLaw_exponent)
qed

text \<open>The magnitude the code works on: the absolute value, clipped.\<close>

definition magnitude :: "u16 \<Rightarrow> nat" where
  "magnitude s = min (nat \<bar>sint s\<bar>) 32635"

lemma magnitude_word:
  assumes "sint s \<noteq> - 32768" "s' = (if sint s < 0 then - s else s)"
  shows "(if sint s' > sint cClip then cClip else s') = word_of_nat (magnitude s)"
proof -
  have c: "sint cClip = 32635" by (simp add: cClip_def)
  from assms have "sint s' = \<bar>sint s\<bar>" by (auto simp: sint_minus16)
  then have "s' = word_of_nat (nat \<bar>sint s\<bar>)" using of_nat_sint16 [of s'] by simp
  with \<open>sint s' = \<bar>sint s\<bar>\<close> show ?thesis
    by (simp add: c magnitude_def min_def cClip_def nat_le_iff)
qed

lemma magnitude_less: "magnitude s < 32636"
  by (simp add: magnitude_def min_def)

lemma linearToALaw_eq:
  assumes "sint s \<noteq> - 32768"
  shows "linearToALaw s =
     word_of_nat (alaw_code (magnitude s)) XOR (if sint s < 0 then 0x55 else 0xD5)"
proof -
  let ?m = "magnitude s" and ?sign = "if sint s < 0 then 0 else 128 :: u8"
  have sgn: "(ucast (signed_drop_bit 8 (NOT s)) :: u8) AND 128 = ?sign"
    by (simp add: sign_bit sint_not_neg)
  have mag: "(if sint (if ?sign = 0 then - s else s) > sint cClip then cClip
      else (if ?sign = 0 then - s else s)) = word_of_nat ?m"
    by (rule magnitude_word [OF assms]) simp
  have m: "?m < 32768" using magnitude_less [of s] by simp
  have code: "(if sint (word_of_nat ?m :: u16) \<ge> 256 then
        (let expo = aLawCompressTable ! unat (signed_drop_bit 8 (word_of_nat ?m :: u16) AND 127);
             mantissa = (ucast (signed_drop_bit (unat (expo + 3)) (word_of_nat ?m :: u16)) :: u8) AND 15
         in push_bit 4 expo OR mantissa)
      else ucast (signed_drop_bit 4 (word_of_nat ?m :: u16))) = word_of_nat (alaw_code ?m)"
  proof (cases "256 \<le> ?m")
    case True
    with m segment_word [of ?m] show ?thesis
      by (simp add: Let_def alaw_table_lookup sint_of_nat16 alaw_code_def del: of_nat_numeral)
  next
    case False
    with m show ?thesis by (simp add: sint_of_nat16 shift16 ucast16_8 alaw_code_def)
  qed
  show ?thesis
    unfolding linearToALaw_def Let_def sgn mag
    using code [unfolded Let_def] by simp
qed

lemma linearToMuLaw_eq:
  assumes "sint s \<noteq> - 32768"
  shows "linearToMuLaw s =
     NOT ((if sint s < 0 then 128 else 0) OR word_of_nat (seg_code (magnitude s + 132)))"
proof -
  let ?m = "magnitude s" and ?sign = "if sint s < 0 then 128 else 0 :: u8"
  have mag: "(if sint (if ?sign \<noteq> 0 then - s else s) > sint cClip then cClip
      else (if ?sign \<noteq> 0 then - s else s)) = word_of_nat ?m"
    by (rule magnitude_word [OF assms]) simp
  have biased: "word_of_nat ?m + cBias = word_of_nat (?m + 132)"
    by (simp add: cBias_def)
  have m: "128 \<le> ?m + 132" "?m + 132 < 32768" using magnitude_less [of s] by simp_all
  show ?thesis
    unfolding linearToMuLaw_def Let_def sign_bit mag biased mulaw_table_lookup [OF m]
      segment_word [OF m] ..
qed

subsection \<open>The expansion tables\<close>

definition alaw_sample :: "nat \<Rightarrow> int" where
  "alaw_sample b = (if b < 128 then - int (alaw_value (b XOR 85)) else int (alaw_value (b XOR 213)))"

text \<open>Mu-law code \<open>0x7F\<close>, the negative zero, expands to \<open>-1\<close> and not to 0.\<close>

definition mulaw_sample :: "nat \<Rightarrow> int" where
  "mulaw_sample b =
     (if b = 127 then - 1
      else let v = int (seg_value ((255 - b) mod 128)) - 132 in if b < 128 then - v else v)"

lemma upt_256: "[0..<256] = 0 # 1 # [2..<256]"
  using upt_conv_Cons [of 0 256] upt_conv_Cons [of 1 256] by (simp add: numeral_2_eq_2)

lemma aLawDecompressTable_eq:
  "aLawDecompressTable = map (\<lambda>b. word_of_int (alaw_sample b)) [0..<256]"
  by (simp add: aLawDecompressTable_def alaw_sample_def alaw_value_def seg_value_def upt_256)

lemma muLawDecompressTable_eq:
  "muLawDecompressTable = map (\<lambda>b. word_of_int (mulaw_sample b)) [0..<256]"
  by (simp add: muLawDecompressTable_def mulaw_sample_def seg_value_def upt_256)

lemma aLaw_lookup: "aLawDecompressTable ! unat (b :: u8) = word_of_int (alaw_sample (unat b))"
  using unat_u8_less [of b] by (simp add: aLawDecompressTable_eq)

lemma muLaw_lookup: "muLawDecompressTable ! unat (b :: u8) = word_of_int (mulaw_sample (unat b))"
  using unat_u8_less [of b] by (simp add: muLawDecompressTable_eq)

lemma all_bytes: "P (n :: nat)" if "n < 256" "\<forall>n \<in> set [0..<256]. P n"
  using that by simp

lemma seg_value_le: "c < 128 \<Longrightarrow> seg_value c \<le> 32256"
proof -
  assume "c < 128"
  then have "c div 16 \<le> 7" by simp
  then have "(2::nat) ^ (c div 16 + 2) \<le> 2 ^ 9" by (intro power_increasing) simp_all
  moreover have "2 * (c mod 16) + 33 \<le> 63" using mod_less_divisor [of 16 c] by linarith
  ultimately have "(2 * (c mod 16) + 33) * 2 ^ (c div 16 + 2) \<le> 63 * 2 ^ 9" by (intro mult_le_mono)
  then show ?thesis by (simp add: seg_value_def)
qed

lemma seg_value_ge: "132 \<le> seg_value c" "0 < c \<Longrightarrow> c < 128 \<Longrightarrow> 132 < seg_value c"
proof -
  have "33 * 2 ^ 2 \<le> (2 * (c mod 16) + 33) * (2::nat) ^ (c div 16 + 2)"
    by (intro mult_le_mono power_increasing) simp_all
  then show "132 \<le> seg_value c" by (simp add: seg_value_def)
  assume "0 < c" "c < 128"
  show "132 < seg_value c"
  proof (cases "c < 16")
    case True
    with \<open>0 < c\<close> show ?thesis by (simp add: seg_value_def)
  next
    case False
    then have "33 * 2 ^ 3 \<le> (2 * (c mod 16) + 33) * (2::nat) ^ (c div 16 + 2)"
      by (intro mult_le_mono power_increasing) (simp_all add: Suc_le_eq div_greater_zero_iff)
    then show ?thesis by (simp add: seg_value_def)
  qed
qed

lemma alaw_value_bounds: "c < 128 \<Longrightarrow> 0 < alaw_value c \<and> alaw_value c \<le> 32256"
  using seg_value_le [of c] seg_value_ge(1) [of c] by (auto simp: alaw_value_def)

lemma alaw_code_bits:
  assumes "n < 256"
  shows "(if n < 128 then n XOR 85 < 128 \<and> word_of_nat (n XOR 85) XOR 85 = (word_of_nat n :: u8)
     else n XOR 213 < 128 \<and> word_of_nat (n XOR 213) XOR 213 = (word_of_nat n :: u8))"
  by (rule all_bytes [OF assms]) (simp add: upt_256)

lemma alaw_byte_bits:
  assumes "k < 128"
  shows "unat (word_of_nat k XOR 85 :: u8) < 128 \<and> unat (word_of_nat k XOR 85 :: u8) XOR 85 = k
     \<and> 128 \<le> unat (word_of_nat k XOR 213 :: u8) \<and> unat (word_of_nat k XOR 213 :: u8) XOR 213 = k"
proof -
  have "k < 128 \<longrightarrow> unat (word_of_nat k XOR 85 :: u8) < 128 \<and> unat (word_of_nat k XOR 85 :: u8) XOR 85 = k
     \<and> 128 \<le> unat (word_of_nat k XOR 213 :: u8) \<and> unat (word_of_nat k XOR 213 :: u8) XOR 213 = k"
    by (rule all_bytes) (use assms in simp, simp add: upt_256)
  with assms show ?thesis by blast
qed

lemma mulaw_byte_bits:
  assumes "n < 256"
  shows "NOT ((if n < 128 then 128 else 0) OR word_of_nat ((255 - n) mod 128)) = (word_of_nat n :: u8)"
  by (rule all_bytes [OF assms]) (simp add: upt_256)

lemma unat_not8: "unat (NOT x :: u8) = 255 - unat x"
proof -
  have "NOT x = - 1 - x" by (simp add: not_eq_complement)
  moreover have "unat (- 1 - x) = unat (- 1 :: u8) - unat x" by (rule unat_sub) simp
  ultimately show ?thesis by (simp add: unsigned_minus_1_eq_mask mask_eq_exp_minus_1)
qed

lemma unat_or128: "c < 128 \<Longrightarrow> unat (128 OR word_of_nat c :: u8) = 128 + c"
proof -
  assume c: "c < 128"
  then have q: "word_of_nat c = take_bit 7 (word_of_nat c :: u8)"
    by (simp add: take_bit_of_nat take_bit_nat_eq_self)
  have "(128 :: u8) AND word_of_nat c = 0"
    by (subst q, rule bit_word_eqI) (simp only: bit_and_iff bit_128 bit_take_bit_iff bit_0_eq, simp)
  then have "(128 :: u8) OR word_of_nat c = 128 + word_of_nat c"
    by (simp add: disjunctive_add_eq_or)
  also have "unat \<dots> = 128 + c"
    using c by (simp add: unat_word_ariths unat_of_nat take_bit_nat_eq_self)
  finally show ?thesis .
qed

lemma mulaw_code_bits:
  assumes "c < 128"
  shows "unat (NOT (128 OR word_of_nat c) :: u8) = 127 - c" "unat (NOT (word_of_nat c) :: u8) = 255 - c"
  using assms by (simp_all only: unat_not8 unat_or128) (simp_all add: unat_of_nat take_bit_nat_eq_self)

lemma alaw_sample_bounds:
  assumes "n < 256"
  shows "- 32256 \<le> alaw_sample n" "alaw_sample n \<le> 32256" "alaw_sample n < 0 \<longleftrightarrow> n < 128"
  using alaw_code_bits [OF assms] alaw_value_bounds [of "n XOR 85"] alaw_value_bounds [of "n XOR 213"]
  by (auto simp: alaw_sample_def split: if_splits)

lemma sint_alaw_sample: "n < 256 \<Longrightarrow> sint (word_of_int (alaw_sample n) :: u16) = alaw_sample n"
  using alaw_sample_bounds [of n] by (intro sint_of_int16) auto

lemma linearToALaw_expand: "linearToALaw (aLawDecompressTable ! unat b) = b"
proof -
  define n where "n = unat b"
  have n: "n < 256" by (simp add: n_def unat_u8_less)
  define k where "k = (if n < 128 then n XOR 85 else n XOR 213)"
  have k: "k < 128" using alaw_code_bits [OF n] by (auto simp: k_def)
  have s: "sint (aLawDecompressTable ! unat b) = (if n < 128 then - int (alaw_value k) else int (alaw_value k))"
    unfolding aLaw_lookup sint_alaw_sample [OF unat_u8_less] by (simp add: alaw_sample_def k_def n_def)
  then have m: "magnitude (aLawDecompressTable ! unat b) = alaw_value k"
    using alaw_value_bounds [OF k] by (auto simp: magnitude_def)
  have "word_of_nat k XOR (if n < 128 then 85 else 213) = (word_of_nat n :: u8)"
    using alaw_code_bits [OF n] by (auto simp: k_def)
  moreover have "word_of_nat n = b" by (simp add: n_def)
  ultimately show ?thesis
    using s alaw_value_bounds [OF k]
    by (subst linearToALaw_eq) (auto simp: m alaw_code_value k)
qed

lemma sint_mulaw_sample:
  assumes "n < 256"
  shows "sint (word_of_int (mulaw_sample n) :: u16) = mulaw_sample n"
  using seg_value_le [of "(255 - n) mod 128"] seg_value_ge(1) [of "(255 - n) mod 128"]
  by (intro sint_of_int16) (auto simp: mulaw_sample_def Let_def)

lemma mulaw_sample_neg:
  assumes "n < 256"
  shows "mulaw_sample n < 0 \<longleftrightarrow> n < 128"
proof (cases "n < 127")
  case True
  then have "(255 - n) mod 128 = 127 - n" by (simp add: mod_if)
  with True seg_value_ge(2) [of "127 - n"] show ?thesis by (simp add: mulaw_sample_def Let_def)
next
  case False
  with seg_value_ge(1) [of "(255 - n) mod 128"] show ?thesis by (auto simp: mulaw_sample_def Let_def)
qed

lemma nat_unbias: "nat (int a - 132) = a - 132"
  by arith

lemma linearToMuLaw_expand: "linearToMuLaw (muLawDecompressTable ! unat b) = b"
proof -
  define n where "n = unat b"
  have n: "n < 256" by (simp add: n_def unat_u8_less)
  define c where "c = (255 - n) mod 128"
  let ?s = "muLawDecompressTable ! unat b"
  have s: "sint ?s = mulaw_sample n"
    unfolding muLaw_lookup sint_mulaw_sample [OF unat_u8_less] by (simp add: n_def)
  have ge: "132 \<le> seg_value c" "seg_value c \<le> 32256"
    using seg_value_ge(1) seg_value_le [of c] by (simp_all add: c_def)
  have "seg_code (magnitude ?s + 132) = c"
  proof (cases "n = 127")
    case True
    then show ?thesis by (simp add: magnitude_def s mulaw_sample_def c_def seg_code_def seg_def)
  next
    case False
    then have "magnitude ?s = seg_value c - 132"
      using ge by (auto simp: magnitude_def s mulaw_sample_def Let_def c_def nat_unbias)
    with ge(1) show ?thesis by (simp add: seg_code_value c_def)
  qed
  moreover have "sint ?s \<noteq> - 32768"
    using ge by (auto simp: s mulaw_sample_def Let_def c_def)
  ultimately have "linearToMuLaw ?s = NOT ((if n < 128 then 128 else 0) OR word_of_nat c)"
    by (simp add: linearToMuLaw_eq s mulaw_sample_neg [OF n])
  also have "\<dots> = b" using mulaw_byte_bits [OF n] by (simp add: c_def n_def)
  finally show ?thesis .
qed

subsection \<open>Quantisation error\<close>

lemma magnitude_cases:
  assumes "sint s \<noteq> - 32768"
  shows "int (magnitude s) = \<bar>sint s\<bar> \<and> \<bar>sint s\<bar> \<le> 32635
     \<or> magnitude s = 32635 \<and> 32635 < \<bar>sint s\<bar> \<and> \<bar>sint s\<bar> \<le> 32767"
  using sint_range16 [of s] assms by (auto simp: magnitude_def min_def)

lemma alaw_decoded:
  assumes "sint s \<noteq> - 32768"
  shows "sint (aLawDecompressTable ! unat (linearToALaw s))
    = (if sint s < 0 then - 1 else 1) * int (alaw_value (alaw_code (magnitude s)))"
proof -
  let ?k = "alaw_code (magnitude s)"
  note bits = alaw_byte_bits [OF alaw_code_less [of "magnitude s"]]
  show ?thesis
    unfolding aLaw_lookup sint_alaw_sample [OF unat_u8_less] linearToALaw_eq [OF assms]
    using bits by (auto simp: alaw_sample_def)
qed

lemma alaw_error_signed:
  assumes "sint s \<noteq> - 32768"
  shows "32 * \<bar>sint (aLawDecompressTable ! unat (linearToALaw s)) - sint s\<bar> \<le> max 256 \<bar>sint s\<bar>"
proof -
  let ?v = "int (alaw_value (alaw_code (magnitude s)))"
  have v: "sint (aLawDecompressTable ! unat (linearToALaw s)) - sint s
      = (if sint s < 0 then - 1 else 1) * (?v - \<bar>sint s\<bar>)"
    by (simp add: alaw_decoded [OF assms])
  from magnitude_cases [OF assms] have "32 * \<bar>?v - \<bar>sint s\<bar>\<bar> \<le> max 256 \<bar>sint s\<bar>"
  proof
    assume "int (magnitude s) = \<bar>sint s\<bar> \<and> \<bar>sint s\<bar> \<le> 32635"
    with alaw_error [of "magnitude s"] magnitude_less [of s] show ?thesis by simp
  next
    assume m: "magnitude s = 32635 \<and> 32635 < \<bar>sint s\<bar> \<and> \<bar>sint s\<bar> \<le> 32767"
    then have "?v = 32256"
      by (simp add: alaw_code_def alaw_value_def seg_code_def seg_value_def seg_def)
    with m show ?thesis by simp
  qed
  moreover have "\<bar>(if sint s < 0 then - 1 else 1) * x\<bar> = \<bar>x\<bar>" for x :: int by simp
  ultimately show ?thesis unfolding v by simp
qed

lemma mulaw_decoded:
  assumes "sint s \<noteq> - 32768"
  defines "c \<equiv> seg_code (magnitude s + 132)"
  shows "sint (muLawDecompressTable ! unat (linearToMuLaw s))
    = (if sint s < 0 then (if c = 0 then - 1 else 132 - int (seg_value c)) else int (seg_value c) - 132)"
proof -
  have c: "c < 128" by (simp add: c_def seg_code_less)
  note bits = mulaw_code_bits [OF c]
  have lk: "sint (muLawDecompressTable ! unat (linearToMuLaw s))
      = mulaw_sample (unat (NOT ((if sint s < 0 then 128 else 0) OR word_of_nat c) :: u8))"
    unfolding muLaw_lookup sint_mulaw_sample [OF unat_u8_less] linearToMuLaw_eq [OF assms(1)]
    by (simp add: c_def)
  show ?thesis
  proof (cases "sint s < 0")
    case True
    have "(255 - (127 - c)) mod 128 = c" using c by (simp add: mod_if)
    with True bits lk c show ?thesis by (auto simp: mulaw_sample_def Let_def)
  next
    case False
    moreover have "\<not> 255 - c < 128" "255 - c \<noteq> 127" "(255 - (255 - c)) mod 128 = c"
      using c by (simp_all add: mod_if)
    ultimately show ?thesis using bits(2) lk by (simp add: mulaw_sample_def)
  qed
qed

lemma mulaw_error_signed:
  assumes "sint s \<noteq> - 32768"
  shows "32 * \<bar>sint (muLawDecompressTable ! unat (linearToMuLaw s)) - sint s\<bar> \<le> \<bar>sint s\<bar> + 132"
proof -
  let ?m = "magnitude s + 132"
  let ?v = "int (seg_value (seg_code ?m))"
  have "?m < 32768" using magnitude_less [of s] by simp
  with seg_error [of ?m] have err: "32 * \<bar>?v - int ?m\<bar> \<le> int ?m" by simp
  from magnitude_cases [OF assms] show ?thesis
  proof
    assume m: "int (magnitude s) = \<bar>sint s\<bar> \<and> \<bar>sint s\<bar> \<le> 32635"
    have zero: "int (magnitude s) < 4" if "seg_code ?m = 0"
    proof -
      have s0: "seg ?m = 0" using that by (simp add: seg_code_def)
      have "?m div 2 ^ (seg ?m + 3) mod 16 = 0" using that by (auto simp: seg_code_def)
      then have "?m div 8 mod 16 = 0" unfolding s0 by simp
      moreover have "?m < 256" using s0 by (auto simp: seg_def split: if_splits)
      then have q: "16 \<le> ?m div 8" "?m div 8 < 32" by simp_all
      moreover from q have "?m div 8 mod 16 = ?m div 8 - 16" by (simp add: mod_if)
      ultimately have "?m div 8 = 16" by simp
      then show ?thesis by linarith
    qed
    from m have i: "int ?m = \<bar>sint s\<bar> + 132" by simp
    let ?d = "sint (muLawDecompressTable ! unat (linearToMuLaw s)) - sint s"
    have "\<bar>?d\<bar> = \<bar>?v - int ?m\<bar> \<or> ?d = - 1 - sint s \<and> sint s < 0 \<and> seg_code ?m = 0"
      unfolding i mulaw_decoded [OF assms] by (cases "sint s < 0") (simp_all add: abs_if)
    then show ?thesis
    proof
      assume "\<bar>?d\<bar> = \<bar>?v - int ?m\<bar>"
      with err i show ?thesis by simp
    next
      assume "?d = - 1 - sint s \<and> sint s < 0 \<and> seg_code ?m = 0"
      with zero m show ?thesis by simp
    qed
  next
    assume m: "magnitude s = 32635 \<and> 32635 < \<bar>sint s\<bar> \<and> \<bar>sint s\<bar> \<le> 32767"
    then have "seg_code ?m = 127" "?v = 32256"
      by (simp_all add: seg_code_def seg_value_def seg_def)
    with m show ?thesis by (auto simp: mulaw_decoded [OF assms])
  qed
qed

text \<open>
  The least sample: \<open>-32768\<close> is its own negation in 16 bits, escapes the clipping and is
  encoded as a near silence, \<open>-8\<close> in A-law and \<open>-1\<close> in mu-law, although its neighbour
  \<open>-32767\<close> is encoded as full scale.
\<close>

lemma companding_min_sample:
  "sint (aLawDecompressTable ! unat (linearToALaw (word_of_int (- 32768)))) = - 8
   \<and> sint (muLawDecompressTable ! unat (linearToMuLaw (word_of_int (- 32768)))) = - 1
   \<and> sint (aLawDecompressTable ! unat (linearToALaw (word_of_int (- 32767)))) = - 32256
   \<and> sint (muLawDecompressTable ! unat (linearToMuLaw (word_of_int (- 32767)))) = - 32124"
proof -
  have min: "linearToALaw (word_of_int (- 32768)) = 85" "linearToMuLaw (word_of_int (- 32768)) = 127"
    by code_simp+
  have s: "sint (word_of_int (- 32767) :: u16) = - 32767" by (simp add: sint_of_int16)
  then have m: "magnitude (word_of_int (- 32767)) = 32635" by (simp add: magnitude_def)
  show ?thesis
    using alaw_decoded [of "word_of_int (- 32767)"] mulaw_decoded [of "word_of_int (- 32767)"]
    unfolding min s m
    by (simp add: aLawDecompressTable_eq muLawDecompressTable_eq alaw_sample_def mulaw_sample_def
        alaw_code_def alaw_value_def seg_code_def seg_value_def seg_def)
qed

text \<open>
  C25. Companding is idempotent, and accurate for every sample but one. Expanding a code and
  compressing it again gives the code back, for all 256 codes of both laws. Compressing a sample other
  than \<open>-32768\<close> and expanding it again is off, in A-law, by at most \<open>1/32\<close> of a sample whose absolute
  value is at least 256, and by at most 8 of a smaller one; and in mu-law by at most \<open>1/32\<close> of the
  absolute value plus 132, which is at least 4 also for the smallest samples. The sample \<open>-32768\<close>, full
  scale, comes back as a near silence, \<open>-8\<close> in A-law and \<open>-1\<close> in mu-law.
\<close>

theorem companding_accuracy:
  "linearToALaw (aLawDecompressTable ! unat b) = b
   \<and> linearToMuLaw (muLawDecompressTable ! unat b) = b
   \<and> (sint s \<noteq> - 32768 \<longrightarrow>
        32 * \<bar>sint (aLawDecompressTable ! unat (linearToALaw s)) - sint s\<bar> \<le> max 256 \<bar>sint s\<bar>
      \<and> 32 * \<bar>sint (muLawDecompressTable ! unat (linearToMuLaw s)) - sint s\<bar> \<le> \<bar>sint s\<bar> + 132)
   \<and> (sint s = - 32768 \<longrightarrow>
        sint (aLawDecompressTable ! unat (linearToALaw s)) = - 8
      \<and> sint (muLawDecompressTable ! unat (linearToMuLaw s)) = - 1)"
proof -
  have "s = word_of_int (- 32768)" if "sint s = - 32768" using that signed_word_eqI [of s "word_of_int (- 32768)"] by simp
  with companding_min_sample have "sint s = - 32768 \<longrightarrow>
        sint (aLawDecompressTable ! unat (linearToALaw s)) = - 8
      \<and> sint (muLawDecompressTable ! unat (linearToMuLaw s)) = - 1" by blast
  with linearToALaw_expand linearToMuLaw_expand alaw_error_signed mulaw_error_signed show ?thesis by blast
qed

theorem companding_accuracy_witness:
  "sint (1000 :: u16) \<noteq> - 32768 \<and>
   32 * \<bar>sint (aLawDecompressTable ! unat (linearToALaw 1000)) - 1000\<bar> \<le> 1000"
proof -
  have s: "sint (1000 :: u16) = 1000" by simp
  from companding_accuracy [of 0 1000] show ?thesis unfolding s by simp
qed

subsection \<open>Buffers\<close>

datatype pcm_error = Err_Data_Too_Small

text \<open>\<open>int16(lo) | int16(hi)<<8\<close>.\<close>

definition pcm16 :: "u8 \<Rightarrow> u8 \<Rightarrow> u16" where
  "pcm16 lo hi = ucast lo OR push_bit 8 (ucast hi)"

text \<open>
  The compression loop, the same in \<open>LinearToMuLaw\<close> and \<open>LinearToALaw\<close>: \<open>samples[i+1]\<close> is
  read without a check, so an odd number of bytes panics.
\<close>

function compress_loop :: "(u16 \<Rightarrow> u8) \<Rightarrow> bytes \<Rightarrow> nat \<Rightarrow> bytes \<Rightarrow> (pcm_error, bytes) res" where
  "compress_loop enc samples i out =
     (if i < length samples then
        (if i + 1 < length samples then
           compress_loop enc samples (i + 2) (out[i div 2 := enc (pcm16 (samples ! i) (samples ! (i + 1)))])
         else Panic Index_Out_Of_Range)
      else Ok out)"
  by pat_completeness auto
termination
  by (relation "measure (\<lambda>(enc, samples, i, out). length samples - i)") auto

declare compress_loop.simps [simp del]

definition LinearToMuLaw :: "bytes \<Rightarrow> bytes \<Rightarrow> (pcm_error, bytes) res" where
  "LinearToMuLaw samples mulaws =
     (if length samples > 2 * length mulaws then Err Err_Data_Too_Small
      else compress_loop linearToMuLaw samples 0 mulaws)"

definition LinearToALaw :: "bytes \<Rightarrow> bytes \<Rightarrow> (pcm_error, bytes) res" where
  "LinearToALaw samples alaws =
     (if length samples > 2 * length alaws then Err Err_Data_Too_Small
      else compress_loop linearToALaw samples 0 alaws)"

fun expand_loop :: "u16 list \<Rightarrow> bytes \<Rightarrow> nat \<Rightarrow> bytes \<Rightarrow> bytes" where
  "expand_loop table [] i pcms = pcms"
| "expand_loop table (b # bs) i pcms =
     (let pcm = table ! unat b
      in expand_loop table bs (i + 1)
           (pcms[2 * i := lo8 pcm, 2 * i + 1 := lo8 (signed_drop_bit 8 pcm)]))"

definition MuLawToLiner :: "bytes \<Rightarrow> bytes \<Rightarrow> (pcm_error, bytes) res" where
  "MuLawToLiner mulaws pcms =
     (if length pcms < 2 * length mulaws then Err Err_Data_Too_Small
      else Ok (expand_loop muLawDecompressTable mulaws 0 pcms))"

definition ALawToLiner :: "bytes \<Rightarrow> bytes \<Rightarrow> (pcm_error, bytes) res" where
  "ALawToLiner alaws pcms =
     (if length pcms < 2 * length alaws then Err Err_Data_Too_Small
      else Ok (expand_loop aLawDecompressTable alaws 0 pcms))"

text \<open>The samples a little-endian buffer holds, and the buffer of a list of samples.\<close>

fun pcm_words :: "bytes \<Rightarrow> u16 list" where
  "pcm_words (lo # hi # bs) = pcm16 lo hi # pcm_words bs"
| "pcm_words bs = []"

definition pcm_bytes :: "u16 list \<Rightarrow> bytes" where
  "pcm_bytes ws = concat (map (\<lambda>w. [lo8 w, hi8 w]) ws)"

lemma pcm16_be16: "pcm16 lo hi = be16 hi lo"
  by (simp add: pcm16_def be16_def or.commute)

lemma pcm_words_bytes: "pcm_words (pcm_bytes ws) = ws"
  by (induction ws) (simp_all add: pcm_bytes_def pcm16_be16)

lemma length_pcm_bytes [simp]: "length (pcm_bytes ws) = 2 * length ws"
  by (induction ws) (simp_all add: pcm_bytes_def)

lemma length_pcm_words: "length (pcm_words bs) = length bs div 2"
  by (induction bs rule: pcm_words.induct) simp_all

lemma drop_two: "i + 1 < length xs \<Longrightarrow> drop i xs = xs ! i # xs ! (i + 1) # drop (i + 2) xs"
  by (simp add: Cons_nth_drop_Suc)

lemma compress_loop_eq:
  "even i \<Longrightarrow> i \<le> length samples \<Longrightarrow> length samples \<le> 2 * length out \<Longrightarrow>
   compress_loop enc samples i out =
     (if even (length samples)
      then Ok (take (i div 2) out @ map enc (pcm_words (drop i samples)) @ drop (length samples div 2) out)
      else Panic Index_Out_Of_Range)"
proof (induction enc samples i out rule: compress_loop.induct)
  case (1 enc samples i out)
  show ?case
  proof (cases "i + 1 < length samples")
    case True
    let ?w = "pcm16 (samples ! i) (samples ! (i + 1))"
    let ?out = "out[i div 2 := enc ?w]"
    from True "1.prems" have lt: "i div 2 < length out" by linarith
    have step: "compress_loop enc samples i out = compress_loop enc samples (i + 2) ?out"
      using True by (simp add: compress_loop.simps [of enc samples i])
    have "take ((i + 2) div 2) ?out = take (i div 2) out @ [enc ?w]"
      using lt by (simp add: take_Suc_conv_app_nth)
    moreover have "drop (length samples div 2) ?out = drop (length samples div 2) out"
      using True by simp
    moreover have "pcm_words (drop i samples) = ?w # pcm_words (drop (i + 2) samples)"
      using drop_two [OF True] by simp
    moreover have "compress_loop enc samples (i + 2) ?out =
       (if even (length samples)
        then Ok (take ((i + 2) div 2) ?out @ map enc (pcm_words (drop (i + 2) samples))
                 @ drop (length samples div 2) ?out)
        else Panic Index_Out_Of_Range)"
      using True "1.prems" by (intro "1.IH") auto
    ultimately show ?thesis unfolding step by simp
  next
    case False
    show ?thesis
    proof (cases "i = length samples")
      case True
      with "1.prems" show ?thesis by (simp add: compress_loop.simps [of enc samples "length samples"])
    next
      case neq: False
      with False "1.prems" have "length samples = i + 1" by simp
      with "1.prems" show ?thesis by (simp add: compress_loop.simps [of enc samples i])
    qed
  qed
qed

lemma lo8_shifted: "lo8 (signed_drop_bit 8 w) = hi8 w"
  by (rule bit_word_eqI) (auto simp: hi8_def lo8_def bit_ucast_iff bit_signed_drop_bit_iff bit_drop_bit_eq)

lemma expand_loop_eq:
  "2 * (i + length bs) \<le> length pcms \<Longrightarrow>
   expand_loop table bs i pcms =
     take (2 * i) pcms @ pcm_bytes (map (\<lambda>b. table ! unat b) bs) @ drop (2 * (i + length bs)) pcms"
proof (induction table bs i pcms rule: expand_loop.induct)
  case (1 table i pcms)
  then show ?case by (simp add: pcm_bytes_def)
next
  case (2 table b bs i pcms)
  let ?w = "table ! unat b"
  let ?pcms = "pcms[2 * i := lo8 ?w, 2 * i + 1 := hi8 ?w]"
  from "2.prems" have lt: "Suc (2 * i) < length pcms" by simp
  have "take (2 * (i + 1)) ?pcms = take (2 * i) pcms @ [lo8 ?w, hi8 ?w]"
    using lt by (simp add: take_Suc_conv_app_nth nth_list_update)
  with 2 show ?case
    by (simp add: lo8_shifted pcm_bytes_def Let_def)
qed

text \<open>
  The compression of a buffer on every branch: an error when the output is too small, a panic
  for an odd number of bytes, and else the code of each sample in order with the rest of the
  output buffer untouched.
\<close>

lemma linear_to_law_outcome:
  "LinearToALaw samples out =
     (if length samples > 2 * length out then Err Err_Data_Too_Small
      else if odd (length samples) then Panic Index_Out_Of_Range
      else Ok (map linearToALaw (pcm_words samples) @ drop (length samples div 2) out))
   \<and> LinearToMuLaw samples out =
     (if length samples > 2 * length out then Err Err_Data_Too_Small
      else if odd (length samples) then Panic Index_Out_Of_Range
      else Ok (map linearToMuLaw (pcm_words samples) @ drop (length samples div 2) out))"
  by (simp add: LinearToALaw_def LinearToMuLaw_def compress_loop_eq)

text \<open>
  Expanding any buffer of codes into a PCM buffer of twice its length and compressing that
  again gives the codes back, for both laws.
\<close>

lemma law_buffer_roundtrip:
  assumes "length pcms = 2 * length codes" and "length out = length codes"
  shows "bind_res (ALawToLiner codes pcms) (\<lambda>pcm. LinearToALaw pcm out) = Ok codes
     \<and> bind_res (MuLawToLiner codes pcms) (\<lambda>pcm. LinearToMuLaw pcm out) = Ok codes"
proof -
  have "map (\<lambda>b. linearToALaw (aLawDecompressTable ! unat b)) codes = codes"
    "map (\<lambda>b. linearToMuLaw (muLawDecompressTable ! unat b)) codes = codes"
    by (simp_all add: linearToALaw_expand linearToMuLaw_expand)
  with assms show ?thesis
    by (simp add: ALawToLiner_def MuLawToLiner_def expand_loop_eq LinearToALaw_def LinearToMuLaw_def
        compress_loop_eq pcm_words_bytes comp_def)
qed

lemma law_buffer_roundtrip_witness:
  "bind_res (ALawToLiner [0xD5, 0x2A] [0, 0, 0, 0]) (\<lambda>pcm. LinearToALaw pcm [0, 0]) = Ok [0xD5, 0x2A]"
  using law_buffer_roundtrip [of "[0, 0, 0, 0]" "[0xD5, 0x2A]" "[0, 0]"] by simp

end
