(* ===== verification/Randutils.thy ===== *)
theory Randutils
  imports Prelude
begin

section \<open>Random identifiers (\<open>pkg/randutils/rand.go\<close>)\<close>

text \<open>
  \<open>RandString\<close> cuts ten 6-bit pieces off a 63-bit random number, drops the pieces beyond the 52
  letters, and draws the next number when \<open>remain\<close> reaches zero. It makes the call ids (ten
  letters) and the tags (five) of the SIP messages.
\<close>

subsection \<open>The model\<close>

definition letterBytes :: string where
  "letterBytes = ''abcdefghijklmnopqrstuvwxyzABCDEFGHIJKLMNOPQRSTUVWXYZ''"

definition letterIdxBits :: nat where "letterIdxBits = 6"

definition letterIdxMask :: nat where "letterIdxMask = 2 ^ letterIdxBits - 1"

definition letterIdxMax :: nat where "letterIdxMax = 63 div letterIdxBits"

text \<open>
  The locked random source: its \<open>k\<close>-th call of \<open>Int63\<close> gives a number below \<open>2^63\<close>. Any
  sequence \<open>s\<close> may be the source.
\<close>

definition Int63 :: "(nat \<Rightarrow> nat) \<Rightarrow> nat \<Rightarrow> nat" where
  "Int63 s k = s k mod 9223372036854775808"

text \<open>
  The loop of \<open>RandString\<close>: \<open>left\<close> is the source's \<open>i + 1\<close>, \<open>k\<close> counts the calls of
  \<open>Int63\<close>. Nothing in the source bounds the iterations: a random source whose pieces are
  all rejected keeps the loop running. So the model takes fuel, one unit for each piece, and
  \<open>RandString_correct\<close> says for every amount of it whether it is enough.
\<close>

fun rand_loop :: "nat \<Rightarrow> (nat \<Rightarrow> nat) \<Rightarrow> string \<Rightarrow> nat \<Rightarrow> nat \<Rightarrow> nat \<Rightarrow> nat \<Rightarrow> (string \<times> nat) option" where
  "rand_loop fuel s b 0 cache remain k = Some (b, k)"
| "rand_loop 0 s b (Suc i) cache remain k = None"
| "rand_loop (Suc fuel) s b (Suc i) cache remain k =
     (let (cache, remain, k) =
            (if remain = 0 then (Int63 s k, letterIdxMax, k + 1) else (cache, remain, k));
          idx = cache AND letterIdxMask
      in if idx < length letterBytes
         then rand_loop fuel s (b[i := letterBytes ! idx]) i (drop_bit letterIdxBits cache) (remain - 1) k
         else rand_loop fuel s b (Suc i) (drop_bit letterIdxBits cache) (remain - 1) k)"

definition RandString :: "nat \<Rightarrow> (nat \<Rightarrow> nat) \<Rightarrow> nat \<Rightarrow> nat \<Rightarrow> (string \<times> nat) option" where
  "RandString fuel s k n =
     rand_loop fuel s (replicate n (CHR 0x00)) n (Int63 s k) letterIdxMax (k + 1)"

subsection \<open>Pieces and letters\<close>

text \<open>
  The \<open>q\<close>-th piece that is looked at when the first call of \<open>Int63\<close> is the \<open>k\<close>-th, and the letters
  among the pieces from \<open>q\<close> up to \<open>m\<close>.
\<close>

definition piece :: "(nat \<Rightarrow> nat) \<Rightarrow> nat \<Rightarrow> nat \<Rightarrow> nat" where
  "piece s k q = Int63 s (k + q div 10) div 64 ^ (q mod 10) mod 64"

definition letters :: "(nat \<Rightarrow> nat) \<Rightarrow> nat \<Rightarrow> nat \<Rightarrow> nat \<Rightarrow> string" where
  "letters s k q m = map (\<lambda>j. letterBytes ! piece s k j) (filter (\<lambda>j. piece s k j < 52) [q..<m])"

lemma letterIdxMask_eq [simp]: "letterIdxMask = 63"
  by (simp add: letterIdxMask_def letterIdxBits_def)

lemma letterIdxMax_eq [simp]: "letterIdxMax = 10"
  by (simp add: letterIdxMax_def letterIdxBits_def)

lemma length_letterBytes [simp]: "length letterBytes = 52"
  by (simp add: letterBytes_def)

lemma and_63: "(c :: nat) AND 63 = c mod 64"
  using take_bit_eq_mask [of 6 c] by (simp add: mask_eq_exp_minus_1 take_bit_eq_mod)

lemma drop_6: "drop_bit letterIdxBits (c :: nat) = c div 64"
  by (simp add: letterIdxBits_def drop_bit_eq_div)

lemma letters_empty [simp]: "letters s k q q = []"
  by (simp add: letters_def)

lemma letters_first:
  "q < m \<Longrightarrow> letters s k q m =
     (if piece s k q < 52 then letterBytes ! piece s k q # letters s k (q + 1) m else letters s k (q + 1) m)"
  by (simp add: letters_def upt_conv_Cons)

lemma letters_last:
  "q \<le> m \<Longrightarrow> letters s k q (Suc m) =
     letters s k q m @ (if piece s k m < 52 then [letterBytes ! piece s k m] else [])"
  by (simp add: letters_def)

lemma letters_split: "q \<le> m \<Longrightarrow> m \<le> m' \<Longrightarrow> letters s k q m' = letters s k q m @ letters s k m m'"
  using upt_add_eq_append [of q m "m' - m"] by (simp add: letters_def)

lemma letters_only: "set (letters s k q m) \<subseteq> set letterBytes"
  by (auto simp: letters_def)

subsection \<open>The loop\<close>

lemma rand_loop_step:
  "rand_loop (Suc fuel) s b (Suc i) cache remain k =
     (let (cache, remain, k) = (if remain = 0 then (Int63 s k, 10, k + 1) else (cache, remain, k))
      in if cache mod 64 < 52
         then rand_loop fuel s (b[i := letterBytes ! (cache mod 64)]) i (cache div 64) (remain - 1) k
         else rand_loop fuel s b (Suc i) (cache div 64) (remain - 1) k)"
  by (simp add: Let_def and_63 drop_6)

declare rand_loop.simps(3) [simp del]

text \<open>
  Where the loop stands before its \<open>q\<close>-th piece: after ten pieces the cache is spent, otherwise it
  holds what is left of the current number.
\<close>

definition before_piece :: "(nat \<Rightarrow> nat) \<Rightarrow> nat \<Rightarrow> nat \<Rightarrow> nat \<Rightarrow> nat \<Rightarrow> nat \<Rightarrow> bool" where
  "before_piece s k q cache remain k' \<longleftrightarrow> k' = k + (q - 1) div 10 + 1
     \<and> (if q \<noteq> 0 \<and> q mod 10 = 0 then remain = 0
        else remain = 10 - q mod 10 \<and> cache = Int63 s (k + q div 10) div 64 ^ (q mod 10))"

lemma before_piece_0: "before_piece s k 0 (Int63 s k) 10 (k + 1)"
  by (simp add: before_piece_def)

lemma before_piece_next:
  assumes "before_piece s k q cache remain k'"
    and "(c, r, k1) = (if remain = 0 then (Int63 s k', 10, k' + 1) else (cache, remain, k'))"
  shows "c mod 64 = piece s k q" "before_piece s k (q + 1) (c div 64) (r - 1) k1"
proof -
  have now: "c = Int63 s (k + q div 10) div 64 ^ (q mod 10) \<and> r = 10 - q mod 10 \<and> k1 = k + q div 10 + 1"
  proof (cases "q \<noteq> 0 \<and> q mod 10 = 0")
    case True
    then obtain d where "q = 10 * Suc d"
      by (metis mod_0_imp_dvd dvd_def mult_0_right not0_implies_Suc)
    then have d: "(q - 1) div 10 + 1 = q div 10" by simp
    have "k' = k + q div 10" "remain = 0"
      using True assms(1) by (simp_all add: before_piece_def d [symmetric])
    then show ?thesis using True assms(2) by simp
  next
    case False
    then have "(q - 1) div 10 = q div 10"
      by (cases q) (auto simp: mod_Suc div_Suc split: if_splits)
    moreover have "q mod 10 < 10" by simp
    ultimately show ?thesis using False assms by (auto simp: before_piece_def split: if_splits)
  qed
  then show "c mod 64 = piece s k q" by (simp add: piece_def)
  have "c div 64 = Int63 s (k + q div 10) div 64 ^ Suc (q mod 10)"
    using now by (simp only: power_Suc2 div_mult2_eq)
  then show "before_piece s k (q + 1) (c div 64) (r - 1) k1"
    using now by (auto simp: before_piece_def mod_Suc div_Suc)
qed

text \<open>The loop ends after piece \<open>m - 1\<close>, the one that gives the last letter.\<close>

definition ends_at :: "(nat \<Rightarrow> nat) \<Rightarrow> nat \<Rightarrow> nat \<Rightarrow> nat \<Rightarrow> nat \<Rightarrow> bool" where
  "ends_at s k q left m \<longleftrightarrow> q \<le> m \<and> length (letters s k q m) = left \<and> (m = q \<or> piece s k (m - 1) < 52)"

lemma ends_at_le: "ends_at s k q left m \<Longrightarrow> q \<le> m"
  by (simp add: ends_at_def)

lemma ends_at_0: "ends_at s k q 0 m \<longleftrightarrow> m = q"
proof
  assume m: "ends_at s k q 0 m"
  show "m = q"
  proof (rule ccontr)
    assume "m \<noteq> q"
    then obtain l where "m = Suc l" "q \<le> l" using m by (cases m) (auto simp: ends_at_def)
    then show False using m letters_last [of q l s k] by (simp add: ends_at_def split: if_splits)
  qed
qed (simp add: ends_at_def)

lemma ends_at_Suc:
  "ends_at s k q (Suc i) m \<longleftrightarrow>
     q < m \<and> ends_at s k (q + 1) (if piece s k q < 52 then i else Suc i) m"
proof (cases "q < m")
  case True
  then have "ends_at s k q (Suc i) m \<longleftrightarrow>
      length (letters s k (q + 1) m) = (if piece s k q < 52 then i else Suc i) \<and> piece s k (m - 1) < 52"
    by (simp add: ends_at_def letters_first)
  moreover have "m = q + 1 \<Longrightarrow> letters s k (q + 1) m = []" by simp
  ultimately show ?thesis using True by (auto simp: ends_at_def split: if_splits)
qed (auto simp: ends_at_def)

lemma rand_loop_ends:
  "before_piece s k q cache remain k' \<Longrightarrow> left \<le> length b \<Longrightarrow>
   rand_loop fuel s b left cache remain k' = Some (b', k'') \<longleftrightarrow>
     (\<exists>m. m \<le> q + fuel \<and> ends_at s k q left m
       \<and> b' = rev (letters s k q m) @ drop left b \<and> k'' = k + (m - 1) div 10 + 1)"
proof (induction fuel arbitrary: b left cache remain k' q)
  case 0
  then show ?case
    by (cases left) (auto simp: ends_at_0 ends_at_Suc before_piece_def)
next
  case (Suc fuel)
  show ?case
  proof (cases left)
    case 0
    then show ?thesis using Suc.prems by (auto simp: ends_at_0 before_piece_def)
  next
    case (Suc i)
    obtain c r k1 where now: "(c, r, k1) = (if remain = 0 then (Int63 s k', 10, k' + 1) else (cache, remain, k'))"
      by (metis prod.exhaust)
    note nxt = before_piece_next [OF Suc.prems(1) now]
    let ?b = "b[i := letterBytes ! piece s k q]"
    have step: "rand_loop (Suc fuel) s b left cache remain k' =
        (if piece s k q < 52 then rand_loop fuel s ?b i (c div 64) (r - 1) k1
         else rand_loop fuel s b (Suc i) (c div 64) (r - 1) k1)"
      unfolding Suc rand_loop_step now [symmetric] by (simp add: nxt(1))
    have i: "i < length b" using Suc.prems(2) Suc by simp
    then have dr: "drop i ?b = letterBytes ! piece s k q # drop left b"
      by (simp add: Suc Cons_nth_drop_Suc [symmetric])
    have first: "q < m \<Longrightarrow> letters s k q m = (if piece s k q < 52 then [letterBytes ! piece s k q] else [])
        @ letters s k (q + 1) m" for m
      by (simp add: letters_first)
    have ends: "ends_at s k q left m \<longleftrightarrow> q < m \<and> ends_at s k (q + 1) (if piece s k q < 52 then i else left) m" for m
      unfolding Suc by (rule ends_at_Suc)
    show ?thesis
    proof (cases "piece s k q < 52")
      case True
      have "rand_loop (Suc fuel) s b left cache remain k' = Some (b', k'') \<longleftrightarrow>
          (\<exists>m. m \<le> q + 1 + fuel \<and> ends_at s k (q + 1) i m
            \<and> b' = rev (letters s k (q + 1) m) @ drop i ?b \<and> k'' = k + (m - 1) div 10 + 1)"
        unfolding step using Suc.IH [OF nxt(2), of i ?b] True i by simp
      also have "\<dots> \<longleftrightarrow> (\<exists>m. m \<le> q + Suc fuel \<and> ends_at s k q left m
            \<and> b' = rev (letters s k q m) @ drop left b \<and> k'' = k + (m - 1) div 10 + 1)"
        using True first by (intro ex_cong1) (auto simp: ends dr dest: ends_at_le)
      finally show ?thesis .
    next
      case False
      have "rand_loop (Suc fuel) s b left cache remain k' = Some (b', k'') \<longleftrightarrow>
          (\<exists>m. m \<le> q + 1 + fuel \<and> ends_at s k (q + 1) left m
            \<and> b' = rev (letters s k (q + 1) m) @ drop left b \<and> k'' = k + (m - 1) div 10 + 1)"
        unfolding step using Suc.IH [OF nxt(2), of left b] False Suc Suc.prems(2) by simp
      also have "\<dots> \<longleftrightarrow> (\<exists>m. m \<le> q + Suc fuel \<and> ends_at s k q left m
            \<and> b' = rev (letters s k q m) @ drop left b \<and> k'' = k + (m - 1) div 10 + 1)"
        using False first by (intro ex_cong1) (auto simp: ends dest: ends_at_le)
      finally show ?thesis .
    qed
  qed
qed

lemma RandString_ends:
  "RandString fuel s k n = Some (b, k') \<longleftrightarrow>
     (\<exists>m. m \<le> fuel \<and> ends_at s k 0 n m \<and> b = rev (letters s k 0 m) \<and> k' = k + (m - 1) div 10 + 1)"
  using rand_loop_ends [OF before_piece_0, of n "replicate n (CHR 0x00)" fuel s k b k']
  by (simp add: RandString_def)

lemma ends_at_least:
  "n \<le> length (letters s k 0 fuel) \<Longrightarrow> \<exists>m \<le> fuel. ends_at s k 0 n m"
proof (induction fuel)
  case 0
  then show ?case by (auto simp: ends_at_def)
next
  case (Suc fuel)
  show ?case
  proof (cases "n \<le> length (letters s k 0 fuel)")
    case True
    then show ?thesis using Suc.IH le_SucI by blast
  next
    case False
    then have "ends_at s k 0 n (Suc fuel)"
      using Suc.prems letters_last [of 0 fuel s k] by (auto simp: ends_at_def split: if_splits)
    then show ?thesis by blast
  qed
qed

lemma RandString_returns_iff: "RandString fuel s k n \<noteq> None \<longleftrightarrow> n \<le> length (letters s k 0 fuel)"
proof
  assume "n \<le> length (letters s k 0 fuel)"
  from ends_at_least [OF this] obtain m where "m \<le> fuel" "ends_at s k 0 n m" by blast
  then have "RandString fuel s k n = Some (rev (letters s k 0 m), k + (m - 1) div 10 + 1)"
    unfolding RandString_ends by blast
  then show "RandString fuel s k n \<noteq> None" by simp
next
  assume "RandString fuel s k n \<noteq> None"
  then obtain b k' where "RandString fuel s k n = Some (b, k')" by auto
  then obtain m where "m \<le> fuel" "ends_at s k 0 n m" unfolding RandString_ends by blast
  then show "n \<le> length (letters s k 0 fuel)"
    using letters_split [of 0 m fuel s k] by (simp add: ends_at_def)
qed

subsection \<open>Properties\<close>

text \<open>
  C26. What \<open>RandString\<close> returns, for every random source and every length. The 6-bit pieces of the
  numbers are looked at in order, ten of each number; the first \<open>n\<close> of them that are indices of
  letters are the letters of the string, from its end to its beginning, and the loop stops at the
  last of them, having drawn one number for every ten pieces begun. With fuel for \<open>fuel\<close> pieces it
  returns exactly when there are \<open>n\<close> letters among them: a source that keeps yielding other pieces
  keeps it running.
\<close>

theorem RandString_correct:
  "(RandString fuel s k n = Some (b, k') \<longleftrightarrow>
     (\<exists>m. m \<le> fuel \<and> letters s k 0 m = rev b \<and> length b = n \<and> (m = 0 \<or> piece s k (m - 1) < 52)
       \<and> k' = k + (m - 1) div 10 + 1))
   \<and> (RandString fuel s k n \<noteq> None \<longleftrightarrow> n \<le> length (letters s k 0 fuel))"
proof -
  have "ends_at s k 0 n m \<and> b = rev (letters s k 0 m) \<longleftrightarrow>
      letters s k 0 m = rev b \<and> length b = n \<and> (m = 0 \<or> piece s k (m - 1) < 52)" for m
    by (auto simp: ends_at_def)
  then have "RandString fuel s k n = Some (b, k') \<longleftrightarrow>
     (\<exists>m. m \<le> fuel \<and> letters s k 0 m = rev b \<and> length b = n \<and> (m = 0 \<or> piece s k (m - 1) < 52)
       \<and> k' = k + (m - 1) div 10 + 1)"
    unfolding RandString_ends by metis
  with RandString_returns_iff show ?thesis by blast
qed

text \<open>Two numbers, whose lowest pieces are rejected: twelve pieces are needed for ten letters.\<close>

theorem RandString_correct_witness:
  "RandString 12 (\<lambda>k. 64 * k + 55) 0 10 = Some (''baaaaaaaaa'', 2)
   \<and> RandString 11 (\<lambda>k. 64 * k + 55) 0 10 = None"
proof
  let ?s = "\<lambda>k. 64 * k + 55 :: nat"
  have "[0..<12] = [0, 1, 2, 3, 4, 5, 6, 7, 8, 9, 10, 11]" "[0..<11] = [0, 1, 2, 3, 4, 5, 6, 7, 8, 9, 10]"
    by code_simp+
  then have l12: "letters ?s 0 0 12 = ''aaaaaaaaab''" and l11: "length (letters ?s 0 0 11) = 9"
    by (simp_all add: letters_def piece_def Int63_def letterBytes_def)
  have "piece ?s 0 11 < 52" by (simp add: piece_def Int63_def)
  with l12 have "\<exists>m \<le> 12. letters ?s 0 0 m = rev ''baaaaaaaaa'' \<and> length ''baaaaaaaaa'' = 10
      \<and> (m = 0 \<or> piece ?s 0 (m - 1) < 52) \<and> 2 = 0 + (m - 1) div 10 + 1"
    by (intro exI [of _ 12]) simp
  with RandString_correct [of 12 ?s 0 10 "''baaaaaaaaa''" 2]
  show "RandString 12 ?s 0 10 = Some (''baaaaaaaaa'', 2)" by blast
  show "RandString 11 ?s 0 10 = None"
    using RandString_correct [of 11 ?s 0 10, THEN conjunct2] l11 by (simp del: not_None_eq)
qed

text \<open>
  Termination: when each of \<open>n\<close> numbers has at least one piece that is the index of a letter, ten
  iterations for each letter are enough; when no piece ever is one, no fuel is.
\<close>

lemma letters_block:
  assumes "\<exists>j<10. piece s k (10 * d + j) < 52"
  shows "1 \<le> length (letters s k (10 * d) (10 * d + 10))"
proof -
  from assms obtain j where j: "j < 10" "piece s k (10 * d + j) < 52" by blast
  then have "10 * d + j \<in> set (filter (\<lambda>j. piece s k j < 52) [10 * d..<10 * d + 10])" by simp
  then have "letters s k (10 * d) (10 * d + 10) \<noteq> []"
    unfolding letters_def by (metis list.map_disc_iff empty_iff list.set(1))
  then show ?thesis by (simp add: Suc_leI)
qed

lemma letters_blocks:
  "\<forall>d<n. \<exists>j<10. piece s k (10 * d + j) < 52 \<Longrightarrow> n \<le> length (letters s k 0 (10 * n))"
proof (induction n)
  case (Suc n)
  have "letters s k 0 (10 * Suc n) = letters s k 0 (10 * n) @ letters s k (10 * n) (10 * n + 10)"
    using letters_split [of 0 "10 * n" "10 * n + 10" s k] by (simp add: add.commute)
  moreover have "n \<le> length (letters s k 0 (10 * n))" using Suc by simp
  moreover have "1 \<le> length (letters s k (10 * n) (10 * n + 10))" using Suc.prems by (intro letters_block) simp
  ultimately show ?case by simp
qed simp

lemma RandString_returns:
  assumes "\<forall>d<n. \<exists>j<10. piece s k (10 * d + j) < 52" and "10 * n \<le> fuel"
  shows "\<exists>b k'. RandString fuel s k n = Some (b, k') \<and> length b = n \<and> set b \<subseteq> set letterBytes
    \<and> k' \<le> k + n + 1"
proof -
  from ends_at_least [OF letters_blocks [OF assms(1)]] obtain m where m: "m \<le> 10 * n" "ends_at s k 0 n m" by blast
  then have "RandString fuel s k n = Some (rev (letters s k 0 m), k + (m - 1) div 10 + 1)"
    using assms(2) unfolding RandString_ends by (intro exI [of _ m]) simp
  moreover have "(m - 1) div 10 \<le> n" using m(1) by (simp add: div_le_mono [of "m - 1" "10 * n" 10, simplified])
  ultimately show ?thesis using m(2) letters_only [of s k 0 m] by (simp add: ends_at_def)
qed

lemma RandString_starved:
  assumes "\<forall>q. 52 \<le> piece s k q" and "0 < n"
  shows "RandString fuel s k n = None"
proof -
  have "letters s k 0 fuel = []" using assms(1) by (simp add: letters_def linorder_not_less [symmetric])
  then show ?thesis using assms(2) RandString_returns_iff [of fuel s k n] by (simp del: not_None_eq)
qed

text \<open>The sources of both kinds exist.\<close>

lemma RandString_returns_witness:
  "\<exists>b k'. RandString 100 (\<lambda>k. 55) 0 10 = Some (b, k') \<and> length b = 10 \<and> set b \<subseteq> set letterBytes \<and> k' \<le> 11"
proof -
  have "piece (\<lambda>k. 55) 0 (10 * d + 1) < 52" for d
    by (simp add: piece_def Int63_def mod_Suc)
  then have "\<forall>d<10. \<exists>j<10. piece (\<lambda>k. 55) 0 (10 * d + j) < 52"
    by (intro allI impI exI [of _ 1]) simp
  then show ?thesis using RandString_returns [of 10 "\<lambda>k. 55" 0 100] by simp
qed

lemma RandString_starved_witness: "RandString fuel (\<lambda>k. 9223372036854775807) 0 10 = None"
proof -
  have "52 \<le> (9223372036854775807 :: nat) div 64 ^ j mod 64" if "j < 10" for j
  proof -
    from that have "j = 0 \<or> j = 1 \<or> j = 2 \<or> j = 3 \<or> j = 4 \<or> j = 5 \<or> j = 6 \<or> j = 7 \<or> j = 8 \<or> j = 9" by arith
    then show ?thesis by (elim disjE) simp_all
  qed
  then have "\<forall>q. 52 \<le> piece (\<lambda>k. 9223372036854775807) 0 q" by (simp add: piece_def Int63_def)
  then show ?thesis by (rule RandString_starved) simp
qed

end
