(* ===== verification/Rtp.thy ===== *)
theory Rtp
  imports Strconv Pcm
begin

section \<open>The media to be played (\<open>rtp/\<close>)\<close>

text \<open>
  \<open>LoadRTP\<close> turns the media argument of the program into the list of RTP packets that every
  call replays: a capture (\<open>LoadPcap\<close>), a file of 16-bit samples (\<open>LoadPCM\<close>) or a number of
  seconds of noise (\<open>WhiteNoise\<close>). Files and random numbers are arguments of the definitions:
  a file is the list of what its \<open>Read\<close> calls give, a capture its link type and packets, the
  noise a function of the packet and the sample index.
\<close>

subsection \<open>Packets\<close>

record Packet =
  ts :: int
  payload :: bytes

definition GetTs :: "Packet \<Rightarrow> int" where "GetTs p = ts p"

definition GetPayload :: "Packet \<Rightarrow> bytes" where "GetPayload p = payload p"

datatype rtp_error = Err_Open | Err_Read | Err_Link_Type | Err_Number num_error | Err_Pcm pcm_error

text \<open>
  The packet that one iteration of \<open>LoadPCM\<close> and of \<open>WhiteNoise\<close> builds: twelve header bytes
  in a fresh buffer of 172, and the samples compressed into the other 160.
\<close>

definition rtp_header :: "u16 \<Rightarrow> u32 \<Rightarrow> u32 \<Rightarrow> bytes" where
  "rtp_header sequence timestamp ssrc =
     put_be32 8 ssrc (put_be32 4 timestamp (put_be16 2 sequence ((replicate 172 0)[0 := 0x80, 1 := 8])))"

definition rtp_payload :: "u16 \<Rightarrow> u32 \<Rightarrow> u32 \<Rightarrow> bytes \<Rightarrow> (pcm_error, bytes) res" where
  "rtp_payload sequence timestamp ssrc pcmData =
     (let buf = rtp_header sequence timestamp ssrc
      in map_ok (\<lambda>audio. take 12 buf @ audio) (LinearToALaw pcmData (drop 12 buf)))"

subsection \<open>\<open>WhiteNoise\<close>\<close>

definition maxN :: int where "maxN = 28000"

definition minN :: int where "minN = -28000"

text \<open>
  \<open>draw i j\<close> is the number below \<open>maxN - minN\<close> that \<open>rand.IntN\<close> gives for sample \<open>j\<close> of
  packet \<open>i\<close>; the two bytes of the sample are its low sixteen bits.
\<close>

definition noise_sample :: "(nat \<Rightarrow> nat \<Rightarrow> nat) \<Rightarrow> nat \<Rightarrow> nat \<Rightarrow> int" where
  "noise_sample draw i j = int (draw i j mod nat (maxN - minN)) + minN"

definition noise_bytes :: "(nat \<Rightarrow> nat \<Rightarrow> nat) \<Rightarrow> nat \<Rightarrow> bytes" where
  "noise_bytes draw i =
     concat (map (\<lambda>j. [word_of_int (noise_sample draw i j), word_of_int (noise_sample draw i j div 256)])
       [0..<160])"

text \<open>
  The loop, from packet \<open>i\<close> on with \<open>todo\<close> packets to go; an error of \<open>LinearToALaw\<close> makes
  the function return nil.
\<close>

fun noise_loop ::
  "(nat \<Rightarrow> nat \<Rightarrow> nat) \<Rightarrow> u32 \<Rightarrow> nat \<Rightarrow> nat \<Rightarrow> u16 \<Rightarrow> u32 \<Rightarrow> int \<Rightarrow> Packet list \<Rightarrow> (unit, Packet list) res" where
  "noise_loop draw ssrc i 0 sequence timestamp t pkts = Ok pkts"
| "noise_loop draw ssrc i (Suc todo) sequence timestamp t pkts =
     (case rtp_payload (sequence + 1) (timestamp + 160) ssrc (noise_bytes draw i) of
        Ok buf \<Rightarrow> noise_loop draw ssrc (i + 1) todo (sequence + 1) (timestamp + 160) (t + 20000)
                    (pkts @ [\<lparr>ts = t, payload = buf\<rparr>])
      | Err e \<Rightarrow> Ok []
      | Panic p \<Rightarrow> Panic p)"

text \<open>
  \<open>duration*1000/20\<close> iterations, computed on 64 bits; Go's division truncates, so a negative
  product gives no iteration.
\<close>

definition noise_count :: "int \<Rightarrow> nat" where
  "noise_count duration =
     (let n = wrap64 (duration * 1000) in if n \<le> 0 then 0 else nat (n div 20))"

definition WhiteNoise :: "(nat \<Rightarrow> nat \<Rightarrow> nat) \<Rightarrow> u32 \<Rightarrow> int \<Rightarrow> (unit, Packet list) res" where
  "WhiteNoise draw ssrc duration = noise_loop draw ssrc 0 (noise_count duration) 0 100 0 []"

subsection \<open>\<open>LoadPCM\<close>\<close>

text \<open>
  What \<open>f.Read\<close> of at most 320 bytes gives: bytes, the end of the file, or an error. A list of
  them is what the successive calls see; past its end the file has ended.
\<close>

datatype read_result = Read_Data bytes | Read_EOF | Read_Failed

fun pcm_loop ::
  "u32 \<Rightarrow> read_result list \<Rightarrow> u16 \<Rightarrow> u32 \<Rightarrow> int \<Rightarrow> Packet list \<Rightarrow> (rtp_error, Packet list) res" where
  "pcm_loop ssrc [] sequence timestamp t pkts = Ok pkts"
| "pcm_loop ssrc (Read_EOF # rs) sequence timestamp t pkts = Ok pkts"
| "pcm_loop ssrc (Read_Failed # rs) sequence timestamp t pkts = Err Err_Read"
| "pcm_loop ssrc (Read_Data d # rs) sequence timestamp t pkts =
     (if length d \<noteq> 320 then Ok pkts
      else case rtp_payload (sequence + 1) (timestamp + 160) ssrc d of
        Ok buf \<Rightarrow> pcm_loop ssrc rs (sequence + 1) (timestamp + 160) (t + 20000)
                    (pkts @ [\<lparr>ts = t, payload = buf\<rparr>])
      | Err e \<Rightarrow> Err (Err_Pcm e)
      | Panic p \<Rightarrow> Panic p)"

definition LoadPCM :: "u32 \<Rightarrow> read_result list option \<Rightarrow> (rtp_error, Packet list) res" where
  "LoadPCM ssrc file =
     (case file of None \<Rightarrow> Err Err_Open | Some rs \<Rightarrow> pcm_loop ssrc rs 0 100 0 [])"

text \<open>The reads of an undisturbed regular file with the given contents.\<close>

function file_reads :: "bytes \<Rightarrow> read_result list" where
  "file_reads bs = (if bs = [] then [Read_EOF] else Read_Data (take 320 bs) # file_reads (drop 320 bs))"
  by pat_completeness auto
termination by (relation "measure length") auto

declare file_reads.simps [simp del]

subsection \<open>\<open>LoadPcap\<close>\<close>

datatype link_type = LinkTypeLinuxSLL | LinkTypeLinuxSLL2 | LinkTypeEthernet | LinkTypeOther nat

fun link_offset :: "link_type \<Rightarrow> nat option" where
  "link_offset LinkTypeLinuxSLL = Some 2"
| "link_offset LinkTypeLinuxSLL2 = Some 6"
| "link_offset LinkTypeEthernet = Some 0"
| "link_offset (LinkTypeOther n) = None"

text \<open>A captured packet is its time in microseconds and its bytes; \<open>Data()[42+offset:]\<close> panics
  on a packet shorter than the headers.\<close>

fun pcap_packets :: "nat \<Rightarrow> (int \<times> bytes) list \<Rightarrow> Packet list \<Rightarrow> (rtp_error, Packet list) res" where
  "pcap_packets offset [] pkts = Ok pkts"
| "pcap_packets offset ((t, d) # cap) pkts =
     (if length d < 42 + offset then Panic Slice_Bounds
      else pcap_packets offset cap (pkts @ [\<lparr>ts = t, payload = drop (42 + offset) d\<rparr>]))"

definition LoadPcap :: "(link_type \<times> (int \<times> bytes) list) option \<Rightarrow> (rtp_error, Packet list) res" where
  "LoadPcap capture =
     (case capture of
        None \<Rightarrow> Err Err_Open
      | Some (link, cap) \<Rightarrow>
          (case link_offset link of
             None \<Rightarrow> Err Err_Link_Type
           | Some offset \<Rightarrow> pcap_packets offset cap []))"

subsection \<open>\<open>LoadRTP\<close>\<close>

text \<open>\<open>path.Ext\<close>: from the last dot of the last path element on.\<close>

fun ext_rev :: "string \<Rightarrow> string \<Rightarrow> string" where
  "ext_rev acc [] = []"
| "ext_rev acc (c # cs) =
     (if c = CHR ''.'' then c # acc else if c = CHR ''/'' then [] else ext_rev (c # acc) cs)"

definition path_ext :: "string \<Rightarrow> string" where
  "path_ext name = ext_rev [] (rev name)"

definition LoadRTP ::
  "(string \<Rightarrow> read_result list option) \<Rightarrow> (string \<Rightarrow> (link_type \<times> (int \<times> bytes) list) option) \<Rightarrow>
   (nat \<Rightarrow> nat \<Rightarrow> nat) \<Rightarrow> u32 \<Rightarrow> string \<Rightarrow> (rtp_error, Packet list) res" where
  "LoadRTP open_file open_capture draw ssrc name =
     (let ext = path_ext name
      in if ext = ''.pcm'' then LoadPCM ssrc (open_file name)
         else if ext = ''.pcap'' then LoadPcap (open_capture name)
         else case parse_int name of
           Ok duration \<Rightarrow> no_err Err_Read (WhiteNoise draw ssrc duration)
         | Err e \<Rightarrow> Err (Err_Number e)
         | Panic p \<Rightarrow> Panic p)"

subsection \<open>One packet\<close>

text \<open>What a receiver reads off packet \<open>k\<close> of a stream made of the given samples.\<close>

definition rtp_packet :: "u32 \<Rightarrow> nat \<Rightarrow> u16 list \<Rightarrow> Packet \<Rightarrow> bool" where
  "rtp_packet ssrc k samples p \<longleftrightarrow>
     ts p = 20000 * int k \<and> length (payload p) = 172 \<and> payload p ! 0 = 0x80 \<and> payload p ! 1 = 8
     \<and> get_be16 2 (payload p) = word_of_nat (k + 1)
     \<and> get_be32 4 (payload p) = word_of_nat (100 + 160 * (k + 1))
     \<and> get_be32 8 (payload p) = ssrc \<and> drop 12 (payload p) = map linearToALaw samples"

lemma length_rtp_header [simp]: "length (rtp_header s t c) = 172"
  by (simp add: rtp_header_def)

lemma rtp_payload_eq:
  "length d = 320 \<Longrightarrow>
   rtp_payload s t c d = Ok (take 12 (rtp_header s t c) @ map linearToALaw (pcm_words d))"
  by (simp add: rtp_payload_def Let_def LinearToALaw_def compress_loop_eq)

lemma rtp_header_fields:
  "rtp_header s t c ! 0 = 0x80" "rtp_header s t c ! Suc 0 = 8" "get_be16 2 (rtp_header s t c) = s"
  "get_be32 4 (rtp_header s t c) = t" "get_be32 8 (rtp_header s t c) = c"
proof -
  have n: "rtp_header s t c ! i = put_be32 4 t (put_be16 2 s ((replicate 172 0)[0 := 0x80, 1 := 8])) ! i"
    if "i < 8" for i
    using that by (simp add: rtp_header_def nth_put_be32)
  show "rtp_header s t c ! 0 = 0x80" "rtp_header s t c ! Suc 0 = 8"
    by (simp_all add: n nth_put_be32 nth_put_be16)
  show "get_be16 2 (rtp_header s t c) = s"
    by (simp add: get_be16_def n nth_put_be32 nth_put_be16)
  show "get_be32 4 (rtp_header s t c) = t"
    using get_put_be32 [of 4 "put_be16 2 s ((replicate 172 0)[0 := 0x80, 1 := 8])" t]
    by (simp add: get_be32_def n)
  show "get_be32 8 (rtp_header s t c) = c"
    by (simp add: rtp_header_def)
qed

lemma header_fields_kept:
  assumes "length h = 172"
  shows "(take 12 h @ x) ! 0 = h ! 0" "(take 12 h @ x) ! 1 = h ! 1"
    "get_be16 2 (take 12 h @ x) = get_be16 2 h" "get_be32 4 (take 12 h @ x) = get_be32 4 h"
    "get_be32 8 (take 12 h @ x) = get_be32 8 h"
  using assms by (simp_all add: get_be16_def get_be32_def nth_append)

lemma rtp_packet_made:
  assumes "length d = 320"
  shows "\<exists>buf. rtp_payload (word_of_nat k + 1) (word_of_nat (100 + 160 * k) + 160) ssrc d = Ok buf
    \<and> rtp_packet ssrc k (pcm_words d) \<lparr>ts = 20000 * int k, payload = buf\<rparr>"
proof -
  let ?h = "rtp_header (word_of_nat k + 1) (word_of_nat (100 + 160 * k) + 160) ssrc"
  let ?buf = "take 12 ?h @ map linearToALaw (pcm_words d)"
  have "rtp_packet ssrc k (pcm_words d) \<lparr>ts = 20000 * int k, payload = ?buf\<rparr>"
    unfolding rtp_packet_def
    using assms
    by (simp add: header_fields_kept [simplified] rtp_header_fields length_pcm_words)
  then show ?thesis using rtp_payload_eq [OF assms] by blast
qed

text \<open>A stream: packet \<open>k\<close> carries the samples \<open>f k\<close>.\<close>

definition rtp_stream :: "u32 \<Rightarrow> (nat \<Rightarrow> u16 list) \<Rightarrow> Packet list \<Rightarrow> bool" where
  "rtp_stream ssrc f pkts \<longleftrightarrow> (\<forall>k < length pkts. rtp_packet ssrc k (f k) (pkts ! k))"

lemma rtp_stream_Nil [simp]: "rtp_stream ssrc f []"
  by (simp add: rtp_stream_def)

lemma rtp_stream_snoc:
  "rtp_stream ssrc f pkts \<Longrightarrow> rtp_packet ssrc (length pkts) (f (length pkts)) p \<Longrightarrow>
   rtp_stream ssrc f (pkts @ [p])"
  by (auto simp: rtp_stream_def nth_append less_Suc_eq)

subsection \<open>The streams that are made\<close>

lemma pcm_loop_spec:
  "rtp_stream ssrc f pkts \<Longrightarrow> (\<And>k. length pkts \<le> k \<Longrightarrow> f k = pcm_words (take 320 (drop (320 * (k - length pkts)) bs))) \<Longrightarrow>
   \<exists>out. pcm_loop ssrc (file_reads bs) (word_of_nat (length pkts)) (word_of_nat (100 + 160 * length pkts))
            (20000 * int (length pkts)) pkts = Ok out
     \<and> length out = length pkts + length bs div 320 \<and> rtp_stream ssrc f out"
proof (induction bs arbitrary: pkts rule: file_reads.induct)
  case (1 bs)
  let ?k = "length pkts"
  consider "bs = []" | "bs \<noteq> []" "length bs < 320" | "320 \<le> length bs" by fastforce
  then show ?case
  proof cases
    case 3
    then have reads: "file_reads bs = Read_Data (take 320 bs) # file_reads (drop 320 bs)"
      by (subst file_reads.simps) auto
    obtain buf where buf:
        "rtp_payload (word_of_nat ?k + 1) (word_of_nat (100 + 160 * ?k) + 160) ssrc (take 320 bs) = Ok buf"
        "rtp_packet ssrc ?k (pcm_words (take 320 bs)) \<lparr>ts = 20000 * int ?k, payload = buf\<rparr>"
      using rtp_packet_made [of "take 320 bs" ?k ssrc] 3 by auto
    let ?pkts = "pkts @ [\<lparr>ts = 20000 * int ?k, payload = buf\<rparr>]"
    have stream: "rtp_stream ssrc f ?pkts"
      using "1.prems" buf(2) by (intro rtp_stream_snoc) simp_all
    have f: "f k = pcm_words (take 320 (drop (320 * (k - length ?pkts)) (drop 320 bs)))"
      if "length ?pkts \<le> k" for k
    proof -
      have "320 * (k - length ?pkts) + 320 = 320 * (k - ?k)" using that by simp
      then show ?thesis using "1.prems"(2) [of k] that by (simp add: add.commute)
    qed
    obtain out where out: "pcm_loop ssrc (file_reads (drop 320 bs)) (word_of_nat (length ?pkts))
          (word_of_nat (100 + 160 * length ?pkts)) (20000 * int (length ?pkts)) ?pkts = Ok out"
        "length out = length ?pkts + length (drop 320 bs) div 320" "rtp_stream ssrc f out"
      using "1.IH" [OF _ stream f] 3 by (metis list.size(3) not_numeral_le_zero)
    have "length bs div 320 = Suc ((length bs - 320) div 320)"
      using 3 by (simp add: le_div_geq)
    with out buf(1) 3 show ?thesis
      by (intro exI [of _ out]) (simp add: reads ac_simps)
  next
    case 1
    have "file_reads [] = [Read_EOF]" by (subst file_reads.simps) simp
    with 1 "1.prems"(1) show ?thesis by simp
  next
    case 2
    then have "file_reads bs = Read_Data bs # file_reads []" by (subst file_reads.simps) simp
    with 2 "1.prems"(1) show ?thesis by simp
  qed
qed

lemma LoadPCM_stream:
  "\<exists>pkts. LoadPCM ssrc (Some (file_reads bs)) = Ok pkts \<and> length pkts = length bs div 320
     \<and> rtp_stream ssrc (\<lambda>k. pcm_words (take 320 (drop (320 * k) bs))) pkts"
  using pcm_loop_spec [of ssrc _ "[]" bs] by (simp add: LoadPCM_def)

text \<open>The bytes of a noise packet are the drawn numbers again.\<close>

lemma pcm_words_pairs:
  "pcm_words (concat (map (\<lambda>j. [lo j, hi j]) js)) = map (\<lambda>j. be16 (hi j) (lo j)) js"
  by (induction js) (simp_all add: pcm16_be16)

lemma be16_of_int: "be16 (word_of_int (n div 256)) (word_of_int n) = word_of_int n"
proof -
  have "hi8 (word_of_int n) = word_of_int (n div 256)"
    by (rule bit_word_eqI)
      (auto simp: hi8_def bit_ucast_iff bit_drop_bit_eq bit_word_of_int_iff
        simp flip: drop_bit_eq_div [of 8, simplified])
  moreover have "lo8 (word_of_int n) = word_of_int n"
    by (rule bit_word_eqI) (auto simp: lo8_def bit_ucast_iff bit_word_of_int_iff)
  ultimately show ?thesis by (metis be16_hi_lo)
qed

lemma noise_words: "pcm_words (noise_bytes draw i) = map (\<lambda>j. word_of_int (noise_sample draw i j)) [0..<160]"
  by (simp add: noise_bytes_def pcm_words_pairs be16_of_int)

lemma length_noise_bytes: "length (noise_bytes draw i) = 320"
  by (simp add: noise_bytes_def length_concat comp_def sum_list_triv)

lemma noise_sample_range: "- 28000 \<le> noise_sample draw i j \<and> noise_sample draw i j < 28000"
proof -
  have "draw i j mod 56000 < 56000" by simp
  then have "int (draw i j mod 56000) < 56000" by linarith
  then show ?thesis by (simp add: noise_sample_def maxN_def minN_def)
qed

lemma noise_loop_spec:
  "rtp_stream ssrc (\<lambda>k. pcm_words (noise_bytes draw k)) pkts \<Longrightarrow>
   \<exists>out. noise_loop draw ssrc (length pkts) todo (word_of_nat (length pkts))
            (word_of_nat (100 + 160 * length pkts)) (20000 * int (length pkts)) pkts = Ok out
     \<and> length out = length pkts + todo \<and> rtp_stream ssrc (\<lambda>k. pcm_words (noise_bytes draw k)) out"
proof (induction todo arbitrary: pkts)
  case 0
  then show ?case by simp
next
  case (Suc todo)
  let ?k = "length pkts"
  obtain buf where buf:
      "rtp_payload (word_of_nat ?k + 1) (word_of_nat (100 + 160 * ?k) + 160) ssrc (noise_bytes draw ?k) = Ok buf"
      "rtp_packet ssrc ?k (pcm_words (noise_bytes draw ?k)) \<lparr>ts = 20000 * int ?k, payload = buf\<rparr>"
    using rtp_packet_made [OF length_noise_bytes] by blast
  let ?pkts = "pkts @ [\<lparr>ts = 20000 * int ?k, payload = buf\<rparr>]"
  have "rtp_stream ssrc (\<lambda>k. pcm_words (noise_bytes draw k)) ?pkts"
    using Suc.prems buf(2) by (intro rtp_stream_snoc) simp_all
  from Suc.IH [OF this] buf(1) show ?case by (auto simp: ac_simps)
qed

lemma WhiteNoise_stream:
  "\<exists>pkts. WhiteNoise draw ssrc duration = Ok pkts \<and> length pkts = noise_count duration
     \<and> rtp_stream ssrc (\<lambda>k. pcm_words (noise_bytes draw k)) pkts"
  using noise_loop_spec [of ssrc draw "[]" "noise_count duration"] by (simp add: WhiteNoise_def)

lemma noise_count_seconds:
  assumes "0 \<le> d" "d \<le> 9223372036854775"
  shows "noise_count d = 50 * nat d"
proof -
  have "in_int64 (d * 1000)" using assms by (simp add: in_int64_def)
  moreover have "d * 1000 div 20 = 50 * d" by simp
  ultimately show ?thesis using assms by (simp add: noise_count_def Let_def nat_mult_distrib)
qed

subsection \<open>Names\<close>

lemma ext_rev_none: "CHR ''.'' \<notin> set s \<Longrightarrow> ext_rev acc s = []"
  by (induction s arbitrary: acc) auto

lemma path_ext_none: "CHR ''.'' \<notin> set name \<Longrightarrow> path_ext name = []"
  by (simp add: path_ext_def ext_rev_none)

lemma path_ext_show_int: "path_ext (show_int d) = []"
  by (intro path_ext_none) (auto simp: show_int_def show_nat_not_in)

lemma path_ext_pcm: "path_ext (base @ ''.pcm'') = ''.pcm''"
  by (simp add: path_ext_def)

lemma path_ext_pcap: "path_ext (base @ ''.pcap'') = ''.pcap''"
  by (simp add: path_ext_def)

lemma pcap_packets_eq:
  "pcap_packets offset cap pkts =
     (if list_all (\<lambda>(t, d). 42 + offset \<le> length d) cap
      then Ok (pkts @ map (\<lambda>(t, d). \<lparr>ts = t, payload = drop (42 + offset) d\<rparr>) cap)
      else Panic Slice_Bounds)"
  by (induction offset cap pkts rule: pcap_packets.induct) auto

subsection \<open>Properties\<close>

text \<open>
  C27. Playing a file of samples: \<open>LoadRTP\<close> of a \<open>.pcm\<close> name cuts the file into packets of
  160 samples, an incomplete last packet being dropped; packet \<open>k\<close> is due at \<open>20 k\<close>
  milliseconds, is 172 bytes long, has the RTP header with version 2, payload type 8 (PCMA), the
  sequence number \<open>k + 1\<close> and the timestamp \<open>100 + 160 (k + 1)\<close> at their widths, the one
  random SSRC, and the A-law codes of the samples. A file that cannot be opened is an error.
\<close>

theorem LoadRTP_pcm:
  assumes "open_file (base @ ''.pcm'') = Some (file_reads bs)"
  shows "\<exists>pkts. LoadRTP open_file open_capture draw ssrc (base @ ''.pcm'') = Ok pkts
    \<and> length pkts = length bs div 320
    \<and> (\<forall>k < length bs div 320.
         rtp_packet ssrc k (pcm_words (take 320 (drop (320 * k) bs))) (pkts ! k))"
proof -
  obtain pkts where "LoadPCM ssrc (Some (file_reads bs)) = Ok pkts" "length pkts = length bs div 320"
      "rtp_stream ssrc (\<lambda>k. pcm_words (take 320 (drop (320 * k) bs))) pkts"
    using LoadPCM_stream by blast
  then show ?thesis using assms by (simp add: LoadRTP_def path_ext_pcm rtp_stream_def)
qed

theorem LoadRTP_pcm_witness:
  "\<exists>pkts. LoadRTP (\<lambda>name. Some (file_reads (replicate 330 7))) (\<lambda>name. None) (\<lambda>i j. 0) 5 (''a'' @ ''.pcm'') = Ok pkts
    \<and> length pkts = 1 \<and> rtp_packet 5 0 (pcm_words (replicate 320 7)) (pkts ! 0)"
  using LoadRTP_pcm [of "\<lambda>name. Some (file_reads (replicate 330 7))" "''a''" "replicate 330 7"
    "\<lambda>name. None" "\<lambda>i j. 0" 5]
  by auto

text \<open>
  Playing noise: \<open>LoadRTP\<close> of a decimal number of seconds makes fifty packets a second, no
  packet for zero or a negative number, whatever the random numbers are; their headers are as for
  a file, and the samples decode from the 16-bit numbers drawn between -28000 and 28000, bytes
  swapped and masked as the loop does it.
\<close>

lemma LoadRTP_noise:
  assumes "d \<le> 9223372036854775" "- 9223372036854775 \<le> d"
  shows "\<exists>pkts. LoadRTP open_file open_capture draw ssrc (show_int d) = Ok pkts
    \<and> length pkts = nat (50 * d)
    \<and> (\<forall>k < nat (50 * d). rtp_packet ssrc k
         (map (\<lambda>j. word_of_int (noise_sample draw k j)) [0..<160]) (pkts ! k))
    \<and> (\<forall>k j. - 28000 \<le> noise_sample draw k j \<and> noise_sample draw k j < 28000)"
proof -
  have parsed: "parse_int (show_int d) = Ok d"
    using assms by (intro parse_int_show_int) (simp add: in_int64_def)
  have count: "noise_count d = nat (50 * d)"
  proof (cases "0 \<le> d")
    case True
    then show ?thesis using noise_count_seconds assms by (simp add: nat_mult_distrib)
  next
    case False
    then have "in_int64 (d * 1000)" using assms by (simp add: in_int64_def)
    then show ?thesis using False by (simp add: noise_count_def Let_def)
  qed
  obtain pkts where "WhiteNoise draw ssrc d = Ok pkts" "length pkts = noise_count d"
      "rtp_stream ssrc (\<lambda>k. pcm_words (noise_bytes draw k)) pkts"
    using WhiteNoise_stream by blast
  then show ?thesis
    using parsed count noise_sample_range
    by (simp add: LoadRTP_def path_ext_show_int rtp_stream_def noise_words)
qed

lemma LoadRTP_noise_witness:
  "\<exists>pkts. LoadRTP (\<lambda>name. None) (\<lambda>name. None) (\<lambda>i j. i + j) 9 (show_int 1) = Ok pkts \<and> length pkts = 50"
  using LoadRTP_noise [of 1 "\<lambda>name. None" "\<lambda>name. None" "\<lambda>i j. i + j" 9] by auto

text \<open>
  Playing a capture, on every branch: an unreadable capture and an unknown link type are
  errors; otherwise the packets are the captured ones in order with the 42 bytes of the Ethernet,
  IPv4 and UDP headers (two or six more for the cooked link types) cut off, and the first packet
  that is shorter than them panics.
\<close>

lemma LoadRTP_pcap:
  "LoadRTP open_file open_capture draw ssrc (base @ ''.pcap'') =
     (case open_capture (base @ ''.pcap'') of
        None \<Rightarrow> Err Err_Open
      | Some (LinkTypeOther n, cap) \<Rightarrow> Err Err_Link_Type
      | Some (link, cap) \<Rightarrow>
          (let skip = 42 + (if link = LinkTypeLinuxSLL then 2 else if link = LinkTypeLinuxSLL2 then 6 else 0)
           in if list_all (\<lambda>(t, d). skip \<le> length d) cap
              then Ok (map (\<lambda>(t, d). \<lparr>ts = t, payload = drop skip d\<rparr>) cap)
              else Panic Slice_Bounds))"
  by (auto simp: LoadRTP_def path_ext_pcap LoadPcap_def pcap_packets_eq
      split: option.split link_type.split)

end
