(* ===== verification/Net_Addr.thy ===== *)
theory Net_Addr
  imports Strconv
begin

section \<open>Addresses: the parts of the package \<open>net\<close> the program uses\<close>

text \<open>
  \<open>net.ParseIP\<close>, \<open>IP.To4\<close>, \<open>IP.String\<close>, \<open>net.CIDRMask\<close>, \<open>IPNet.Contains\<close> and
  \<open>net.ParseMAC\<close> of Go's standard library, with the facts the routing table, the ARP table and
  the media packets need: printing and parsing an address give it back, and a network contains
  an IPv4 address when their first bits agree. A \<open>net.IP\<close> is a list of bytes; nil and the
  empty slice are both \<open>[]\<close>.
\<close>

type_synonym ip = bytes
type_synonym mac = bytes

subsection \<open>IPv4 text\<close>

text \<open>
  One field of a dotted address: decimal, at most 255, no leading zero. \<open>ParseAddr\<close> wants exactly
  four of them.
\<close>

definition parse_octet :: "string \<Rightarrow> u8 option" where
  "parse_octet s =
     (if length s > 1 \<and> hd s = CHR ''0'' then None
      else case parse_uint s of
        Ok n \<Rightarrow> (if n \<le> 255 then Some (word_of_nat n) else None)
      | Err e \<Rightarrow> None
      | Panic p \<Rightarrow> None)"

fun parse_octets :: "string list \<Rightarrow> bytes option" where
  "parse_octets [] = Some []"
| "parse_octets (s # ss) =
     (case parse_octet s of
        None \<Rightarrow> None
      | Some b \<Rightarrow> map_option (\<lambda>bs. b # bs) (parse_octets ss))"

definition parse_ipv4 :: "string \<Rightarrow> ip option" where
  "parse_ipv4 s =
     (let ss = split_on (CHR ''.'') s in if length ss = 4 then parse_octets ss else None)"

subsection \<open>IPv6 text\<close>

definition hex_val :: "char \<Rightarrow> nat option" where
  "hex_val c =
     (let n = of_char c :: nat
      in if 48 \<le> n \<and> n \<le> 57 then Some (n - 48)
         else if 97 \<le> n \<and> n \<le> 102 then Some (n - 87)
         else if 65 \<le> n \<and> n \<le> 70 then Some (n - 55)
         else None)"

text \<open>
  A group: the longest run of hexadecimal digits, its value and the rest; more than four digits
  or none are an error.
\<close>

fun hex_run :: "nat \<Rightarrow> nat \<Rightarrow> string \<Rightarrow> nat \<times> nat \<times> string" where
  "hex_run k acc [] = (k, acc, [])"
| "hex_run k acc (c # cs) =
     (case hex_val c of Some d \<Rightarrow> hex_run (k + 1) (16 * acc + d) cs | None \<Rightarrow> (k, acc, c # cs))"

text \<open>
  The loop over the groups: \<open>bs\<close> are the bytes so far, \<open>ell\<close> the place of the ellipsis in
  them. An embedded IPv4 address ends it; it stands last or after an ellipsis. The result is the
  bytes, the ellipsis and the text that is left.
\<close>

fun ipv6_groups :: "nat \<Rightarrow> bytes \<Rightarrow> nat option \<Rightarrow> string \<Rightarrow> (bytes \<times> nat option \<times> string) option" where
  "ipv6_groups 0 bs ell s = Some (bs, ell, s)"
| "ipv6_groups (Suc fuel) bs ell s =
     (if length bs \<ge> 16 then Some (bs, ell, s)
      else case hex_run 0 0 s of
        (k, acc, rest) \<Rightarrow>
          (if k = 0 \<or> k > 4 then None
           else case rest of
             [] \<Rightarrow> Some (bs @ [word_of_nat (acc div 256), word_of_nat acc], ell, [])
           | c # rest' \<Rightarrow>
               (if c = CHR ''.'' then
                  (if (ell = None \<and> length bs \<noteq> 12) \<or> length bs + 4 > 16 then None
                   else map_option (\<lambda>v4. (bs @ v4, ell, [])) (parse_ipv4 s))
                else if c \<noteq> CHR '':'' \<or> rest' = [] then None
                else
                  (let bs' = bs @ [word_of_nat (acc div 256), word_of_nat acc]
                   in if hd rest' = CHR '':'' then
                        (if ell \<noteq> None then None
                         else if tl rest' = [] then Some (bs', Some (length bs'), [])
                         else ipv6_groups fuel bs' (Some (length bs')) (tl rest'))
                      else ipv6_groups fuel bs' ell rest'))))"

definition parse_ipv6 :: "string \<Rightarrow> ip option" where
  "parse_ipv6 s =
     (if CHR ''%'' \<in> set s then None
      else if s = ''::'' then Some (replicate 16 0)
      else
        (let lead = (take 2 s = ''::'')
         in case ipv6_groups 8 [] (if lead then Some 0 else None) (if lead then drop 2 s else s) of
           None \<Rightarrow> None
         | Some (bs, ell, rest) \<Rightarrow>
             (if rest \<noteq> [] then None
              else if length bs < 16 then
                (case ell of
                   None \<Rightarrow> None
                 | Some e \<Rightarrow> Some (take e bs @ replicate (16 - length bs) 0 @ drop e bs))
              else if ell \<noteq> None then None else Some bs)))"

text \<open>
  \<open>net.ParseIP\<close>: the first dot or colon decides the family, an IPv4 address comes back in its
  sixteen-byte form, text with a zone or that is no address gives nil.
\<close>

definition v4_in_v6 :: bytes where
  "v4_in_v6 = replicate 10 0 @ [255, 255]"

fun ip_family :: "string \<Rightarrow> char option" where
  "ip_family [] = None"
| "ip_family (c # cs) = (if c \<in> {CHR ''.'', CHR '':'', CHR ''%''} then Some c else ip_family cs)"

definition ParseIP :: "string \<Rightarrow> ip" where
  "ParseIP s =
     (case ip_family s of
        Some c \<Rightarrow>
          (if c = CHR ''.'' then (case parse_ipv4 s of Some v4 \<Rightarrow> v4_in_v6 @ v4 | None \<Rightarrow> [])
           else if c = CHR '':'' then (case parse_ipv6 s of Some v6 \<Rightarrow> v6 | None \<Rightarrow> [])
           else [])
      | None \<Rightarrow> [])"

definition To4 :: "ip \<Rightarrow> ip option" where
  "To4 a =
     (if length a = 4 then Some a
      else if length a = 16 \<and> take 12 a = v4_in_v6 then Some (drop 12 a)
      else None)"

subsection \<open>Printing\<close>

definition hex_char :: "nat \<Rightarrow> char" where
  "hex_char d = (if d < 10 then char_of (48 + d) else char_of (87 + d))"

definition show_hex8 :: "u8 \<Rightarrow> string" where
  "show_hex8 b = [hex_char (unat b div 16), hex_char (unat b mod 16)]"

text \<open>A group of an IPv6 address: hexadecimal without leading zeros.\<close>

definition show_hex16 :: "u8 \<Rightarrow> u8 \<Rightarrow> string" where
  "show_hex16 h l =
     (let ds = dropWhile (\<lambda>c. c = CHR ''0'') (show_hex8 h @ show_hex8 l)
      in if ds = [] then ''0'' else ds)"

text \<open>
  The first longest run of at least two zero groups becomes \<open>::\<close>: its start and end, counted in
  groups.
\<close>

fun zero_run :: "nat list \<Rightarrow> nat" where
  "zero_run (0 # gs) = Suc (zero_run gs)"
| "zero_run gs = 0"

definition longest_zero_run :: "nat list \<Rightarrow> (nat \<times> nat) option" where
  "longest_zero_run gs =
     foldl (\<lambda>best i.
        (let n = zero_run (drop i gs)
         in if n \<ge> 2 \<and> (case best of None \<Rightarrow> True | Some (a, b) \<Rightarrow> n > b - a) then Some (i, i + n) else best))
       None [0..<length gs]"

definition show_ipv6 :: "ip \<Rightarrow> string" where
  "show_ipv6 a =
     (let words = map (\<lambda>i. (a ! (2 * i), a ! (2 * i + 1))) [0..<8];
          gs = map (\<lambda>(h, l). 256 * unat h + unat l) words;
          show = (\<lambda>ws. join_with (CHR '':'') (map (\<lambda>(h, l). show_hex16 h l) ws))
      in case longest_zero_run gs of
           None \<Rightarrow> show words
         | Some (b, e) \<Rightarrow> show (take b words) @ ''::'' @ show (drop e words))"

definition show_ipv4 :: "ip \<Rightarrow> string" where
  "show_ipv4 a = join_with (CHR ''.'') (map (\<lambda>b. show_nat (unat b)) a)"

text \<open>\<open>IP.String\<close>.\<close>

definition ip_String :: "ip \<Rightarrow> string" where
  "ip_String a =
     (if a = [] then ''<nil>''
      else case To4 a of
        Some v4 \<Rightarrow> show_ipv4 v4
      | None \<Rightarrow> (if length a = 16 then show_ipv6 a else CHR ''?'' # concat (map show_hex8 a)))"

subsection \<open>Networks\<close>

record IPNet =
  net_IP :: ip
  net_Mask :: bytes

text \<open>\<open>net.CIDRMask\<close>: nil for a bad number of bits.\<close>

fun mask_byte :: "nat \<Rightarrow> u8" where
  "mask_byte n = (if n \<ge> 8 then 255 else NOT (drop_bit n 255))"

definition CIDRMask :: "nat \<Rightarrow> nat \<Rightarrow> bytes" where
  "CIDRMask ones bits =
     (if (bits \<noteq> 32 \<and> bits \<noteq> 128) \<or> ones > bits then []
      else map (\<lambda>i. mask_byte (ones - 8 * i)) [0..<bits div 8])"

definition networkNumberAndMask :: "IPNet \<Rightarrow> bytes \<times> bytes" where
  "networkNumberAndMask n =
     (case (case To4 (net_IP n) of Some a \<Rightarrow> Some a
            | None \<Rightarrow> if length (net_IP n) = 16 then Some (net_IP n) else None) of
        None \<Rightarrow> ([], [])
      | Some a \<Rightarrow>
          (if length (net_Mask n) = 4 then (if length a \<noteq> 4 then ([], []) else (a, net_Mask n))
           else if length (net_Mask n) = 16 then
             (if length a = 4 then (a, drop 12 (net_Mask n)) else (a, net_Mask n))
           else ([], [])))"

definition net_Contains :: "IPNet \<Rightarrow> ip \<Rightarrow> bool" where
  "net_Contains n a =
     (let (nn, m) = networkNumberAndMask n; a = (case To4 a of Some x \<Rightarrow> x | None \<Rightarrow> a)
      in length a = length nn \<and> list_all (\<lambda>i. nn ! i AND m ! i = a ! i AND m ! i) [0..<length a])"

subsection \<open>Hardware addresses\<close>

text \<open>\<open>xtoi2(s, e)\<close>: two hexadecimal digits, followed by \<open>e\<close> or by nothing.\<close>

definition xtoi2 :: "string \<Rightarrow> char \<Rightarrow> u8 option" where
  "xtoi2 s e =
     (if length s > 2 \<and> s ! 2 \<noteq> e then None
      else case s of
        a # b # _ \<Rightarrow>
          (case (hex_val a, hex_val b) of (Some x, Some y) \<Rightarrow> Some (word_of_nat (16 * x + y)) | _ \<Rightarrow> None)
      | _ \<Rightarrow> None)"

fun mac_bytes :: "nat \<Rightarrow> char \<Rightarrow> string \<Rightarrow> mac option" where
  "mac_bytes 0 sep s = Some []"
| "mac_bytes (Suc n) sep s =
     (case xtoi2 s sep of
        None \<Rightarrow> None
      | Some b \<Rightarrow> map_option (\<lambda>bs. b # bs) (mac_bytes n sep (drop 3 s)))"

fun mac_quads :: "nat \<Rightarrow> string \<Rightarrow> mac option" where
  "mac_quads 0 s = Some []"
| "mac_quads (Suc n) s =
     (case (xtoi2 (take 2 s) (CHR 0x00), xtoi2 (drop 2 s) (CHR ''.'')) of
        (Some a, Some b) \<Rightarrow> map_option (\<lambda>bs. a # b # bs) (mac_quads n (drop 5 s))
      | _ \<Rightarrow> None)"

definition ParseMAC :: "string \<Rightarrow> mac option" where
  "ParseMAC s =
     (if length s < 14 then None
      else if s ! 2 = CHR '':'' \<or> s ! 2 = CHR ''-'' then
        (let n = (length s + 1) div 3
         in if (length s + 1) mod 3 \<noteq> 0 \<or> n \<notin> {6, 8, 20} then None else mac_bytes n (s ! 2) s)
      else if s ! 4 = CHR ''.'' then
        (let n = 2 * (length s + 1) div 5
         in if (length s + 1) mod 5 \<noteq> 0 \<or> n \<notin> {6, 8, 20} then None else mac_quads (n div 2) s)
      else None)"

text \<open>\<open>HardwareAddr.String\<close>, the form in which the kernel prints addresses too.\<close>

definition show_mac :: "mac \<Rightarrow> string" where
  "show_mac m = join_with (CHR '':'') (map show_hex8 m)"

subsection \<open>Printed addresses parse\<close>

lemma hd_show_nat: "0 < n \<Longrightarrow> \<exists>d. 0 < d \<and> d < 10 \<and> hd (show_nat n) = digit_char d"
proof (induction n rule: show_nat.induct)
  case (1 n)
  show ?case
  proof (cases "n < 10")
    case True
    then have "show_nat n = [digit_char n]" by (subst show_nat.simps) simp
    with True "1.prems" show ?thesis by auto
  next
    case False
    then have "show_nat n = show_nat (n div 10) @ [digit_char (n mod 10)]"
      by (subst show_nat.simps) simp
    moreover have "\<exists>d. 0 < d \<and> d < 10 \<and> hd (show_nat (n div 10)) = digit_char d"
      using False by (intro "1.IH") auto
    ultimately show ?thesis by simp
  qed
qed

lemma parse_octet_show [simp]: "parse_octet (show_nat (unat (b :: u8))) = Some b"
proof -
  have "\<not> (length (show_nat (unat b)) > 1 \<and> hd (show_nat (unat b)) = CHR ''0'')"
  proof (cases "unat b = 0")
    case True
    moreover have "show_nat 0 = [digit_char 0]" by (subst show_nat.simps) simp
    ultimately show ?thesis by simp
  next
    case False
    then obtain d where "0 < d" "d < 10" "hd (show_nat (unat b)) = digit_char d"
      using hd_show_nat by blast
    then have "(of_char (hd (show_nat (unat b))) :: nat) = 48 + d" by simp
    with \<open>0 < d\<close> show ?thesis by auto
  qed
  moreover have "parse_uint (show_nat (unat b)) = Ok (unat b)"
    using unat_u8_less [of b] by (intro parse_uint_show_nat) simp
  ultimately show ?thesis using unat_u8_less [of b] by (simp add: parse_octet_def)
qed

lemma parse_octets_show: "parse_octets (map (\<lambda>b. show_nat (unat b)) a) = Some a"
  by (induction a) simp_all

lemma parse_ipv4_show: "length a = 4 \<Longrightarrow> parse_ipv4 (show_ipv4 a) = Some a"
proof -
  assume a: "length a = 4"
  then have "split_on (CHR ''.'') (show_ipv4 a) = map (\<lambda>b. show_nat (unat b)) a"
    unfolding show_ipv4_def by (intro split_join) (auto simp: show_nat_not_in)
  with a show ?thesis by (simp add: parse_ipv4_def parse_octets_show)
qed

lemma ip_family_digits:
  "\<forall>c \<in> set w. \<exists>d < 10. c = digit_char d \<Longrightarrow> ip_family (w @ CHR ''.'' # s) = Some (CHR ''.'')"
  by (induction w) (auto simp: digit_char_neq)

lemma ParseIP_show:
  assumes "length a = 4"
  shows "ParseIP (show_ipv4 a) = v4_in_v6 @ a"
proof -
  obtain b c bs where a: "a = b # c # bs"
    using assms by (auto simp: length_Suc_conv numeral_eq_Suc)
  have "\<exists>s. show_ipv4 a = show_nat (unat b) @ CHR ''.'' # s"
    by (cases bs) (auto simp: a show_ipv4_def)
  then have "ip_family (show_ipv4 a) = Some (CHR ''.'')"
    using show_nat_digits by (auto intro!: ip_family_digits)
  then show ?thesis by (simp add: ParseIP_def parse_ipv4_show assms)
qed

lemma To4_ipv4 [simp]: "length a = 4 \<Longrightarrow> To4 a = Some a"
  by (simp add: To4_def)

lemma length_v4_in_v6 [simp]: "length v4_in_v6 = 12"
  by (simp add: v4_in_v6_def)

lemma To4_mapped [simp]: "length a = 4 \<Longrightarrow> To4 (v4_in_v6 @ a) = Some a"
  by (simp add: To4_def)

lemma To4_length: "To4 a = Some b \<Longrightarrow> length b = 4"
  by (auto simp: To4_def split: if_splits)

lemma ip_String_ipv4: "length a = 4 \<Longrightarrow> ip_String a = show_ipv4 a"
  by (auto simp: ip_String_def)

lemma of_char_hex_char: "d < 16 \<Longrightarrow> (of_char (hex_char d) :: nat) = (if d < 10 then 48 + d else 87 + d)"
  by (simp add: hex_char_def)

lemma hex_val_char [simp]: "d < 16 \<Longrightarrow> hex_val (hex_char d) = Some d"
  by (auto simp: hex_val_def of_char_hex_char Let_def)

lemma hex_pair: "word_of_nat (16 * (unat (b :: u8) div 16) + unat b mod 16) = b"
  by simp

lemma mac_bytes_show:
  "mac_bytes (length m) (CHR '':'') (show_mac m) = Some m"
proof (induction m)
  case Nil
  then show ?case by simp
next
  case (Cons b m)
  have b: "unat b div 16 < 16" using unat_u8_less [of b] by simp
  show ?case
  proof (cases m)
    case Nil
    then show ?thesis using b hex_pair [of b] by (simp add: show_mac_def show_hex8_def xtoi2_def)
  next
    case (Cons c m')
    then have "show_mac (b # m) = show_hex8 b @ CHR '':'' # show_mac m"
      by (simp add: show_mac_def)
    then show ?thesis using b Cons.IH hex_pair [of b] by (simp add: show_hex8_def xtoi2_def)
  qed
qed

lemma length_show_mac: "length (show_mac m) = 3 * length m - 1"
proof (induction m)
  case (Cons b m)
  then show ?case by (cases m) (simp_all add: show_mac_def show_hex8_def)
qed (simp add: show_mac_def)

lemma ParseMAC_show: "length m = 6 \<Longrightarrow> ParseMAC (show_mac m) = Some m"
proof -
  assume m: "length m = 6"
  then obtain b c m' where "m = b # c # m'" by (auto simp: length_Suc_conv numeral_eq_Suc)
  then have "show_mac m ! 2 = CHR '':''" by (simp add: show_mac_def show_hex8_def)
  moreover note mac_bytes_show [of m]
  ultimately show ?thesis by (simp add: ParseMAC_def length_show_mac m)
qed

lemma ParseMAC_length: "ParseMAC s = Some m \<Longrightarrow> length m \<in> {6, 8, 20}"
proof -
  have "mac_bytes n sep s = Some m \<Longrightarrow> length m = n" for n sep s m
    by (induction n sep s arbitrary: m rule: mac_bytes.induct) (auto split: option.splits)
  moreover have "mac_quads n s = Some m \<Longrightarrow> length m = 2 * n" for n s m
    by (induction n s arbitrary: m rule: mac_quads.induct) (auto split: option.splits)
  ultimately show "ParseMAC s = Some m \<Longrightarrow> length m \<in> {6, 8, 20}"
    unfolding ParseMAC_def Let_def by (auto split: if_splits)
qed

subsection \<open>A network is a prefix\<close>

text \<open>Bit \<open>i\<close> of an address, counted from the most significant one.\<close>

definition ip_bit :: "ip \<Rightarrow> nat \<Rightarrow> bool" where
  "ip_bit a i \<longleftrightarrow> bit (a ! (i div 8)) (7 - i mod 8)"

lemma bit_255: "bit (255 :: u8) j \<longleftrightarrow> j < 8"
proof -
  have "(255 :: u8) = - 1" by simp
  then show ?thesis by (simp only: bit_minus_1_iff) simp
qed

lemma bit_mask_byte: "bit (mask_byte n) j \<longleftrightarrow> j < 8 \<and> 8 \<le> j + n"
proof (cases "j < 8")
  case True
  have "8 \<le> n \<Longrightarrow> bit (mask_byte n) j"
    using True bit_255 [of j] by simp
  moreover have "n < 8 \<Longrightarrow> bit (mask_byte n) j \<longleftrightarrow> \<not> bit (255 :: u8) (n + j)"
    using True by (simp add: bit_not_iff bit_drop_bit_eq)
  ultimately show ?thesis using True bit_255 [of "n + j"] by (cases "8 \<le> n") auto
next
  case False
  then show ?thesis by (auto dest: bit_imp_le_length)
qed

declare mask_byte.simps [simp del]

lemma and_eq_iff: "(x :: u8) AND m = y AND m \<longleftrightarrow> (\<forall>j < 8. bit m j \<longrightarrow> bit x j = bit y j)"
proof
  assume "x AND m = y AND m"
  then show "\<forall>j < 8. bit m j \<longrightarrow> bit x j = bit y j"
    by (metis bit_and_iff)
next
  assume "\<forall>j < 8. bit m j \<longrightarrow> bit x j = bit y j"
  then show "x AND m = y AND m"
    by (intro bit_word_eqI) (auto simp: bit_and_iff)
qed

lemma bits_of_bytes:
  assumes "p \<le> 32"
  shows "(\<forall>i < 4. \<forall>j < 8. 8 \<le> j + (p - 8 * i) \<longrightarrow> bit ((x :: ip) ! i) j = bit (y ! i) j)
    \<longleftrightarrow> (\<forall>k < p. ip_bit x k = ip_bit y k)" (is "?l = ?r")
proof
  assume l: ?l
  show ?r
  proof (intro allI impI)
    fix k assume k: "k < p"
    have "k div 8 < 4" using k assms by simp
    moreover have "8 \<le> 7 - k mod 8 + (p - 8 * (k div 8))"
      using k mod_less_divisor [of 8 k] mult_div_mod_eq [of 8 k] by linarith
    moreover have "7 - k mod 8 < 8" by simp
    ultimately show "ip_bit x k = ip_bit y k" using l unfolding ip_bit_def by blast
  qed
next
  assume r: ?r
  show ?l
  proof (intro allI impI)
    fix i j :: nat assume ij: "i < 4" "j < 8" "8 \<le> j + (p - 8 * i)"
    have "(8 * i + (7 - j)) div 8 = i" "(8 * i + (7 - j)) mod 8 = 7 - j" by simp_all
    moreover have "8 * i + (7 - j) < p" using ij by linarith
    moreover have "7 - (7 - j) = j" using ij by simp
    ultimately show "bit (x ! i) j = bit (y ! i) j"
      using r [rule_format, of "8 * i + (7 - j)"] by (simp add: ip_bit_def)
  qed
qed

lemma length_CIDRMask: "p \<le> 32 \<Longrightarrow> length (CIDRMask p 32) = 4"
  by (simp add: CIDRMask_def)

lemma nth_CIDRMask: "p \<le> 32 \<Longrightarrow> i < 4 \<Longrightarrow> CIDRMask p 32 ! i = mask_byte (p - 8 * i)"
  by (simp add: CIDRMask_def)

lemma net_Contains_prefix:
  assumes "length n = 4" "length a = 4" "p \<le> 32"
  shows "net_Contains \<lparr>net_IP = n, net_Mask = CIDRMask p 32\<rparr> a \<longleftrightarrow> (\<forall>k < p. ip_bit n k = ip_bit a k)"
  using assms bits_of_bytes [OF assms(3), of n a]
  by (simp add: net_Contains_def networkNumberAndMask_def length_CIDRMask list_all_iff nth_CIDRMask
      and_eq_iff bit_mask_byte atLeast0LessThan Ball_def)

lemma net_Contains_To4: "To4 a = Some b \<Longrightarrow> net_Contains n a = net_Contains n b"
  using To4_length [of a b] by (simp add: net_Contains_def)

end
