(* ===== verification/Routing.thy ===== *)
theory Routing
  imports Net_Addr "HOL-Library.Multiset"
begin

section \<open>The routing table (\<open>routing/\<close>)\<close>

text \<open>
  \<open>New\<close> reads the kernel's IPv4 routes from a netlink dump, sorts them by priority and collects
  the interfaces with their first IPv4 address; \<open>Route\<close> answers which interface, gateway and
  source address lead to a destination. The netlink messages (with their attributes, which
  \<open>syscall.ParseNetlinkRouteAttr\<close> cuts out of them) and the interfaces are arguments, and so is
  the sorting function: \<open>sort.Sort\<close> promises an ordered permutation, not a stable one.
\<close>

subsection \<open>Data\<close>

record rtInfo =
  rt_Src :: "IPNet option"
  rt_Dst :: "IPNet option"
  Gateway :: "ip option"
  PrefSrc :: "ip option"
  InputIface :: u32
  OutputIface :: u32
  Priority :: u32

record Interface =
  if_Index :: int
  HardwareAddr :: mac

text \<open>The iteration over \<open>ifaces\<close> in \<open>route\<close> visits the keys in some order, \<open>if_order\<close>.\<close>

record router =
  ifaces :: "int \<rightharpoonup> Interface"
  if_order :: "int list"
  addrs :: "int \<rightharpoonup> ip option"
  v4 :: "rtInfo list"

datatype routing_error =
    Err_Netlink_RIB
  | Err_Netlink_Parse
  | Err_Netlink_Attr
  | Err_Interfaces
  | Err_Addrs
  | Err_Only_IPv4
  | Err_Route_Not_Found

text \<open>A netlink message: its type, its bytes, its attributes as type and value.\<close>

record netlink_msg =
  msg_Type :: nat
  msg_Data :: bytes
  msg_attrs :: "(nat \<times> bytes) list option"

definition NLMSG_DONE :: nat where "NLMSG_DONE = 3"
definition RTM_NEWROUTE :: nat where "RTM_NEWROUTE = 24"
definition AF_INET :: nat where "AF_INET = 2"
definition RTA_DST :: nat where "RTA_DST = 1"
definition RTA_SRC :: nat where "RTA_SRC = 2"
definition RTA_IIF :: nat where "RTA_IIF = 3"
definition RTA_OIF :: nat where "RTA_OIF = 4"
definition RTA_GATEWAY :: nat where "RTA_GATEWAY = 5"
definition RTA_PRIORITY :: nat where "RTA_PRIORITY = 6"
definition RTA_PREFSRC :: nat where "RTA_PREFSRC = 7"

lemmas netlink_constants = NLMSG_DONE_def RTM_NEWROUTE_def AF_INET_def RTA_DST_def RTA_SRC_def
  RTA_IIF_def RTA_OIF_def RTA_GATEWAY_def RTA_PRIORITY_def RTA_PREFSRC_def

subsection \<open>\<open>route\<close>\<close>

fun input_index :: "(int \<rightharpoonup> Interface) \<Rightarrow> mac \<Rightarrow> int list \<Rightarrow> u32" where
  "input_index ifs input [] = 0"
| "input_index ifs input (i # is) =
     (case ifs i of
        Some f \<Rightarrow> (if HardwareAddr f = input then word_of_int i else input_index ifs input is)
      | None \<Rightarrow> input_index ifs input is)"

definition excludes :: "IPNet option \<Rightarrow> ip \<Rightarrow> bool" where
  "excludes n a = (case n of None \<Rightarrow> False | Some net \<Rightarrow> \<not> net_Contains net a)"

text \<open>The loop; \<open>dflt\<close> is the last route without source and destination seen so far.\<close>

fun route_loop :: "u32 \<Rightarrow> ip \<Rightarrow> ip \<Rightarrow> rtInfo option \<Rightarrow> rtInfo list \<Rightarrow> (routing_error, rtInfo) res" where
  "route_loop inputIndex src dst dflt [] =
     (case dflt of Some rt \<Rightarrow> Ok rt | None \<Rightarrow> Err Err_Route_Not_Found)"
| "route_loop inputIndex src dst dflt (rt # routes) =
     (if InputIface rt \<noteq> 0 \<and> InputIface rt \<noteq> inputIndex then route_loop inputIndex src dst dflt routes
      else if rt_Src rt = None \<and> rt_Dst rt = None then route_loop inputIndex src dst (Some rt) routes
      else if excludes (rt_Src rt) src then route_loop inputIndex src dst dflt routes
      else if excludes (rt_Dst rt) dst then route_loop inputIndex src dst dflt routes
      else Ok rt)"

definition route ::
  "router \<Rightarrow> rtInfo list \<Rightarrow> mac option \<Rightarrow> ip \<Rightarrow> ip \<Rightarrow> (routing_error, int \<times> ip option \<times> ip option) res" where
  "route r routes input src dst =
     (let inputIndex = (case input of None \<Rightarrow> 0 | Some m \<Rightarrow> input_index (ifaces r) m (if_order r))
      in map_ok (\<lambda>rt. (uint (OutputIface rt), Gateway rt, PrefSrc rt))
           (route_loop inputIndex src dst None routes))"

definition RouteWithSrc ::
  "router \<Rightarrow> mac option \<Rightarrow> ip \<Rightarrow> ip \<Rightarrow> (routing_error, Interface option \<times> ip option \<times> ip option) res" where
  "RouteWithSrc r input src dst =
     (if To4 dst = None then Err Err_Only_IPv4
      else map_ok (\<lambda>(i, gateway, preferredSrc).
             (ifaces r i, gateway,
              case preferredSrc of
                None \<Rightarrow> (case addrs r i of Some a \<Rightarrow> a | None \<Rightarrow> None)
              | Some a \<Rightarrow> Some a))
           (route r (v4 r) input src dst))"

definition Route :: "router \<Rightarrow> ip \<Rightarrow> (routing_error, Interface option \<times> ip option \<times> ip option) res" where
  "Route r dst = RouteWithSrc r None [] dst"

subsection \<open>\<open>New\<close>\<close>

text \<open>
  The header of a route message is read in place, past the bytes if there are fewer: the model
  reads zeros there, and likewise for the four bytes of an attribute's number (in the byte order
  of the machine, little endian). Only the first byte is checked to exist.
\<close>

definition raw_byte :: "bytes \<Rightarrow> nat \<Rightarrow> nat" where
  "raw_byte d i = (if i < length d then unat (d ! i) else 0)"

definition raw_u32 :: "bytes \<Rightarrow> u32" where
  "raw_u32 d = word_of_nat (raw_byte d 0 + 256 * raw_byte d 1 + 65536 * raw_byte d 2 + 16777216 * raw_byte d 3)"

fun set_attr :: "bytes \<Rightarrow> nat \<times> bytes \<Rightarrow> rtInfo \<Rightarrow> (routing_error, rtInfo) res" where
  "set_attr d (t, val) rt =
     (if t = RTA_DST then
        Ok (rt\<lparr>rt_Dst := Some \<lparr>net_IP = val, net_Mask = CIDRMask (raw_byte d 1) (8 * length val)\<rparr>\<rparr>)
      else if t = RTA_SRC then
        Ok (rt\<lparr>rt_Src := Some \<lparr>net_IP = val, net_Mask = CIDRMask (raw_byte d 2) (8 * length val)\<rparr>\<rparr>)
      else if t = RTA_GATEWAY then Ok (rt\<lparr>Gateway := Some val\<rparr>)
      else if t = RTA_PREFSRC then Ok (rt\<lparr>PrefSrc := Some val\<rparr>)
      else if t \<in> {RTA_IIF, RTA_OIF, RTA_PRIORITY} then
        (if val = [] then Panic Index_Out_Of_Range
         else if t = RTA_IIF then Ok (rt\<lparr>InputIface := raw_u32 val\<rparr>)
         else if t = RTA_OIF then Ok (rt\<lparr>OutputIface := raw_u32 val\<rparr>)
         else Ok (rt\<lparr>Priority := raw_u32 val\<rparr>))
      else Ok rt)"

fun set_attrs :: "bytes \<Rightarrow> (nat \<times> bytes) list \<Rightarrow> rtInfo \<Rightarrow> (routing_error, rtInfo) res" where
  "set_attrs d [] rt = Ok rt"
| "set_attrs d (a # as) rt = bind_res (set_attr d a rt) (set_attrs d as)"

definition zero_rtInfo :: rtInfo where
  "zero_rtInfo = \<lparr>rt_Src = None, rt_Dst = None, Gateway = None, PrefSrc = None,
     InputIface = 0, OutputIface = 0, Priority = 0\<rparr>"

fun new_routes :: "netlink_msg list \<Rightarrow> rtInfo list \<Rightarrow> (routing_error, rtInfo list) res" where
  "new_routes [] rs = Ok rs"
| "new_routes (m # ms) rs =
     (if msg_Type m = NLMSG_DONE then Ok rs
      else if msg_Type m = RTM_NEWROUTE then
        (if msg_Data m = [] then Panic Index_Out_Of_Range
         else case msg_attrs m of
           None \<Rightarrow> Err Err_Netlink_Attr
         | Some as \<Rightarrow>
             (if raw_byte (msg_Data m) 0 \<noteq> AF_INET then new_routes ms rs
              else bind_res (set_attrs (msg_Data m) as zero_rtInfo) (\<lambda>rt. new_routes ms (rs @ [rt]))))
      else new_routes ms rs)"

text \<open>The addresses of an interface; the first that is an IPv4 network counts.\<close>

datatype if_addr = Addr_IPNet ip | Addr_Other

fun first_v4 :: "if_addr list \<Rightarrow> ip option" where
  "first_v4 [] = None"
| "first_v4 (Addr_IPNet a # as) = (case To4 a of Some b \<Rightarrow> Some b | None \<Rightarrow> first_v4 as)"
| "first_v4 (Addr_Other # as) = first_v4 as"

fun add_ifaces :: "(Interface \<times> if_addr list option) list \<Rightarrow> router \<Rightarrow> (routing_error, router) res" where
  "add_ifaces [] r = Ok r"
| "add_ifaces ((f, as) # fs) r =
     (case as of
        None \<Rightarrow> Err Err_Addrs
      | Some l \<Rightarrow>
          add_ifaces fs (r\<lparr>ifaces := (ifaces r)(if_Index f \<mapsto> f), if_order := if_order r @ [if_Index f],
                           addrs := (addrs r)(if_Index f \<mapsto> first_v4 l)\<rparr>))"

text \<open>
  What the system calls of \<open>New\<close> give: the dump (or the failure of \<open>NetlinkRIB\<close>, or that its
  messages do not parse) and the interfaces.
\<close>

record kernel =
  k_rib :: "netlink_msg list option option"
  k_ifaces :: "(Interface \<times> if_addr list option) list option"

definition New :: "(rtInfo list \<Rightarrow> rtInfo list) \<Rightarrow> kernel \<Rightarrow> (routing_error, router) res" where
  "New srt k =
     (case k_rib k of
        None \<Rightarrow> Err Err_Netlink_RIB
      | Some None \<Rightarrow> Err Err_Netlink_Parse
      | Some (Some msgs) \<Rightarrow>
          bind_res (new_routes msgs []) (\<lambda>rs.
            case k_ifaces k of
              None \<Rightarrow> Err Err_Interfaces
            | Some fs \<Rightarrow>
                add_ifaces fs \<lparr>ifaces = Map.empty, if_order = [], addrs = Map.empty, v4 = srt rs\<rparr>))"

subsection \<open>The package variable\<close>

definition routing_MustInit :: "(rtInfo list \<Rightarrow> rtInfo list) \<Rightarrow> kernel \<Rightarrow> (unit, router) res" where
  "routing_MustInit srt k =
     (case New srt k of Ok r \<Rightarrow> Ok r | Err e \<Rightarrow> Panic Explicit_Panic | Panic p \<Rightarrow> Panic p)"

text \<open>\<open>Reload\<close> gives the error it returns, if any, and the variable afterwards.\<close>

definition routing_Reload ::
  "(rtInfo list \<Rightarrow> rtInfo list) \<Rightarrow> kernel \<Rightarrow> router option \<Rightarrow> (unit, routing_error option \<times> router option) res" where
  "routing_Reload srt k r =
     (case New srt k of
        Ok r' \<Rightarrow> Ok (None, Some r')
      | Err e \<Rightarrow> Ok (Some e, r)
      | Panic p \<Rightarrow> Panic p)"

definition routing_Route ::
  "router option \<Rightarrow> ip \<Rightarrow> (routing_error, Interface option \<times> ip option \<times> ip option) res" where
  "routing_Route r dst = (case r of None \<Rightarrow> Panic Nil_Dereference | Some rtr \<Rightarrow> Route rtr dst)"

subsection \<open>What the loop answers\<close>

definition usable :: "u32 \<Rightarrow> rtInfo \<Rightarrow> bool" where
  "usable i rt \<longleftrightarrow> InputIface rt = 0 \<or> InputIface rt = i"

definition is_dflt :: "rtInfo \<Rightarrow> bool" where
  "is_dflt rt \<longleftrightarrow> rt_Src rt = None \<and> rt_Dst rt = None"

definition specific :: "ip \<Rightarrow> ip \<Rightarrow> rtInfo \<Rightarrow> bool" where
  "specific src dst rt \<longleftrightarrow> \<not> is_dflt rt \<and> \<not> excludes (rt_Src rt) src \<and> \<not> excludes (rt_Dst rt) dst"

lemma route_loop_no_panic [simp]: "route_loop i src dst d rs \<noteq> Panic p"
  by (induction i src dst d rs rule: route_loop.induct) (auto split: option.split)

lemma route_loop_Ok:
  "sorted (map Priority rs) \<Longrightarrow> route_loop i src dst d rs = Ok rt \<Longrightarrow>
   (rt \<in> set rs \<and> usable i rt \<and> specific src dst rt
      \<and> (\<forall>rt' \<in> set rs. usable i rt' \<and> specific src dst rt' \<longrightarrow> Priority rt \<le> Priority rt'))
   \<or> (\<forall>rt' \<in> set rs. \<not> (usable i rt' \<and> specific src dst rt'))
      \<and> ((rt \<in> set rs \<and> usable i rt \<and> is_dflt rt
            \<and> (\<forall>rt' \<in> set rs. usable i rt' \<and> is_dflt rt' \<longrightarrow> Priority rt' \<le> Priority rt))
          \<or> (d = Some rt \<and> (\<forall>rt' \<in> set rs. \<not> (usable i rt' \<and> is_dflt rt'))))"
proof (induction rs arbitrary: d)
  case Nil
  then show ?case by (auto split: option.splits)
next
  case (Cons r rs)
  from Cons.prems(1) have sorted: "sorted (map Priority rs)" and le: "\<forall>rt' \<in> set rs. Priority r \<le> Priority rt'"
    by auto
  note defs = usable_def specific_def is_dflt_def
  show ?case
  proof (cases "usable i r \<and> is_dflt r")
    case True
    then have "route_loop i src dst (Some r) rs = Ok rt"
      using Cons.prems(2) by (auto simp: defs split: if_splits)
    from Cons.IH [OF sorted this] True le show ?thesis by (auto simp: specific_def)
  next
    case False
    show ?thesis
    proof (cases "usable i r \<and> specific src dst r")
      case True
      then have "rt = r" using Cons.prems(2) by (auto simp: defs split: if_splits)
      with True le show ?thesis by auto
    next
      case neither: False
      then have "route_loop i src dst d rs = Ok rt"
        using Cons.prems(2) False by (auto simp: defs split: if_splits)
      from Cons.IH [OF sorted this] neither False show ?thesis by auto
    qed
  qed
qed

lemma route_loop_Err:
  "route_loop i src dst d rs = Err e \<longleftrightarrow>
   e = Err_Route_Not_Found \<and> d = None \<and> (\<forall>rt \<in> set rs. \<not> (usable i rt \<and> (specific src dst rt \<or> is_dflt rt)))"
  by (induction i src dst d rs rule: route_loop.induct)
    (auto simp: usable_def specific_def is_dflt_def split: option.split)

subsection \<open>What sorting promises\<close>

text \<open>
  The contract of \<open>sort.Sort(rtr.v4)\<close> with the \<open>Less\<close> of \<open>routeSlice\<close>. Routes of equal priority
  may come in any order.
\<close>

locale priority_sort =
  fixes srt :: "rtInfo list \<Rightarrow> rtInfo list"
  assumes srt_perm: "mset (srt rs) = mset rs"
    and srt_ordered: "sorted (map Priority (srt rs))"
begin

lemma set_srt [simp]: "set (srt rs) = set rs"
  using srt_perm by (rule mset_eq_setD)

text \<open>
  The route that is found: one of least priority among those that match, whatever the length of
  their prefixes; a default route only if none matches, and then one of greatest priority.
\<close>

lemma found:
  assumes "route_loop i src dst None (srt rs) = Ok rt"
  shows "rt \<in> set rs \<and> usable i rt
    \<and> (specific src dst rt \<and> (\<forall>rt' \<in> set rs. usable i rt' \<and> specific src dst rt' \<longrightarrow> Priority rt \<le> Priority rt')
       \<or> is_dflt rt \<and> (\<forall>rt' \<in> set rs. usable i rt' \<longrightarrow> \<not> specific src dst rt')
           \<and> (\<forall>rt' \<in> set rs. usable i rt' \<and> is_dflt rt' \<longrightarrow> Priority rt' \<le> Priority rt))"
  using route_loop_Ok [OF srt_ordered assms] by auto

lemma not_found:
  "route_loop i src dst None (srt rs) = Err e \<longleftrightarrow>
   e = Err_Route_Not_Found \<and> (\<forall>rt \<in> set rs. \<not> (usable i rt \<and> (specific src dst rt \<or> is_dflt rt)))"
  by (simp add: route_loop_Err)

end

text \<open>
  Up to twelve elements, \<open>sort.Sort\<close> is an insertion sort, which keeps equal elements in order:
  its result is the stable one.
\<close>

interpretation insertion: priority_sort "sort_key Priority"
  by unfold_locales simp_all

subsection \<open>The kernel's dump\<close>

text \<open>
  The main routing table as the kernel writes it: a destination prefix (none for a default route),
  a gateway, a preferred source, the output interface and the metric, which is left out when zero.
\<close>

record kroute =
  kr_dst :: "(ip \<times> nat) option"
  kr_via :: "ip option"
  kr_src :: "ip option"
  kr_oif :: u32
  kr_metric :: u32

definition le_u32 :: "u32 \<Rightarrow> bytes" where
  "le_u32 v = [ucast v, ucast (drop_bit 8 v), ucast (drop_bit 16 v), ucast (drop_bit 24 v)]"

definition kernel_msg :: "kroute \<Rightarrow> netlink_msg" where
  "kernel_msg kr =
     \<lparr>msg_Type = RTM_NEWROUTE,
      msg_Data = [2, (case kr_dst kr of None \<Rightarrow> 0 | Some (n, p) \<Rightarrow> word_of_nat p), 0, 0, 254, 3, 0, 1, 0, 0, 0, 0],
      msg_attrs = Some ([(15, le_u32 254)]
        @ (case kr_dst kr of None \<Rightarrow> [] | Some (n, p) \<Rightarrow> [(RTA_DST, n)])
        @ (if kr_metric kr = 0 then [] else [(RTA_PRIORITY, le_u32 (kr_metric kr))])
        @ (case kr_src kr of None \<Rightarrow> [] | Some a \<Rightarrow> [(RTA_PREFSRC, a)])
        @ (case kr_via kr of None \<Rightarrow> [] | Some a \<Rightarrow> [(RTA_GATEWAY, a)])
        @ [(RTA_OIF, le_u32 (kr_oif kr))])\<rparr>"

definition kr_ok :: "kroute \<Rightarrow> bool" where
  "kr_ok kr \<longleftrightarrow> (case kr_dst kr of None \<Rightarrow> True | Some (n, p) \<Rightarrow> length n = 4 \<and> p \<le> 32)"

text \<open>The first \<open>p\<close> bits of the destination are those of the prefix.\<close>

definition covers :: "kroute \<Rightarrow> ip \<Rightarrow> bool" where
  "covers kr d \<longleftrightarrow> (case kr_dst kr of None \<Rightarrow> False | Some (n, p) \<Rightarrow> \<forall>i < p. ip_bit n i = ip_bit d i)"

definition decoded :: "kroute \<Rightarrow> rtInfo" where
  "decoded kr =
     \<lparr>rt_Src = None,
      rt_Dst = (case kr_dst kr of None \<Rightarrow> None | Some (n, p) \<Rightarrow> Some \<lparr>net_IP = n, net_Mask = CIDRMask p 32\<rparr>),
      Gateway = kr_via kr, PrefSrc = kr_src kr, InputIface = 0, OutputIface = kr_oif kr,
      Priority = kr_metric kr\<rparr>"

lemma le_digits:
  assumes "(n :: nat) < 4294967296"
  shows "n mod 256 + 256 * (n div 256 mod 256) + 65536 * (n div 65536 mod 256)
    + 16777216 * (n div 16777216 mod 256) = n"
proof -
  define a b c where "a = n div 256" and "b = a div 256" and "c = b div 256"
  have b: "n div 65536 = b" and c: "n div 16777216 = c"
    by (simp_all add: a_def b_def c_def flip: div_mult2_eq)
  have "c < 256" using assms less_mult_imp_div_less [of n 256 16777216] by (simp flip: c)
  then have "c mod 256 = c" by simp
  moreover have "n mod 256 + 256 * a = n" "a mod 256 + 256 * b = a" "b mod 256 + 256 * c = b"
    by (simp_all add: a_def b_def c_def)
  ultimately show ?thesis unfolding b c a_def [symmetric] by linarith
qed

lemma raw_le_u32: "raw_u32 (le_u32 v) = v"
proof -
  have u0: "unat (ucast x :: u8) = unat x mod 256" for x :: u32
    by (simp add: unsigned_ucast_eq take_bit_eq_mod)
  have u: "unat (drop_bit n v) = unat v div 2 ^ n" for n
    by (simp add: unat_drop_bit_eq drop_bit_eq_div [of n "unat v"])
  have "raw_u32 (le_u32 v) = word_of_nat (unat v mod 256 + 256 * (unat v div 256 mod 256)
      + 65536 * (unat v div 65536 mod 256) + 16777216 * (unat v div 16777216 mod 256))"
    by (simp add: raw_u32_def raw_byte_def le_u32_def u0 u)
  also have "\<dots> = word_of_nat (unat v)"
    by (simp only: le_digits [OF unat_u32_less, of v])
  finally show ?thesis by simp
qed

lemma set_attrs_kernel:
  assumes "kr_ok kr"
  shows "set_attrs (msg_Data (kernel_msg kr)) (the (msg_attrs (kernel_msg kr))) zero_rtInfo = Ok (decoded kr)"
proof -
  have p: "p \<le> 32 \<Longrightarrow> unat (word_of_nat p :: u8) = p" for p
    by (simp add: unsigned_of_nat take_bit_nat_eq_self)
  have le: "le_u32 v \<noteq> []" for v by (simp add: le_u32_def)
  show ?thesis
    using assms
    by (auto simp: kernel_msg_def kr_ok_def decoded_def zero_rtInfo_def netlink_constants raw_le_u32 le
        raw_byte_def p split: option.splits)
qed

lemma new_routes_kernel:
  "\<forall>kr \<in> set krs. kr_ok kr \<Longrightarrow> new_routes (map kernel_msg krs) rs = Ok (rs @ map decoded krs)"
proof (induction krs arbitrary: rs)
  case Nil
  then show ?case by simp
next
  case (Cons kr krs)
  obtain as where as: "msg_attrs (kernel_msg kr) = Some as"
    by (simp add: kernel_msg_def)
  have "msg_Type (kernel_msg kr) = RTM_NEWROUTE" "msg_Data (kernel_msg kr) \<noteq> []"
      "raw_byte (msg_Data (kernel_msg kr)) 0 = AF_INET"
    by (simp_all add: kernel_msg_def raw_byte_def AF_INET_def)
  with as set_attrs_kernel [of kr] Cons show ?case
    by (simp add: RTM_NEWROUTE_def NLMSG_DONE_def)
qed

lemma new_routes_done:
  "new_routes ms rs = Ok rs' \<Longrightarrow> (\<forall>m \<in> set ms. msg_Type m \<noteq> NLMSG_DONE) \<Longrightarrow> msg_Type m = NLMSG_DONE \<Longrightarrow>
   new_routes (ms @ m # rest) rs = Ok rs'"
proof (induction ms rs rule: new_routes.induct)
  case (2 m' ms rs)
  then show ?case
    by (auto split: if_splits option.splits simp: bind_res_Ok_iff)
qed simp

lemma add_ifaces_Ok:
  "\<exists>r'. add_ifaces (map (\<lambda>(f, as). (f, Some as)) fs) r = Ok r' \<and> v4 r' = v4 r
     \<and> ifaces r' = ifaces r ++ map_of (rev (map (\<lambda>(f, as). (if_Index f, f)) fs))
     \<and> addrs r' = addrs r ++ map_of (rev (map (\<lambda>(f, as). (if_Index f, first_v4 as)) fs))"
proof (induction fs arbitrary: r)
  case Nil
  then show ?case by simp
next
  case (Cons fa fs)
  obtain f as where fa: "fa = (f, as)" by (cases fa)
  let ?r = "r\<lparr>ifaces := (ifaces r)(if_Index f \<mapsto> f), if_order := if_order r @ [if_Index f],
               addrs := (addrs r)(if_Index f \<mapsto> first_v4 as)\<rparr>"
  obtain r' where r': "add_ifaces (map (\<lambda>(f, as). (f, Some as)) fs) ?r = Ok r'" "v4 r' = v4 ?r"
      "ifaces r' = ifaces ?r ++ map_of (rev (map (\<lambda>(f, as). (if_Index f, f)) fs))"
      "addrs r' = addrs ?r ++ map_of (rev (map (\<lambda>(f, as). (if_Index f, first_v4 as)) fs))"
    using Cons [of ?r] by blast
  show ?case
    by (rule exI [of _ r']) (simp add: fa r' del: fun_upd_apply)
qed

lemma specific_decoded:
  assumes "kr_ok kr" "To4 dst = Some d"
  shows "specific src dst (decoded kr) \<longleftrightarrow> covers kr d"
  using assms net_Contains_To4 [OF assms(2)] To4_length [OF assms(2)]
  by (auto simp: specific_def is_dflt_def decoded_def excludes_def covers_def kr_ok_def
      net_Contains_prefix split: option.splits)

lemma is_dflt_decoded: "is_dflt (decoded kr) \<longleftrightarrow> kr_dst kr = None"
  by (auto simp: is_dflt_def decoded_def split: option.split)

lemma usable_decoded [simp]: "usable i (decoded kr)"
  by (simp add: usable_def decoded_def)

text \<open>The answer \<open>Route\<close> makes of a kernel route and the interfaces it was read with.\<close>

definition answer ::
  "(Interface \<times> if_addr list) list \<Rightarrow> kroute \<Rightarrow> Interface option \<times> ip option \<times> ip option" where
  "answer fs kr =
     (map_of (rev (map (\<lambda>(f, as). (if_Index f, f)) fs)) (uint (kr_oif kr)),
      kr_via kr,
      (case kr_src kr of
         Some a \<Rightarrow> Some a
       | None \<Rightarrow> (case map_of (rev (map (\<lambda>(f, as). (if_Index f, first_v4 as)) fs)) (uint (kr_oif kr)) of
                   Some a \<Rightarrow> a | None \<Rightarrow> None)))"

text \<open>The table that is read, and the answer for an address, through the contract of the sort.\<close>

context priority_sort
begin

lemma New_kernel:
  assumes "\<forall>kr \<in> set krs. kr_ok kr"
    and "k_rib k = Some (Some (map kernel_msg krs))"
    and "k_ifaces k = Some (map (\<lambda>(f, as). (f, Some as)) fs)"
  shows "\<exists>r. New srt k = Ok r \<and> v4 r = srt (map decoded krs)
    \<and> ifaces r = map_of (rev (map (\<lambda>(f, as). (if_Index f, f)) fs))
    \<and> addrs r = map_of (rev (map (\<lambda>(f, as). (if_Index f, first_v4 as)) fs))"
  using add_ifaces_Ok [of fs "\<lparr>ifaces = Map.empty, if_order = [], addrs = Map.empty, v4 = srt (map decoded krs)\<rparr>"]
  by (auto simp: New_def assms new_routes_kernel)

lemma Route_found:
  assumes ok: "\<forall>kr \<in> set krs. kr_ok kr" and dst: "To4 dst = Some d"
    and r: "v4 r = srt (map decoded krs)"
      "ifaces r = map_of (rev (map (\<lambda>(f, as). (if_Index f, f)) fs))"
      "addrs r = map_of (rev (map (\<lambda>(f, as). (if_Index f, first_v4 as)) fs))"
  shows "(\<exists>kr \<in> set krs. Route r dst = Ok (answer fs kr)
      \<and> (covers kr d \<and> (\<forall>kr' \<in> set krs. covers kr' d \<longrightarrow> kr_metric kr \<le> kr_metric kr')
         \<or> kr_dst kr = None \<and> (\<forall>kr' \<in> set krs. \<not> covers kr' d)
             \<and> (\<forall>kr' \<in> set krs. kr_dst kr' = None \<longrightarrow> kr_metric kr' \<le> kr_metric kr)))
    \<or> (\<forall>kr \<in> set krs. \<not> covers kr d \<and> kr_dst kr \<noteq> None) \<and> Route r dst = Err Err_Route_Not_Found"
proof (cases "route_loop 0 [] dst None (srt (map decoded krs))")
  case (Ok rt)
  then obtain kr where kr: "kr \<in> set krs" "rt = decoded kr"
    using found [OF Ok] by auto
  have "OutputIface rt = kr_oif kr" "Gateway rt = kr_via kr" "PrefSrc rt = kr_src kr"
    by (simp_all add: kr(2) decoded_def)
  then have "Route r dst = Ok (answer fs kr)"
    by (simp only: Route_def RouteWithSrc_def route_def dst r Ok answer_def map_ok.simps split_conv
        option.case option.distinct if_False Let_def)
  moreover have met: "Priority (decoded kr') = kr_metric kr'" for kr'
    by (simp add: decoded_def)
  have spec: "specific [] dst (decoded kr') = covers kr' d" if "kr' \<in> set krs" for kr'
    using that ok dst by (simp add: specific_decoded)
  have "covers kr d \<and> (\<forall>kr' \<in> set krs. covers kr' d \<longrightarrow> kr_metric kr \<le> kr_metric kr')
      \<or> kr_dst kr = None \<and> (\<forall>kr' \<in> set krs. \<not> covers kr' d)
          \<and> (\<forall>kr' \<in> set krs. kr_dst kr' = None \<longrightarrow> kr_metric kr' \<le> kr_metric kr)"
    using found [OF Ok] kr by (simp add: spec is_dflt_decoded met)
  ultimately show ?thesis using kr(1) by blast
next
  case (Err e)
  then show ?thesis
    using not_found [of 0 "[]" dst "map decoded krs" e] ok dst
    by (auto simp: Route_def RouteWithSrc_def route_def dst r specific_decoded is_dflt_decoded)
qed simp

end

subsection \<open>Properties\<close>

text \<open>
  C18. From the kernel's dump to the answer: \<open>New\<close> reads any table of IPv4 routes, and \<open>Route\<close>
  of an IPv4 destination then answers with a route whose prefix covers the destination bit by
  bit, one of least metric among those; only if none does, with a default route, and then one of
  greatest metric; and with an error if there is no default route either. The answer is the
  interface, gateway and preferred source of that route, the source falling back to the first
  IPv4 address of the interface. Any sorting that orders a permutation will do.
\<close>

theorem Route_from_kernel:
  assumes "priority_sort srt" and "\<forall>kr \<in> set krs. kr_ok kr" and "To4 dst = Some d"
    and "k_rib k = Some (Some (map kernel_msg krs))"
    and "k_ifaces k = Some (map (\<lambda>(f, as). (f, Some as)) fs)"
  shows "\<exists>r. New srt k = Ok r \<and>
    ((\<exists>kr \<in> set krs. Route r dst = Ok (answer fs kr)
        \<and> (covers kr d \<and> (\<forall>kr' \<in> set krs. covers kr' d \<longrightarrow> kr_metric kr \<le> kr_metric kr')
           \<or> kr_dst kr = None \<and> (\<forall>kr' \<in> set krs. \<not> covers kr' d)
               \<and> (\<forall>kr' \<in> set krs. kr_dst kr' = None \<longrightarrow> kr_metric kr' \<le> kr_metric kr)))
      \<or> (\<forall>kr \<in> set krs. \<not> covers kr d \<and> kr_dst kr \<noteq> None) \<and> Route r dst = Err Err_Route_Not_Found)"
proof -
  obtain r where r: "New srt k = Ok r" "v4 r = srt (map decoded krs)"
      "ifaces r = map_of (rev (map (\<lambda>(f, as). (if_Index f, f)) fs))"
      "addrs r = map_of (rev (map (\<lambda>(f, as). (if_Index f, first_v4 as)) fs))"
    using priority_sort.New_kernel [OF assms(1,2,4,5)] by blast
  then show ?thesis
    using priority_sort.Route_found [OF assms(1-3) r(2-4)] by blast
qed

definition sample_routes :: "kroute list" where
  "sample_routes =
     [\<lparr>kr_dst = None, kr_via = Some [10, 0, 0, 1], kr_src = None, kr_oif = 2, kr_metric = 100\<rparr>,
      \<lparr>kr_dst = None, kr_via = Some [192, 168, 0, 1], kr_src = None, kr_oif = 3, kr_metric = 600\<rparr>,
      \<lparr>kr_dst = Some ([10, 0, 0, 0], 8), kr_via = None, kr_src = Some [10, 0, 0, 2], kr_oif = 2, kr_metric = 0\<rparr>]"

definition sample_ifaces :: "(Interface \<times> if_addr list) list" where
  "sample_ifaces =
     [(\<lparr>if_Index = 2, HardwareAddr = [2, 0, 0, 0, 0, 1]\<rparr>, [Addr_IPNet [10, 0, 0, 2]]),
      (\<lparr>if_Index = 3, HardwareAddr = [2, 0, 0, 0, 0, 2]\<rparr>, [Addr_Other, Addr_IPNet [192, 168, 0, 7]])]"

definition sample_kernel :: kernel where
  "sample_kernel =
     \<lparr>k_rib = Some (Some (map kernel_msg sample_routes)),
      k_ifaces = Some (map (\<lambda>(f, as). (f, Some as)) sample_ifaces)\<rparr>"

lemma sample_kr_ok: "\<forall>kr \<in> set sample_routes. kr_ok kr"
  by (simp add: sample_routes_def kr_ok_def)

lemma ip_bit_0: "ip_bit [x, y, z, w] 0 = bit x 7"
  by (simp add: ip_bit_def)

theorem Route_from_kernel_witness:
  "\<exists>r. New (sort_key Priority) sample_kernel = Ok r \<and>
    ((\<exists>kr \<in> set sample_routes. Route r [10, 1, 2, 3] = Ok (answer sample_ifaces kr)
        \<and> (covers kr [10, 1, 2, 3]
             \<and> (\<forall>kr' \<in> set sample_routes. covers kr' [10, 1, 2, 3] \<longrightarrow> kr_metric kr \<le> kr_metric kr')
           \<or> kr_dst kr = None \<and> (\<forall>kr' \<in> set sample_routes. \<not> covers kr' [10, 1, 2, 3])
               \<and> (\<forall>kr' \<in> set sample_routes. kr_dst kr' = None \<longrightarrow> kr_metric kr' \<le> kr_metric kr)))
      \<or> (\<forall>kr \<in> set sample_routes. \<not> covers kr [10, 1, 2, 3] \<and> kr_dst kr \<noteq> None)
          \<and> Route r [10, 1, 2, 3] = Err Err_Route_Not_Found)"
  by (rule Route_from_kernel [OF insertion.priority_sort_axioms sample_kr_ok])
    (simp_all add: sample_kernel_def)

text \<open>
  Several default routes: the loop keeps the last one of the sorted table, so \<open>Route\<close> takes
  the default route of the greatest metric, the one the kernel itself would use last.
\<close>

lemma Route_worst_default:
  assumes "priority_sort srt" and "\<forall>kr \<in> set krs. kr_ok kr" and "To4 dst = Some d"
    and "k_rib k = Some (Some (map kernel_msg krs))"
    and "k_ifaces k = Some (map (\<lambda>(f, as). (f, Some as)) fs)"
    and "\<forall>kr \<in> set krs. \<not> covers kr d"
    and "worst \<in> set krs" and "kr_dst worst = None"
    and "\<forall>kr \<in> set krs. kr_dst kr = None \<and> kr \<noteq> worst \<longrightarrow> kr_metric kr < kr_metric worst"
  shows "\<exists>r. New srt k = Ok r \<and> Route r dst = Ok (answer fs worst)"
proof -
  obtain r where r: "New srt k = Ok r" "v4 r = srt (map decoded krs)"
      "ifaces r = map_of (rev (map (\<lambda>(f, as). (if_Index f, f)) fs))"
      "addrs r = map_of (rev (map (\<lambda>(f, as). (if_Index f, first_v4 as)) fs))"
    using priority_sort.New_kernel [OF assms(1,2,4,5)] by blast
  then show ?thesis
    using priority_sort.Route_found [OF assms(1-3) r(2-4)] assms(6-9) by (metis not_less)
qed

lemma Route_worst_default_witness:
  "\<exists>r. New (sort_key Priority) sample_kernel = Ok r
     \<and> Route r [200, 1, 2, 3] = Ok (answer sample_ifaces (sample_routes ! 1))"
proof (rule Route_worst_default [OF insertion.priority_sort_axioms sample_kr_ok, of _ "[200, 1, 2, 3]"])
  have "\<not> covers (sample_routes ! 2) [200, 1, 2, 3]"
    by (auto simp: covers_def sample_routes_def ip_bit_0 intro!: exI [of _ 0])
  then show "\<forall>kr \<in> set sample_routes. \<not> covers kr [200, 1, 2, 3]"
    by (auto simp: sample_routes_def covers_def)
qed (simp_all add: sample_kernel_def sample_routes_def)

text \<open>
  The length of the prefix plays no part: of two routes that cover the destination the one of the
  smaller metric is taken, also when its prefix is the shorter one.
\<close>

lemma prefix_length_ignored:
  assumes "priority_sort srt" and "kr_ok short" and "kr_ok long" and "To4 dst = Some d"
    and "k_rib k = Some (Some (map kernel_msg [long, short]))"
    and "k_ifaces k = Some (map (\<lambda>(f, as). (f, Some as)) fs)"
    and "covers short d" and "covers long d" and "kr_metric short < kr_metric long"
  shows "\<exists>r. New srt k = Ok r \<and> Route r dst = Ok (answer fs short)"
proof -
  have ok: "\<forall>kr \<in> set [long, short]. kr_ok kr" using assms(2,3) by simp
  obtain r where r: "New srt k = Ok r" "v4 r = srt (map decoded [long, short])"
      "ifaces r = map_of (rev (map (\<lambda>(f, as). (if_Index f, f)) fs))"
      "addrs r = map_of (rev (map (\<lambda>(f, as). (if_Index f, first_v4 as)) fs))"
    using priority_sort.New_kernel [OF assms(1) ok assms(5,6)] by blast
  then show ?thesis
    using priority_sort.Route_found [OF assms(1) ok assms(4) r(2-4)] assms(7-9) by auto
qed

end
