(* ===== verification/Arp.thy ===== *)
theory Arp
  imports Net_Addr
begin

section \<open>The ARP table (\<open>arp/arp.go\<close>)\<close>

text \<open>
  \<open>readTable\<close> parses \<open>/proc/net/arp\<close>, whose contents are an argument (\<open>None\<close> when the file
  cannot be opened); \<open>Get\<close>, \<open>Reload\<close> and \<open>MustInit\<close> use the package's table. The lock that
  \<open>Get\<close> and \<open>Reload\<close> take makes each of them one step.
\<close>

type_synonym arp_table = "string \<rightharpoonup> bytes"

datatype arp_error = Err_Arp_Open | Err_Parse_MAC string string

subsection \<open>The model\<close>

text \<open>
  \<open>bufio.Scanner\<close> on lines: the text between newlines, a carriage return at the end dropped, no
  empty last line; a line that does not fit its buffer of 64 KiB ends the scan silently.
\<close>

definition drop_cr :: "string \<Rightarrow> string" where
  "drop_cr l = (if l \<noteq> [] \<and> last l = CHR 0x0D then butlast l else l)"

definition scan_lines :: "string \<Rightarrow> string list" where
  "scan_lines text =
     (let ls = split_on (CHR 0x0A) text
      in map drop_cr (takeWhile (\<lambda>l. length l < 65536) (if last ls = [] then butlast ls else ls)))"

text \<open>
  The loop over the lines. \<open>fields[3]\<close> panics on a line of fewer than four fields; the address
  converted to six bytes is the first six of the six, eight or twenty that \<open>ParseMAC\<close> gives.
\<close>

fun read_rows :: "string list \<Rightarrow> arp_table \<Rightarrow> (arp_error, arp_table) res" where
  "read_rows [] t = Ok t"
| "read_rows (l # ls) t =
     (let fs = str_fields l
      in if length fs < 4 then Panic Index_Out_Of_Range
         else case ParseMAC (fs ! 3) of
           None \<Rightarrow> Err (Err_Parse_MAC (fs ! 0) (fs ! 3))
         | Some m \<Rightarrow> (if length m < 6 then Panic Slice_To_Array
                     else read_rows ls (t(fs ! 0 \<mapsto> take 6 m))))"

definition readTable :: "string option \<Rightarrow> (arp_error, arp_table) res" where
  "readTable file =
     (case file of
        None \<Rightarrow> Err Err_Arp_Open
      | Some text \<Rightarrow> read_rows (tl (scan_lines text)) Map.empty)"

definition arp_MustInit :: "string option \<Rightarrow> (unit, arp_table) res" where
  "arp_MustInit file =
     (case readTable file of Ok t \<Rightarrow> Ok t | Err e \<Rightarrow> Panic Explicit_Panic | Panic p \<Rightarrow> Panic p)"

definition arp_Get :: "arp_table \<Rightarrow> string \<Rightarrow> bytes option" where
  "arp_Get t addr = t addr"

text \<open>\<open>Reload\<close> gives the error it returns, if any, and the table afterwards.\<close>

definition arp_Reload :: "string option \<Rightarrow> arp_table \<Rightarrow> (unit, arp_error option \<times> arp_table) res" where
  "arp_Reload file t =
     (case readTable file of
        Ok t' \<Rightarrow> Ok (None, t')
      | Err e \<Rightarrow> Ok (Some e, t)
      | Panic p \<Rightarrow> Panic p)"

subsection \<open>The kernel's rows\<close>

text \<open>
  A row of \<open>/proc/net/arp\<close>: the address padded to sixteen columns, the hardware type and the
  flags, the hardware address, a mask and the device, in the format of the kernel's
  \<open>arp_format_neigh_entry\<close>.
\<close>

record arp_entry =
  ae_ip :: ip
  ae_flags :: string
  ae_mac :: mac
  ae_dev :: string

definition pad :: "nat \<Rightarrow> string \<Rightarrow> string" where
  "pad n s = s @ replicate (n - length s) (CHR '' '')"

definition arp_row :: "arp_entry \<Rightarrow> string" where
  "arp_row e = pad 16 (show_ipv4 (ae_ip e)) @ '' '' @ pad 12 ''0x1'' @ pad 12 (ae_flags e)
     @ show_mac (ae_mac e) @ ''     '' @ pad 8 ''*'' @ '' '' @ ae_dev e"

definition arp_entry_ok :: "arp_entry \<Rightarrow> bool" where
  "arp_entry_ok e \<longleftrightarrow> length (ae_ip e) = 4 \<and> length (ae_mac e) = 6
     \<and> ae_flags e \<noteq> [] \<and> length (ae_flags e) < 12 \<and> (\<forall>c \<in> set (ae_flags e). \<not> is_space c)
     \<and> ae_dev e \<noteq> [] \<and> length (ae_dev e) < 16 \<and> (\<forall>c \<in> set (ae_dev e). \<not> is_space c)"

definition arp_text :: "string \<Rightarrow> arp_entry list \<Rightarrow> string" where
  "arp_text header es = concat (map (\<lambda>l. l @ [CHR 0x0A]) (header # map arp_row es))"

subsection \<open>Reading them\<close>

lemma is_space_digit: "d < 10 \<Longrightarrow> \<not> is_space (digit_char d)"
  by (auto simp: is_space_def)

lemma show_nat_no_space: "\<forall>c \<in> set (show_nat n). \<not> is_space c"
  using show_nat_digits is_space_digit by blast

lemma set_join_with: "c \<in> set (join_with s ss) \<Longrightarrow> c = s \<or> (\<exists>w \<in> set ss. c \<in> set w)"
  by (induction s ss rule: join_with.induct) auto

lemma show_ipv4_no_space: "\<forall>c \<in> set (show_ipv4 a). \<not> is_space c"
proof
  fix c assume "c \<in> set (show_ipv4 a)"
  then have "c = CHR ''.'' \<or> (\<exists>n. c \<in> set (show_nat n))"
    unfolding show_ipv4_def using set_join_with by fastforce
  then show "\<not> is_space c"
    using show_nat_no_space by (auto simp: is_space_def)
qed

lemma is_space_hex: "d < 16 \<Longrightarrow> \<not> is_space (hex_char d)"
  by (auto simp: is_space_def of_char_hex_char)

lemma show_mac_no_space: "\<forall>c \<in> set (show_mac m). \<not> is_space c"
proof
  fix c assume "c \<in> set (show_mac m)"
  then have "c = CHR '':'' \<or> (\<exists>b. c \<in> set (show_hex8 b))"
    unfolding show_mac_def using set_join_with by fastforce
  then consider "c = CHR '':''" | b where "c = hex_char (unat (b :: u8) div 16)"
    | b where "c = hex_char (unat (b :: u8) mod 16)"
    by (auto simp: show_hex8_def)
  then show "\<not> is_space c"
  proof cases
    case (2 b)
    have "unat b div 16 < 16" using unat_u8_less [of b] by simp
    with 2 show ?thesis by (simp add: is_space_hex)
  qed (simp_all add: is_space_hex, simp add: is_space_def)
qed

lemma show_nat_length: "n < 10 ^ k \<Longrightarrow> 0 < k \<Longrightarrow> length (show_nat n) \<le> k"
proof (induction k arbitrary: n)
  case (Suc k)
  show ?case
  proof (cases "n < 10")
    case True
    then show ?thesis by (subst show_nat.simps) simp
  next
    case False
    then have "0 < k" "n div 10 < 10 ^ k" using Suc.prems by (auto intro: gr0I)
    with Suc.IH [of "n div 10"] show ?thesis by (subst show_nat.simps) simp
  qed
qed simp

lemma show_ipv4_length: "length a = 4 \<Longrightarrow> length (show_ipv4 a) \<le> 15"
proof -
  assume "length a = 4"
  then obtain b c d e where a: "a = [b, c, d, e]" by (auto simp: length_Suc_conv numeral_eq_Suc)
  have "length (show_nat (unat x)) \<le> 3" for x :: u8
    using unat_u8_less [of x] by (intro show_nat_length) simp_all
  from this [of b] this [of c] this [of d] this [of e] show ?thesis
    by (simp add: a show_ipv4_def)
qed

lemma show_ipv4_not_Nil: "length a = 4 \<Longrightarrow> show_ipv4 a \<noteq> []"
  using parse_ipv4_show [of a] by (auto simp: parse_ipv4_def)

lemma show_mac_not_Nil: "length m = 6 \<Longrightarrow> show_mac m \<noteq> []"
  using ParseMAC_show [of m] by (auto simp: ParseMAC_def)

lemma fields_pad:
  assumes "w \<noteq> []" "\<forall>c \<in> set w. \<not> is_space c" "length w < n"
  shows "str_fields (pad n w @ s) = w # str_fields s"
proof -
  have sp: "is_space (CHR '' '')" by (simp add: is_space_def)
  obtain k where k: "n - length w = Suc k" using assms(3) by (cases "n - length w") auto
  have "str_fields (w @ CHR '' '' # replicate k (CHR '' '') @ s) = w # str_fields (replicate k (CHR '' '') @ s)"
    using assms sp by (intro fields_token_space)
  also have "str_fields (replicate k (CHR '' '') @ s) = str_fields s"
    using sp by (intro fields_leading_spaces) simp
  finally show ?thesis by (simp add: pad_def k)
qed

lemma fields_arp_row:
  assumes "arp_entry_ok e"
  shows "str_fields (arp_row e) =
    [show_ipv4 (ae_ip e), ''0x1'', ae_flags e, show_mac (ae_mac e), ''*'', ae_dev e]"
proof -
  have sp: "is_space (CHR '' '')" by (simp add: is_space_def)
  have lead: "str_fields ('' '' @ s) = str_fields s" "str_fields (''    '' @ s) = str_fields s" for s
    using sp fields_leading_spaces [of "'' ''" s] fields_leading_spaces [of "''    ''" s] by simp_all
  have mac: "str_fields (show_mac (ae_mac e) @ CHR '' '' # s) = show_mac (ae_mac e) # str_fields s" for s
    using assms sp show_mac_no_space show_mac_not_Nil
    by (intro fields_token_space) (auto simp: arp_entry_ok_def)
  have "str_fields (arp_row e) = show_ipv4 (ae_ip e) # str_fields ('' '' @ pad 12 ''0x1'' @ pad 12 (ae_flags e)
     @ show_mac (ae_mac e) @ ''     '' @ pad 8 ''*'' @ '' '' @ ae_dev e)"
    unfolding arp_row_def using assms show_ipv4_no_space show_ipv4_not_Nil show_ipv4_length
    by (intro fields_pad) (auto simp: arp_entry_ok_def less_Suc_eq_le [symmetric])
  also have "str_fields ('' '' @ pad 12 ''0x1'' @ pad 12 (ae_flags e)
     @ show_mac (ae_mac e) @ ''     '' @ pad 8 ''*'' @ '' '' @ ae_dev e) =
     [''0x1'', ae_flags e, show_mac (ae_mac e), ''*'', ae_dev e]"
    unfolding lead using assms mac [of "''    '' @ pad 8 ''*'' @ '' '' @ ae_dev e"]
    by (simp add: fields_pad lead [simplified] fields_token arp_entry_ok_def is_space_def)
  finally show ?thesis .
qed

lemma arp_row_chars: "arp_entry_ok e \<Longrightarrow> c \<in> set (arp_row e) \<Longrightarrow> c \<noteq> CHR 0x0A \<and> c \<noteq> CHR 0x0D"
  using show_ipv4_no_space [of "ae_ip e"] show_mac_no_space [of "ae_mac e"]
  by (auto simp: arp_row_def pad_def arp_entry_ok_def is_space_def)

lemma length_arp_row: "arp_entry_ok e \<Longrightarrow> length (arp_row e) < 200"
  using show_ipv4_length [of "ae_ip e"]
  by (simp add: arp_row_def pad_def arp_entry_ok_def length_show_mac)

lemma split_lines:
  "\<forall>l \<in> set ls. CHR 0x0A \<notin> set l \<Longrightarrow>
   split_on (CHR 0x0A) (concat (map (\<lambda>l. l @ [CHR 0x0A]) ls)) = ls @ [[]]"
proof (induction ls)
  case Nil
  then show ?case by simp
next
  case (Cons l ls)
  then show ?case
    using split_on_append [of "CHR 0x0A" l "concat (map (\<lambda>l. l @ [CHR 0x0A]) ls)"] by simp
qed

lemma scan_lines_text:
  assumes "\<forall>l \<in> set ls. CHR 0x0A \<notin> set l \<and> length l < 65536 \<and> (l = [] \<or> last l \<noteq> CHR 0x0D)"
  shows "scan_lines (concat (map (\<lambda>l. l @ [CHR 0x0A]) ls)) = ls"
proof -
  have cr: "map drop_cr ls = ls"
    using assms by (intro map_idI) (auto simp: drop_cr_def)
  have fit: "takeWhile (\<lambda>l. length l < 65536) ls = ls"
    using assms by (auto simp: takeWhile_eq_all_conv)
  have "split_on (CHR 0x0A) (concat (map (\<lambda>l. l @ [CHR 0x0A]) ls)) = ls @ [[]]"
    using assms by (intro split_lines) simp
  then show ?thesis by (simp add: scan_lines_def Let_def cr fit)
qed

lemma read_rows_kernel:
  "\<forall>e \<in> set es. arp_entry_ok e \<Longrightarrow>
   read_rows (map arp_row es) t = Ok (t ++ map_of (rev (map (\<lambda>e. (show_ipv4 (ae_ip e), ae_mac e)) es)))"
proof (induction es arbitrary: t)
  case Nil
  then show ?case by simp
next
  case (Cons e es)
  then have "ParseMAC (show_mac (ae_mac e)) = Some (ae_mac e)" "length (ae_mac e) = 6"
    by (simp_all add: ParseMAC_show arp_entry_ok_def)
  moreover have "t ++ map_of (rev (map f (e # es))) = t(fst (f e) \<mapsto> snd (f e)) ++ map_of (rev (map f es))"
    for f :: "arp_entry \<Rightarrow> string \<times> mac"
    by (cases "f e") simp
  note this [of "\<lambda>e. (show_ipv4 (ae_ip e), ae_mac e)"]
  ultimately show ?case
    using Cons by (simp add: fields_arp_row del: fun_upd_apply map_add_upd_left)
qed

lemma readTable_kernel:
  assumes "\<forall>e \<in> set es. arp_entry_ok e"
    and "CHR 0x0A \<notin> set header" "length header < 65536" "header = [] \<or> last header \<noteq> CHR 0x0D"
  shows "readTable (Some (arp_text header es)) =
    Ok (map_of (rev (map (\<lambda>e. (show_ipv4 (ae_ip e), ae_mac e)) es)))"
proof -
  have "CHR 0x0A \<notin> set l \<and> length l < 65536 \<and> (l = [] \<or> last l \<noteq> CHR 0x0D)"
    if l: "l \<in> set (header # map arp_row es)" for l
  proof (cases "l = header")
    case True
    with assms(2-4) show ?thesis by simp
  next
    case False
    then obtain e where e: "e \<in> set es" "l = arp_row e" using l by auto
    then have ok: "arp_entry_ok e" using assms(1) by simp
    have "l = [] \<or> last l \<in> set l" by (cases "l = []") simp_all
    then show ?thesis
      using arp_row_chars [OF ok] length_arp_row [OF ok] e(2) by auto
  qed
  then have "scan_lines (arp_text header es) = header # map arp_row es"
    unfolding arp_text_def by (intro scan_lines_text) simp
  then show ?thesis
    using assms(1) by (simp add: readTable_def read_rows_kernel)
qed

subsection \<open>Properties\<close>

text \<open>
  C28. Reading the table that the kernel prints: for any neighbours, \<open>MustInit\<close> returns and
  \<open>Reload\<close> succeeds, and \<open>Get\<close> of a dotted address then gives the hardware address of the last
  row with that address, and nothing for an address without a row. The flags of a row play no
  part, so that the zero address of an incomplete entry is given like any other.
\<close>

theorem arp_roundtrip:
  assumes "\<forall>e \<in> set es. arp_entry_ok e"
    and "CHR 0x0A \<notin> set header" "length header < 65536" "header = [] \<or> last header \<noteq> CHR 0x0D"
  shows "\<exists>t. arp_MustInit (Some (arp_text header es)) = Ok t
    \<and> arp_Reload (Some (arp_text header es)) old = Ok (None, t)
    \<and> (\<forall>a. length a = 4 \<longrightarrow> arp_Get t (show_ipv4 a) =
          (case filter (\<lambda>e. ae_ip e = a) es of [] \<Rightarrow> None | e # es' \<Rightarrow> Some (ae_mac (last (e # es')))))"
proof -
  let ?t = "map_of (rev (map (\<lambda>e. (show_ipv4 (ae_ip e), ae_mac e)) es))"
  have inj: "show_ipv4 a = show_ipv4 b \<longleftrightarrow> a = b" if "length a = 4" "length b = 4" for a b :: ip
    using parse_ipv4_show [OF that(1)] parse_ipv4_show [OF that(2)] by (metis option.inject)
  have "?t (show_ipv4 a) =
      (case filter (\<lambda>e. ae_ip e = a) es of [] \<Rightarrow> None | e # es' \<Rightarrow> Some (ae_mac (last (e # es'))))"
    if a: "length a = 4" for a
    using assms(1)
  proof (induction es)
    case Nil
    then show ?case by simp
  next
    case (Cons e es)
    then have "length (ae_ip e) = 4" by (simp add: arp_entry_ok_def)
    from inj [OF a this] have eq: "show_ipv4 a = show_ipv4 (ae_ip e) \<longleftrightarrow> ae_ip e = a" by blast
    let ?m = "map_of (rev (map (\<lambda>e. (show_ipv4 (ae_ip e), ae_mac e)) es)) (show_ipv4 a)"
    have step: "map_of (rev (map (\<lambda>e. (show_ipv4 (ae_ip e), ae_mac e)) (e # es))) (show_ipv4 a) =
        (case ?m of Some m \<Rightarrow> Some m | None \<Rightarrow> if ae_ip e = a then Some (ae_mac e) else None)"
      using eq by (simp add: map_add_def split: option.split)
    have "?m = (case filter (\<lambda>e. ae_ip e = a) es of [] \<Rightarrow> None | e # es' \<Rightarrow> Some (ae_mac (last (e # es'))))"
      using Cons by simp
    then show ?case unfolding step by (cases "filter (\<lambda>e. ae_ip e = a) es") simp_all
  qed
  then show ?thesis
    using readTable_kernel [OF assms] by (auto simp: arp_MustInit_def arp_Reload_def arp_Get_def)
qed

definition sample_entries :: "arp_entry list" where
  "sample_entries =
     [\<lparr>ae_ip = [10, 0, 0, 1], ae_flags = ''0x2'', ae_mac = [2, 0, 0, 0, 0, 1], ae_dev = ''eth0''\<rparr>,
      \<lparr>ae_ip = [10, 0, 0, 9], ae_flags = ''0x0'', ae_mac = [0, 0, 0, 0, 0, 0], ae_dev = ''eth0''\<rparr>]"

theorem arp_roundtrip_witness:
  "\<exists>t. arp_MustInit (Some (arp_text ''IP address'' sample_entries)) = Ok t
     \<and> arp_Reload (Some (arp_text ''IP address'' sample_entries)) Map.empty = Ok (None, t)
     \<and> arp_Get t (show_ipv4 [10, 0, 0, 9]) = Some [0, 0, 0, 0, 0, 0]"
proof -
  have "\<forall>e \<in> set sample_entries. arp_entry_ok e"
    by (simp add: sample_entries_def arp_entry_ok_def is_space_def)
  from arp_roundtrip [OF this, of "''IP address''" Map.empty]
  obtain t where "arp_MustInit (Some (arp_text ''IP address'' sample_entries)) = Ok t"
      "arp_Reload (Some (arp_text ''IP address'' sample_entries)) Map.empty = Ok (None, t)"
      "\<forall>a. length a = 4 \<longrightarrow> arp_Get t (show_ipv4 a) =
          (case filter (\<lambda>e. ae_ip e = a) sample_entries of [] \<Rightarrow> None | e # es' \<Rightarrow> Some (ae_mac (last (e # es'))))"
    by auto
  then show ?thesis by (intro exI [of _ t]) (simp add: sample_entries_def)
qed

text \<open>
  A failed reload leaves the table as it was; a line of fewer than four words does not fail, it
  panics, whatever stands in the lines after it.
\<close>

lemma arp_Reload_keeps: "arp_Reload file t = Ok (Some e, t') \<Longrightarrow> t' = t"
  by (auto simp: arp_Reload_def split: res.splits)

lemma arp_short_line_panics:
  "length (str_fields l) < 4 \<Longrightarrow> read_rows (l # ls) t = Panic Index_Out_Of_Range"
  by simp

end
