(* ===== verification/Ebpf_Objects.thy ===== *)
theory Ebpf_Objects
  imports Prelude
begin

section \<open>The generated bindings of the eBPF objects\<close>

text \<open>
  The generated bindings (\<open>xdpsipbench_bpfel.go\<close>, and \<open>xdpsipbench_bpfeb.go\<close> for the other byte order, which differs
  in the embedded file only): whether the embedded file can be read and whether the kernel takes the
  objects are arguments. A list of closers is closed up to the first error.
\<close>

datatype load_error = Err_Spec | Err_Assign

definition loadXdpsipbench :: "bool \<Rightarrow> load_error option" where
  "loadXdpsipbench spec_ok = (if spec_ok then None else Some Err_Spec)"

definition loadXdpsipbenchObjects :: "bool \<Rightarrow> bool \<Rightarrow> load_error option" where
  "loadXdpsipbenchObjects spec_ok assign_ok =
     (case loadXdpsipbench spec_ok of
        Some e \<Rightarrow> Some e
      | None \<Rightarrow> (if assign_ok then None else Some Err_Assign))"

datatype 'l close_event = Close_Link 'l | Close_Program | Close_Map

fun XdpsipbenchClose :: "('l close_event list \<times> bool) list \<Rightarrow> 'l close_event list \<times> bool" where
  "XdpsipbenchClose [] = ([], True)"
| "XdpsipbenchClose ((events, ok) # closers) =
     (if \<not> ok then (events, False)
      else case XdpsipbenchClose closers of (events', ok') \<Rightarrow> (events @ events', ok'))"

definition programs_Close :: "bool \<Rightarrow> 'l close_event list \<times> bool" where
  "programs_Close ok = XdpsipbenchClose [([Close_Program], ok)]"

definition maps_Close :: "bool \<Rightarrow> 'l close_event list \<times> bool" where
  "maps_Close ok = XdpsipbenchClose [([Close_Map], ok)]"

definition objects_Close :: "bool \<Rightarrow> bool \<Rightarrow> 'l close_event list \<times> bool" where
  "objects_Close pc mc = XdpsipbenchClose [programs_Close pc, maps_Close mc]"

text \<open>If the program cannot be closed, the map stays open.\<close>

lemma objects_Close_events:
  "objects_Close pc mc = (Close_Program # (if pc then [Close_Map] else []), pc \<and> mc)"
  by (simp add: objects_Close_def programs_Close_def maps_Close_def)

end
