(* ===== verification/Ebpf.thy ===== *)
theory Ebpf
  imports Ebpf_Objects Prelude "HOL-Library.Sublist" "HOL-Library.AList"
begin

section \<open>Counting received packets (\<open>ebpf/\<close>)\<close>

text \<open>
  The XDP program of \<open>ebpf/src/xdp_sipbench.c\<close> counts the UDP packets whose destination port is a
  key of the map \<open>rules\<close>; \<open>Manager\<close> registers ports there and reads the counters back. The map
  lives in the kernel: its operations are arguments of the definitions, gathered in the record
  \<open>map_ops\<close>, and the locale \<open>rules_map\<close> says what they promise.
\<close>

subsection \<open>The map \<open>rules\<close>\<close>

record rtp_info =
  info_bytes :: u64
  info_pkts :: u64

definition zero_info :: rtp_info where
  "zero_info = \<lparr>info_bytes = 0, info_pkts = 0\<rparr>"

datatype map_error = ErrKeyNotExist | Map_Failure

text \<open>
  \<open>Lookup\<close> gives an error or a value; \<open>BatchUpdate\<close> and \<open>BatchDelete\<close> an error, if any, and the
  map afterwards, in which some of the keys may already be treated when there is an error. These
  are system calls; \<open>op_elem\<close> is the program's \<open>bpf_map_lookup_elem\<close> and \<open>op_add\<close> its two atomic
  additions to the bytes and packets of an element.
\<close>

record 's map_ops =
  op_Lookup :: "'s \<Rightarrow> u64 \<Rightarrow> map_error + rtp_info"
  op_BatchUpdate :: "'s \<Rightarrow> u64 list \<Rightarrow> rtp_info list \<Rightarrow> map_error option \<times> 's"
  op_BatchDelete :: "'s \<Rightarrow> u64 list \<Rightarrow> map_error option \<times> 's"
  op_elem :: "'s \<Rightarrow> u64 \<Rightarrow> rtp_info option"
  op_add :: "'s \<Rightarrow> u64 \<Rightarrow> u64 \<Rightarrow> u64 \<Rightarrow> 's"

subsection \<open>\<open>Manager\<close>\<close>

text \<open>
  \<open>htons\<close> reads the two bytes of the number, which a little-endian machine stores low byte first,
  as a big-endian number.
\<close>

definition htons :: "u16 \<Rightarrow> u16" where
  "htons i = be16 (lo8 i) (hi8 i)"

definition port_key :: "u16 \<Rightarrow> u64" where
  "port_key port = ucast (htons port)"

definition ebpf_Update :: "'s map_ops \<Rightarrow> u16 list \<Rightarrow> 's \<Rightarrow> map_error option \<times> 's" where
  "ebpf_Update ops ports s =
     op_BatchUpdate ops s (map port_key ports) (replicate (length ports) zero_info)"

text \<open>
  The loop of \<open>LookupAndDelete\<close>: the keys that were found and the slice of results, in which a
  port that was not found keeps the zero value.
\<close>

fun lookup_loop ::
  "'s map_ops \<Rightarrow> 's \<Rightarrow> nat \<Rightarrow> u16 list \<Rightarrow> u64 list \<Rightarrow> rtp_info list \<Rightarrow> u64 list \<times> rtp_info list" where
  "lookup_loop ops s i [] keys infos = (keys, infos)"
| "lookup_loop ops s i (port # ports) keys infos =
     (let key = port_key port
      in case op_Lookup ops s key of
           Inl e \<Rightarrow> lookup_loop ops s (i + 1) ports keys infos
         | Inr v \<Rightarrow> lookup_loop ops s (i + 1) ports (keys @ [key]) (infos[i := v]))"

definition LookupAndDelete ::
  "'s map_ops \<Rightarrow> u16 list \<Rightarrow> 's \<Rightarrow> rtp_info list \<times> map_error option \<times> 's" where
  "LookupAndDelete ops ports s =
     (let (keys, infos) = lookup_loop ops s 0 ports [] (replicate (length ports) zero_info)
      in (infos, op_BatchDelete ops s keys))"

text \<open>
  \<open>New\<close> and \<open>BindInterfaces\<close>: the calls of the eBPF library are arguments. \<open>attach\<close> takes the
  interface and whether the generic mode is asked for; its error is a text, whose end decides
  whether the generic mode is tried. The links made so far stay in the manager on an error.
\<close>

record 'l Manager =
  m_links :: "'l list"

datatype manager_error = Err_Rlimit | Err_Load load_error | Err_Attach int

definition Manager_New :: "bool \<Rightarrow> bool \<Rightarrow> bool \<Rightarrow> manager_error + 'l Manager" where
  "Manager_New rlimit_ok spec_ok assign_ok =
     (if \<not> rlimit_ok then Inl Err_Rlimit
      else case loadXdpsipbenchObjects spec_ok assign_ok of
        Some e \<Rightarrow> Inl (Err_Load e)
      | None \<Rightarrow> Inr \<lparr>m_links = []\<rparr>)"

fun BindInterfaces ::
  "(int \<Rightarrow> bool \<Rightarrow> string + 'l) \<Rightarrow> int list \<Rightarrow> 'l Manager \<Rightarrow> manager_error option \<times> 'l Manager" where
  "BindInterfaces attach [] m = (None, m)"
| "BindInterfaces attach (ifindex # ifs) m =
     (case attach ifindex False of
        Inr l \<Rightarrow> BindInterfaces attach ifs (m\<lparr>m_links := m_links m @ [l]\<rparr>)
      | Inl err \<Rightarrow>
          (if \<not> suffix ''operation not supported'' err then (Some (Err_Attach ifindex), m)
           else case attach ifindex True of
             Inr l \<Rightarrow> BindInterfaces attach ifs (m\<lparr>m_links := m_links m @ [l]\<rparr>)
           | Inl err' \<Rightarrow> (Some (Err_Attach ifindex), m)))"

text \<open>\<open>Close\<close> detaches every link, whatever that returns, and closes the objects, whose error it returns.\<close>

definition Manager_Close :: "bool \<Rightarrow> bool \<Rightarrow> 'l Manager \<Rightarrow> 'l close_event list \<times> bool" where
  "Manager_Close pc mc m =
     (case objects_Close pc mc of (events, ok) \<Rightarrow> (map Close_Link (m_links m) @ events, ok))"

lemma Manager_Close_events:
  "Manager_Close pc mc m =
     (map Close_Link (m_links m) @ Close_Program # (if pc then [Close_Map] else []), pc \<and> mc)"
  by (simp add: Manager_Close_def objects_Close_events)

subsection \<open>The XDP program\<close>

datatype xdp_action = XDP_DROP | XDP_PASS

text \<open>
  The frame is the list of its bytes. A 16-bit field of the packet that the program reads without
  conversion is the little-endian number of its bytes.
\<close>

definition raw16 :: "bytes \<Rightarrow> nat \<Rightarrow> u16" where
  "raw16 data k = be16 (data ! (k + 1)) (data ! k)"

definition xdp_prog :: "'s map_ops \<Rightarrow> bytes \<Rightarrow> 's \<Rightarrow> xdp_action \<times> 's" where
  "xdp_prog ops data s =
     (if length data < 14 then (XDP_DROP, s)
      else if get_be16 12 data \<noteq> 0x0800 then (XDP_PASS, s)
      else if length data < 34 then (XDP_DROP, s)
      else if data ! 14 AND 0x0F \<noteq> 5 then (XDP_DROP, s)
      else if data ! 22 = 0 \<or> data ! 23 \<noteq> 17 then (XDP_PASS, s)
      else if length data < 42 then (XDP_DROP, s)
      else
        (let key = ucast (raw16 data 36)
         in case op_elem ops s key of
              None \<Rightarrow> (XDP_PASS, s)
            | Some v \<Rightarrow> (XDP_DROP, op_add ops s key (ucast (get_be16 38 data)) 1)))"

fun xdp_run :: "'s map_ops \<Rightarrow> bytes list \<Rightarrow> 's \<Rightarrow> 's" where
  "xdp_run ops [] s = s"
| "xdp_run ops (p # ps) s = xdp_run ops ps (snd (xdp_prog ops p s))"

subsection \<open>What the kernel's map promises\<close>

text \<open>
  The contents of the map are what \<open>op_elem\<close> sees. A lookup that succeeds gives them, and
  \<open>ErrKeyNotExist\<close> is only given for a key that is absent; a lookup, a batch update and a batch
  delete may fail otherwise, the batches having treated some first keys of theirs.
\<close>

locale rules_map =
  fixes ops :: "'s map_ops"
  assumes lookup_Inr: "op_Lookup ops s k = Inr v \<Longrightarrow> op_elem ops s k = Some v"
    and lookup_absent: "op_Lookup ops s k = Inl ErrKeyNotExist \<Longrightarrow> op_elem ops s k = None"
    and update_ok: "op_BatchUpdate ops s ks vs = (None, s') \<Longrightarrow> length ks = length vs \<Longrightarrow>
      op_elem ops s' = op_elem ops s ++ map_of (rev (zip ks vs))"
    and update_failed: "op_BatchUpdate ops s ks vs = (Some e, s') \<Longrightarrow> length ks = length vs \<Longrightarrow>
      \<exists>n. op_elem ops s' = op_elem ops s ++ map_of (rev (take n (zip ks vs)))"
    and delete_ok: "op_BatchDelete ops s ks = (None, s') \<Longrightarrow> op_elem ops s' = op_elem ops s |` (- set ks)"
    and delete_failed: "op_BatchDelete ops s ks = (Some e, s') \<Longrightarrow>
      \<exists>n. op_elem ops s' = op_elem ops s |` (- set (take n ks))"
    and add_present: "op_elem ops s k = Some v \<Longrightarrow>
      op_elem ops (op_add ops s k b p) =
        (op_elem ops s)(k \<mapsto> \<lparr>info_bytes = info_bytes v + b, info_pkts = info_pkts v + p\<rparr>)"
begin

text \<open>Only the registered ports are touched, on every outcome.\<close>

lemma lookup_loop_keys:
  "set (fst (lookup_loop ops s i ports keys infos)) \<subseteq> set keys \<union> port_key ` set ports"
  by (induction ops s i ports keys infos rule: lookup_loop.induct)
    (auto simp: Let_def split: sum.splits)

lemma LookupAndDelete_frame:
  assumes "LookupAndDelete ops ports s = (infos, e, s')" and "k \<notin> port_key ` set ports"
  shows "op_elem ops s' k = op_elem ops s k"
proof -
  obtain keys where keys: "keys = fst (lookup_loop ops s 0 ports [] (replicate (length ports) zero_info))"
    by simp
  then have del: "op_BatchDelete ops s keys = (e, s')"
    using assms(1) by (simp add: LookupAndDelete_def split: prod.splits)
  have sub: "set keys \<subseteq> port_key ` set ports"
    using lookup_loop_keys [of s 0 ports "[]"] keys by simp
  show ?thesis
  proof (cases e)
    case None
    with delete_ok [of s keys s'] del sub assms(2) show ?thesis
      by (auto simp: restrict_map_def)
  next
    case (Some e')
    then obtain n where "op_elem ops s' = op_elem ops s |` (- set (take n keys))"
      using delete_failed [of s keys e' s'] del by auto
    then show ?thesis using sub assms(2) set_take_subset [of n keys] by (auto simp: restrict_map_def)
  qed
qed

end

lemma length_lookup_loop [simp]: "length (snd (lookup_loop ops s i ports keys infos)) = length infos"
  by (induction ops s i ports keys infos rule: lookup_loop.induct) (auto simp: Let_def split: sum.splits)

lemma LookupAndDelete_length: "length (fst (LookupAndDelete ops ports s)) = length ports"
  by (simp add: LookupAndDelete_def case_prod_beta)

subsection \<open>Keys\<close>

lemma htons_htons: "htons (htons p) = p"
  by (simp add: htons_def)

lemma unat_port_key: "unat (port_key p) = unat (htons p)"
  using unat_u16_less [of "htons p"] by (simp add: port_key_def unsigned_ucast_eq take_bit_nat_eq_self)

lemma port_key_inj: "port_key p = port_key q \<longleftrightarrow> p = q"
proof
  assume "port_key p = port_key q"
  then have "unat (htons p) = unat (htons q)" by (metis unat_port_key)
  then have "htons p = htons q" by (rule unsigned_word_eqI)
  then show "p = q" by (metis htons_htons)
qed simp

lemma htons_get_be16: "htons (get_be16 k data) = raw16 data k"
  by (simp add: htons_def get_be16_def raw16_def)

text \<open>The packets that count for a port: UDP over IPv4 without options, long enough.\<close>

definition counted :: "u16 \<Rightarrow> bytes \<Rightarrow> bool" where
  "counted port data \<longleftrightarrow>
     length data \<ge> 42 \<and> get_be16 12 data = 0x0800 \<and> data ! 14 AND 0x0F = 5
     \<and> data ! 22 \<noteq> 0 \<and> data ! 23 = 17 \<and> get_be16 36 data = port"

definition udp_len :: "bytes \<Rightarrow> nat" where
  "udp_len data = unat (get_be16 38 data)"

definition totals :: "u16 \<Rightarrow> bytes list \<Rightarrow> rtp_info" where
  "totals port frames =
     (let fs = filter (counted port) frames
      in \<lparr>info_bytes = word_of_nat (sum_list (map udp_len fs)), info_pkts = word_of_nat (length fs)\<rparr>)"

definition plus_info :: "rtp_info \<Rightarrow> rtp_info \<Rightarrow> rtp_info" where
  "plus_info a b = \<lparr>info_bytes = info_bytes a + info_bytes b, info_pkts = info_pkts a + info_pkts b\<rparr>"

lemma plus_zero_info [simp]: "plus_info zero_info a = a"
  by (simp add: plus_info_def zero_info_def)

lemma plus_info_zero [simp]: "plus_info a zero_info = a"
  by (simp add: plus_info_def zero_info_def)

context rules_map
begin

lemma xdp_prog_elem:
  "op_elem ops (snd (xdp_prog ops data s)) (port_key port) =
     map_option (\<lambda>v. plus_info v (totals port [data])) (op_elem ops s (port_key port))"
proof (cases "length data \<ge> 42 \<and> get_be16 12 data = 0x0800 \<and> data ! 14 AND 0x0F = 5
     \<and> data ! 22 \<noteq> 0 \<and> data ! 23 = 17")
  case False
  then have "snd (xdp_prog ops data s) = s" "totals port [data] = zero_info"
    by (auto simp: xdp_prog_def totals_def zero_info_def counted_def)
  then show ?thesis by (simp add: option.map_ident)
next
  case True
  let ?key = "port_key (get_be16 36 data)"
  have key: "ucast (raw16 data 36) = ?key" by (simp add: port_key_def htons_get_be16)
  have run: "snd (xdp_prog ops data s) =
      (case op_elem ops s ?key of None \<Rightarrow> s | Some v \<Rightarrow> op_add ops s ?key (ucast (get_be16 38 data)) 1)"
    using True by (auto simp: xdp_prog_def Let_def key split: option.split)
  show ?thesis
  proof (cases "port = get_be16 36 data")
    case eq: True
    then have "totals port [data] = \<lparr>info_bytes = ucast (get_be16 38 data), info_pkts = 1\<rparr>"
      using True by (simp add: totals_def counted_def udp_len_def)
    then show ?thesis
      using eq add_present [of s ?key] by (auto simp: run plus_info_def split: option.split)
  next
    case neq: False
    then have "totals port [data] = zero_info"
      by (simp add: totals_def counted_def zero_info_def)
    moreover have "?key \<noteq> port_key port" using neq by (simp add: port_key_inj)
    ultimately show ?thesis
      using add_present [of s ?key]
      by (auto simp: run option.map_ident split: option.split)
  qed
qed

lemma totals_Cons: "totals port (f # fs) = plus_info (totals port [f]) (totals port fs)"
  by (simp add: totals_def plus_info_def Let_def)

lemma plus_info_assoc: "plus_info (plus_info a b) c = plus_info a (plus_info b c)"
  by (simp add: plus_info_def add.assoc)

lemma xdp_run_elem:
  "op_elem ops (xdp_run ops frames s) (port_key port) =
     map_option (\<lambda>v. plus_info v (totals port frames)) (op_elem ops s (port_key port))"
proof (induction frames arbitrary: s)
  case Nil
  then show ?case by (cases "op_elem ops s (port_key port)") (simp_all add: totals_def plus_info_def)
next
  case (Cons f frames)
  have "(\<lambda>v. plus_info (plus_info v (totals port [f])) (totals port frames)) =
      (\<lambda>v. plus_info v (totals port (f # frames)))"
    by (simp only: plus_info_assoc totals_Cons [of port f frames])
  then show ?case
    using Cons [of "snd (xdp_prog ops f s)"]
    by (simp add: xdp_prog_elem option.map_comp comp_def)
qed

lemma Update_elem:
  assumes "ebpf_Update ops ports s = (None, s')"
  shows "op_elem ops s' (port_key p) = (if p \<in> set ports then Some zero_info else op_elem ops s (port_key p))"
proof -
  have "op_elem ops s' = op_elem ops s ++
      map_of (rev (zip (map port_key ports) (replicate (length ports) zero_info)))"
    using assms by (intro update_ok) (simp_all add: ebpf_Update_def)
  moreover have "rev (zip (map port_key ports) (replicate (length ports) zero_info)) =
      map (\<lambda>p. (port_key p, zero_info)) (rev ports)"
    by (induction ports) simp_all
  moreover have "map_of (map (\<lambda>p. (port_key p, zero_info)) ps) (port_key p) =
      (if p \<in> set ps then Some zero_info else None)" for ps
    by (induction ps) (auto simp: port_key_inj)
  ultimately show ?thesis by (simp add: map_add_def)
qed

lemma lookup_loop_ok:
  assumes "\<forall>p \<in> set ports. op_Lookup ops s (port_key p) \<noteq> Inl Map_Failure"
    and "length infos = i + length ports" and "drop i infos = replicate (length ports) zero_info"
  shows "lookup_loop ops s i ports keys infos =
    (keys @ map port_key (filter (\<lambda>p. op_elem ops s (port_key p) \<noteq> None) ports),
     take i infos @ map (\<lambda>p. case op_elem ops s (port_key p) of Some v \<Rightarrow> v | None \<Rightarrow> zero_info) ports)"
  using assms
proof (induction ports arbitrary: i keys infos)
  case Nil
  then show ?case by simp
next
  case (Cons p ports)
  from Cons.prems have i: "i < length infos" by simp
  then have hd: "infos ! i = zero_info" "drop (Suc i) infos = replicate (length ports) zero_info"
    using Cons.prems(3) by (simp_all add: Cons_nth_drop_Suc [symmetric])
  have tk: "take (Suc i) (infos[i := v]) = take i infos @ [v]" for v
    using i by (simp add: take_Suc_conv_app_nth)
  have tk0: "take (Suc i) infos = take i infos @ [zero_info]"
    using i hd by (simp add: take_Suc_conv_app_nth)
  show ?case
  proof (cases "op_Lookup ops s (port_key p)")
    case (Inl e)
    with Cons.prems have "e = ErrKeyNotExist" by (cases e) auto
    with Inl lookup_absent have "op_elem ops s (port_key p) = None" by simp
    then show ?thesis using Inl Cons.IH [of infos "i + 1" keys] Cons.prems hd by (simp add: tk0)
  next
    case (Inr v)
    with lookup_Inr have "op_elem ops s (port_key p) = Some v" by simp
    then show ?thesis
      using Inr Cons.IH [of "infos[i := v]" "i + 1" "keys @ [port_key p]"] Cons.prems hd by (simp add: tk)
  qed
qed

end

subsection \<open>A map that keeps the promises\<close>

text \<open>
  The BPF hash map: a list of entries without duplicates, at most \<open>max_entries\<close> of them. A batch
  update stops with an error when it is full, a batch delete at the first absent key.
\<close>

definition max_entries :: nat where "max_entries = 65535"

fun hash_update :: "(u64 \<times> rtp_info) list \<Rightarrow> u64 list \<Rightarrow> rtp_info list \<Rightarrow> map_error option \<times> (u64 \<times> rtp_info) list" where
  "hash_update es (k # ks) (v # vs) =
     (if map_of es k = None \<and> length es \<ge> max_entries then (Some Map_Failure, es)
      else hash_update (AList.update k v es) ks vs)"
| "hash_update es ks vs = (None, es)"

fun hash_delete :: "(u64 \<times> rtp_info) list \<Rightarrow> u64 list \<Rightarrow> map_error option \<times> (u64 \<times> rtp_info) list" where
  "hash_delete es [] = (None, es)"
| "hash_delete es (k # ks) =
     (if map_of es k = None then (Some ErrKeyNotExist, es) else hash_delete (AList.delete k es) ks)"

definition hash_ops :: "(u64 \<times> rtp_info) list map_ops" where
  "hash_ops =
     \<lparr>op_Lookup = (\<lambda>es k. case map_of es k of Some v \<Rightarrow> Inr v | None \<Rightarrow> Inl ErrKeyNotExist),
      op_BatchUpdate = hash_update, op_BatchDelete = hash_delete, op_elem = map_of,
      op_add = (\<lambda>es k b p. case map_of es k of
         Some v \<Rightarrow> AList.update k \<lparr>info_bytes = info_bytes v + b, info_pkts = info_pkts v + p\<rparr> es
       | None \<Rightarrow> es)\<rparr>"

lemma hash_update_effect:
  "hash_update es ks vs = (e, es') \<Longrightarrow>
   \<exists>n. (e = None \<longrightarrow> n = length (zip ks vs)) \<and> map_of es' = map_of es ++ map_of (rev (take n (zip ks vs)))"
proof (induction es ks vs rule: hash_update.induct)
  case (1 es k ks v vs)
  show ?case
  proof (cases "map_of es k = None \<and> length es \<ge> max_entries")
    case True
    with "1.prems" show ?thesis by (intro exI [of _ 0]) auto
  next
    case False
    with "1.prems" "1.IH" obtain n where n: "e = None \<longrightarrow> n = length (zip ks vs)"
        "map_of es' = map_of (AList.update k v es) ++ map_of (rev (take n (zip ks vs)))"
      by auto
    then show ?thesis
      by (intro exI [of _ "Suc n"]) (auto simp: update_conv' map_add_upd_left)
  qed
qed (auto intro!: exI [of _ 0])

lemma hash_delete_effect:
  "hash_delete es ks = (e, es') \<Longrightarrow>
   \<exists>n. (e = None \<longrightarrow> n = length ks) \<and> map_of es' = map_of es |` (- set (take n ks))"
proof (induction es ks rule: hash_delete.induct)
  case (1 es)
  then show ?case by (intro exI [of _ 0]) simp
next
  case (2 es k ks)
  show ?case
  proof (cases "map_of es k = None")
    case True
    with "2.prems" show ?thesis by (intro exI [of _ 0]) auto
  next
    case False
    with "2.prems" "2.IH" obtain n where n: "e = None \<longrightarrow> n = length ks"
        "map_of es' = map_of (AList.delete k es) |` (- set (take n ks))"
      by auto
    then show ?thesis
      by (intro exI [of _ "Suc n"]) (auto simp: delete_conv' restrict_map_def fun_eq_iff)
  qed
qed

interpretation hash: rules_map hash_ops
proof unfold_locales
  fix es es' :: "(u64 \<times> rtp_info) list" and k ks vs v e b p
  show "op_Lookup hash_ops es k = Inr v \<Longrightarrow> op_elem hash_ops es k = Some v"
    "op_Lookup hash_ops es k = Inl ErrKeyNotExist \<Longrightarrow> op_elem hash_ops es k = None"
    "op_elem hash_ops es k = Some v \<Longrightarrow> op_elem hash_ops (op_add hash_ops es k b p) =
       (op_elem hash_ops es)(k \<mapsto> \<lparr>info_bytes = info_bytes v + b, info_pkts = info_pkts v + p\<rparr>)"
    by (auto simp: hash_ops_def update_conv' split: option.splits)
  show "op_BatchUpdate hash_ops es ks vs = (None, es') \<Longrightarrow> length ks = length vs \<Longrightarrow>
      op_elem hash_ops es' = op_elem hash_ops es ++ map_of (rev (zip ks vs))"
    using hash_update_effect [of es ks vs None es'] by (auto simp: hash_ops_def)
  show "op_BatchUpdate hash_ops es ks vs = (Some e, es') \<Longrightarrow> length ks = length vs \<Longrightarrow>
      \<exists>n. op_elem hash_ops es' = op_elem hash_ops es ++ map_of (rev (take n (zip ks vs)))"
    using hash_update_effect [of es ks vs "Some e" es'] by (auto simp: hash_ops_def)
  show "op_BatchDelete hash_ops es ks = (None, es') \<Longrightarrow>
      op_elem hash_ops es' = op_elem hash_ops es |` (- set ks)"
    using hash_delete_effect [of es ks None es'] by (auto simp: hash_ops_def)
  show "op_BatchDelete hash_ops es ks = (Some e, es') \<Longrightarrow>
      \<exists>n. op_elem hash_ops es' = op_elem hash_ops es |` (- set (take n ks))"
    using hash_delete_effect [of es ks "Some e" es'] by (auto simp: hash_ops_def)
qed

subsection \<open>Properties\<close>

text \<open>
  C9. The counters are exact. When ports are registered, frames of any kind arrive at the XDP
  program, and the ports are looked up and deleted without a failing lookup, then the results are,
  port by port in the order asked for, the number of UDP packets to that port and the sum of their
  UDP lengths, modulo \<open>2^64\<close>, since the registration; the keys \<open>Manager\<close> computes with \<open>htons\<close>
  are the ones the program reads off the frames. If the deletion succeeds too, no port is left.
\<close>

theorem rx_counters_exact:
  assumes "rules_map ops" and "ebpf_Update ops ports s = (None, s1)"
    and "LookupAndDelete ops ports (xdp_run ops frames s1) = (infos, e, s2)"
    and "\<forall>p \<in> set ports. op_Lookup ops (xdp_run ops frames s1) (port_key p) \<noteq> Inl Map_Failure"
  shows "infos = map (\<lambda>p. totals p frames) ports
    \<and> (e = None \<longrightarrow> (\<forall>p \<in> set ports. op_elem ops s2 (port_key p) = None))"
proof -
  have elem: "op_elem ops (xdp_run ops frames s1) (port_key p) = Some (totals p frames)" if "p \<in> set ports" for p
    using that rules_map.Update_elem [OF assms(1,2)] rules_map.xdp_run_elem [OF assms(1)] by simp
  have loop: "lookup_loop ops (xdp_run ops frames s1) 0 ports [] (replicate (length ports) zero_info) =
      (map port_key ports, map (\<lambda>p. totals p frames) ports)"
    using rules_map.lookup_loop_ok [OF assms(1,4), of "replicate (length ports) zero_info" 0 "[]"] elem
    by (simp add: filter_id_conv [THEN iffD2])
  have infos: "infos = map (\<lambda>p. totals p frames) ports"
      and del: "op_BatchDelete ops (xdp_run ops frames s1) (map port_key ports) = (e, s2)"
    using assms(3) by (simp_all add: LookupAndDelete_def loop)
  have "op_elem ops s2 (port_key p) = None" if "e = None" "p \<in> set ports" for p
    using rules_map.delete_ok [OF assms(1)] del that by (auto simp: restrict_map_def)
  with infos show ?thesis by blast
qed

definition sample_frame :: bytes where
  "sample_frame =
     [0, 0, 0, 0, 0, 0, 0, 0, 0, 0, 0, 0, 8, 0,
      0x45, 0, 0, 38, 0, 0, 0, 0, 64, 17, 0, 0, 10, 0, 0, 1, 10, 0, 0, 2,
      0, 7, 0x4e, 0x20, 0, 18, 0, 0,
      1, 2, 3, 4, 5, 6, 7, 8, 9, 10]"

lemma sample_frame_counted: "counted 20000 sample_frame" "\<not> counted 20001 sample_frame" "udp_len sample_frame = 18"
  by (simp_all add: counted_def sample_frame_def get_be16_def be16_def udp_len_def)

theorem rx_counters_exact_witness:
  "fst (LookupAndDelete hash_ops [20000, 20001] (xdp_run hash_ops [sample_frame, sample_frame]
     (snd (ebpf_Update hash_ops [20000, 20001] [])))) =
   [\<lparr>info_bytes = 36, info_pkts = 2\<rparr>, zero_info]"
proof -
  have upd: "ebpf_Update hash_ops [20000, 20001] [] = (None, snd (ebpf_Update hash_ops [20000, 20001] []))"
    by (simp add: ebpf_Update_def hash_ops_def max_entries_def)
  obtain infos e s2 where lad: "LookupAndDelete hash_ops [20000, 20001] (xdp_run hash_ops
        [sample_frame, sample_frame] (snd (ebpf_Update hash_ops [20000, 20001] []))) = (infos, e, s2)"
    by (metis prod.exhaust)
  have "op_Lookup hash_ops es k \<noteq> Inl Map_Failure" for es k
    by (simp add: hash_ops_def split: option.split)
  then have "infos = map (\<lambda>p. totals p [sample_frame, sample_frame]) [20000, 20001]"
    using rx_counters_exact [OF hash.rules_map_axioms upd lad] by blast
  then show ?thesis
    unfolding lad by (simp add: totals_def sample_frame_counted zero_info_def)
qed

text \<open>
  On every outcome, failing lookups and batches included, \<open>LookupAndDelete\<close> gives as many
  results as it was asked for ports, so that its callers may index them, and leaves every other
  port's counters alone.
\<close>

lemma LookupAndDelete_safe:
  assumes "rules_map ops"
  shows "length (fst (LookupAndDelete ops ports s)) = length ports
    \<and> (\<forall>p. p \<in> set ports
         \<or> op_elem ops (snd (snd (LookupAndDelete ops ports s))) (port_key p) = op_elem ops s (port_key p))"
proof -
  obtain infos e s' where lad: "LookupAndDelete ops ports s = (infos, e, s')"
    by (metis prod.exhaust)
  have "p \<in> set ports \<or> op_elem ops s' (port_key p) = op_elem ops s (port_key p)" for p
    using rules_map.LookupAndDelete_frame [OF assms lad, of "port_key p"]
    by (auto simp: port_key_inj image_iff)
  then show ?thesis using LookupAndDelete_length [of ops ports s] by (simp add: lad)
qed

lemma LookupAndDelete_safe_witness:
  "length (fst (LookupAndDelete hash_ops [20000] [(port_key 20002, zero_info)])) = 1
   \<and> op_elem hash_ops (snd (snd (LookupAndDelete hash_ops [20000] [(port_key 20002, zero_info)]))) (port_key 20002)
       = Some zero_info"
  using LookupAndDelete_safe [OF hash.rules_map_axioms, of "[20000]" "[(port_key 20002, zero_info)]"]
  by (auto simp: hash_ops_def dest: spec [of _ 20002])

end
