(* ===== verification/Bounded_Queue.thy ===== *)
theory Bounded_Queue
  imports Prelude
begin

section \<open>Bounded queues\<close>

text \<open>
  The interface that the rings of a socket and the channels of Go share: a queue of bounded length
  with a count of its elements and of its free places, to which \<open>put\<close> appends when there is room,
  and from which \<open>get\<close> takes the head when it is not empty. What \<open>put\<close> does without room and
  \<open>get\<close> without an element is left to the provider.
\<close>


locale bounded_queue =
  fixes put :: "'d \<Rightarrow> 's \<Rightarrow> ('e, 's) res" and get :: "'s \<Rightarrow> ('e, 'd \<times> 's) res"
    and queue :: "'s \<Rightarrow> 'd list" and inv :: "'s \<Rightarrow> bool" and cap :: nat
    and used :: "'s \<Rightarrow> nat" and free :: "'s \<Rightarrow> nat"
  assumes put_room: "inv s \<Longrightarrow> length (queue s) < cap \<Longrightarrow>
      \<exists>s'. put d s = Ok s' \<and> inv s' \<and> queue s' = queue s @ [d]"
    and get_some: "inv s \<Longrightarrow> queue s \<noteq> [] \<Longrightarrow>
      \<exists>d s'. get s = Ok (d, s') \<and> inv s' \<and> queue s = d # queue s'"
    and used_eq: "inv s \<Longrightarrow> used s = length (queue s)"
    and free_eq: "inv s \<Longrightarrow> free s = cap - length (queue s)"
    and bounded: "inv s \<Longrightarrow> length (queue s) \<le> cap"
begin

text \<open>Several elements: \<open>puts\<close> appends them in order while there is room for all.\<close>

fun puts :: "'d list \<Rightarrow> 's \<Rightarrow> ('e, 's) res" where
  "puts [] s = Ok s"
| "puts (d # ds) s = bind_res (put d s) (puts ds)"

lemma puts_room:
  "inv s \<Longrightarrow> length ds \<le> free s \<Longrightarrow>
   \<exists>s'. puts ds s = Ok s' \<and> inv s' \<and> queue s' = queue s @ ds"
proof (induction ds arbitrary: s)
  case Nil
  then show ?case by simp
next
  case (Cons d ds)
  then have "length (queue s) < cap" using bounded [of s] by (simp add: free_eq)
  with Cons.prems(1) obtain s' where s': "put d s = Ok s'" "inv s'" "queue s' = queue s @ [d]"
    using put_room by blast
  then have "\<exists>s''. puts ds s' = Ok s'' \<and> inv s'' \<and> queue s'' = queue s' @ ds"
    using Cons.prems by (intro Cons.IH) (auto simp: free_eq)
  with s' show ?case by auto
qed

fun gets :: "nat \<Rightarrow> 's \<Rightarrow> ('e, 'd list \<times> 's) res" where
  "gets 0 s = Ok ([], s)"
| "gets (Suc k) s =
     bind_res (get s) (\<lambda>(d, s'). bind_res (gets k s') (\<lambda>(ds, s''). Ok (d # ds, s'')))"

lemma gets_some:
  "inv s \<Longrightarrow> k \<le> used s \<Longrightarrow>
   \<exists>s'. gets k s = Ok (take k (queue s), s') \<and> inv s' \<and> queue s' = drop k (queue s)"
proof (induction k arbitrary: s)
  case 0
  then show ?case by simp
next
  case (Suc k)
  then have "queue s \<noteq> []" by (auto simp: used_eq)
  with Suc.prems(1) obtain d s' where s': "get s = Ok (d, s')" "inv s'" "queue s = d # queue s'"
    using get_some by blast
  moreover obtain s'' where "gets k s' = Ok (take k (queue s'), s'')" "inv s''" "queue s'' = drop k (queue s')"
    using Suc.IH [of s'] Suc.prems s' by (auto simp: used_eq)
  ultimately show ?case by simp
qed

end

end
