(* ===== verification/Xdp_Ring.thy ===== *)
theory Xdp_Ring
  imports Bounded_Queue
begin

section \<open>The rings of an AF\_XDP socket (\<open>pkg/xdp/xdp.go\<close>)\<close>

text \<open>
  A ring is an array shared with the kernel and two free-running 32-bit counters: the producer
  writes at \<open>Producer\<close> and the consumer reads at \<open>Consumer\<close>, both reduced to the size of the
  array, a power of two. This theory has the rings, the counting functions of the socket, and the
  queue that a ring stands for: writing appends to it and reading takes its head, across the
  wrap-around of the counters.
\<close>

subsection \<open>Rings\<close>

text \<open>\<open>umemRing\<close> and \<open>rxTxRing\<close>: the same but for the type of the descriptors.\<close>

record 'd ring =
  Producer :: u32
  Consumer :: u32
  Descs :: "'d list"

record Desc =
  Addr :: u64
  Len :: u32

type_synonym umemRing = "u64 ring"
type_synonym rxTxRing = "Desc ring"

text \<open>\<open>i & uint32(n - 1)\<close>\<close>

definition slot :: "nat \<Rightarrow> u32 \<Rightarrow> nat" where
  "slot n i = unat (i AND (word_of_nat n - 1))"

text \<open>\<open>NumFreeFillSlots\<close> and \<open>NumFreeTxSlots\<close>, \<open>NumReceived\<close> and \<open>NumCompleted\<close>, of a ring.\<close>

definition num_free :: "nat \<Rightarrow> 'd ring \<Rightarrow> nat" where
  "num_free n r =
     (let max = word_of_nat n; k = max - (Producer r - Consumer r) in unat (if k > max then max else k))"

definition num_used :: "nat \<Rightarrow> 'd ring \<Rightarrow> nat" where
  "num_used n r =
     (let max = word_of_nat n; k = Producer r - Consumer r in unat (if k > max then max else k))"

text \<open>
  A store at the producer followed by its increment (as in \<open>txWorker\<close>), and a load at the consumer
  with its increment (as in \<open>Receive\<close>, and as the kernel does on the rings it consumes).
\<close>

definition ring_put :: "nat \<Rightarrow> 'd \<Rightarrow> 'd ring \<Rightarrow> (unit, 'd ring) res" where
  "ring_put n d r =
     (let i = slot n (Producer r)
      in if i < length (Descs r)
         then Ok (r\<lparr>Descs := (Descs r)[i := d], Producer := Producer r + 1\<rparr>)
         else Panic Index_Out_Of_Range)"

definition ring_get :: "nat \<Rightarrow> 'd ring \<Rightarrow> (unit, 'd \<times> 'd ring) res" where
  "ring_get n r =
     (let i = slot n (Consumer r)
      in if i < length (Descs r) then Ok (Descs r ! i, r\<lparr>Consumer := Consumer r + 1\<rparr>)
         else Panic Index_Out_Of_Range)"

subsection \<open>Well-formed rings and their queue\<close>

definition ring_size :: "nat \<Rightarrow> bool" where
  "ring_size n \<longleftrightarrow> (\<exists>k < 32. n = 2 ^ k)"

definition ring_wf :: "nat \<Rightarrow> 'd ring \<Rightarrow> bool" where
  "ring_wf n r \<longleftrightarrow> ring_size n \<and> length (Descs r) = n \<and> unat (Producer r - Consumer r) \<le> n"

definition ring_queue :: "nat \<Rightarrow> 'd ring \<Rightarrow> 'd list" where
  "ring_queue n r =
     map (\<lambda>i. Descs r ! slot n (Consumer r + word_of_nat i)) [0..<unat (Producer r - Consumer r)]"

lemma ring_size_less: "ring_size n \<Longrightarrow> 0 < n \<and> n < 4294967296"
proof -
  assume "ring_size n"
  then obtain k where "k < 32" "n = 2 ^ k" by (auto simp: ring_size_def)
  then have "n < 2 ^ 32" using power_strict_increasing [of k 32 "2 :: nat"] by simp
  with \<open>n = 2 ^ k\<close> show ?thesis by simp
qed

lemma unat_size: "ring_size n \<Longrightarrow> unat (word_of_nat n :: u32) = n"
  using ring_size_less [of n] by (simp add: unsigned_of_nat take_bit_nat_eq_self)

lemma slot_eq: "ring_size n \<Longrightarrow> slot n i = unat i mod n"
proof -
  assume "ring_size n"
  then obtain k where k: "k < 32" "n = 2 ^ k" by (auto simp: ring_size_def)
  then have "(word_of_nat n :: u32) - 1 = mask k"
    by (simp add: mask_eq_exp_minus_1)
  then have "slot n i = unat (take_bit k i)"
    by (simp add: slot_def take_bit_eq_mask)
  also have "\<dots> = unat i mod n"
    by (simp only: k(2) unsigned_take_bit_eq) (rule take_bit_eq_mod)
  finally show ?thesis .
qed

lemma slot_less: "ring_size n \<Longrightarrow> slot n i < n"
  using ring_size_less [of n] by (simp add: slot_eq)

text \<open>The size divides \<open>2^32\<close>, so that the slots go round without a jump when a counter wraps.\<close>

lemma slot_add:
  assumes "ring_size n"
  shows "slot n (c + word_of_nat i) = (unat c + i) mod n"
proof -
  from assms obtain k where k: "k < 32" "n = 2 ^ k" by (auto simp: ring_size_def)
  then have dvd: "n dvd 4294967296"
    using le_imp_power_dvd [of k 32 "2 :: nat"] by simp
  have "unat (c + word_of_nat i) = (unat c + i) mod 4294967296"
    by (simp add: unat_word_ariths unsigned_of_nat take_bit_eq_mod mod_add_right_eq)
  then show ?thesis
    using assms dvd by (simp add: slot_eq mod_mod_cancel)
qed

lemma slot_inj:
  assumes "ring_size n" "i < n" "j < n" "slot n (c + word_of_nat i) = slot n (c + word_of_nat j)"
  shows "i = j"
proof -
  have eq: "(unat c + i) mod n = (unat c + j) mod n"
    using assms by (simp add: slot_add)
  have "i = j" if "i \<le> j" "j < n" "(unat c + i) mod n = (unat c + j) mod n" for i j
  proof -
    have "n dvd (unat c + j) - (unat c + i)"
      using that by (metis mod_eq_dvd_iff_nat add_le_cancel_left)
    then have "n dvd j - i" by simp
    then show ?thesis using that by (auto dest: dvd_imp_le)
  qed
  from this [of i j] this [of j i] eq assms(2,3) show ?thesis by (metis nat_le_linear)
qed

lemma length_ring_queue [simp]: "length (ring_queue n r) = unat (Producer r - Consumer r)"
  by (simp add: ring_queue_def)

lemma word_add_unat_diff: "(c :: u32) + word_of_nat (unat (p - c)) = p"
  by simp

lemma unat_Suc_diff:
  fixes p c :: u32
  assumes "unat (p - c) < 4294967295"
  shows "unat (p + 1 - c) = Suc (unat (p - c))"
proof -
  have "p + 1 - c = (p - c) + 1" by simp
  then have "unat (p + 1 - c) = unat ((p - c) + 1)" by (rule arg_cong)
  also have "\<dots> = Suc (unat (p - c))"
    using assms by (simp add: unat_word_ariths(1) del: diff_add_eq)
  finally show ?thesis .
qed

lemma unat_pred_diff:
  fixes p c :: u32
  assumes "0 < unat (p - c)"
  shows "unat (p - (c + 1)) = unat (p - c) - 1"
proof -
  have "p - c \<noteq> 0" using assms by auto
  moreover have "p - (c + 1) = (p - c) - 1" by simp
  ultimately show ?thesis by (metis unat_minus_one)
qed

lemma ring_put_queue:
  assumes "ring_wf n r" "unat (Producer r - Consumer r) < n"
  shows "\<exists>r'. ring_put n d r = Ok r' \<and> ring_wf n r' \<and> ring_queue n r' = ring_queue n r @ [d]
    \<and> Consumer r' = Consumer r \<and> Producer r' = Producer r + 1"
proof -
  let ?u = "unat (Producer r - Consumer r)"
  let ?i = "slot n (Producer r)"
  let ?r = "r\<lparr>Descs := (Descs r)[?i := d], Producer := Producer r + 1\<rparr>"
  have size: "ring_size n" and len: "length (Descs r) = n" using assms(1) by (simp_all add: ring_wf_def)
  have i: "?i < length (Descs r)" using slot_less [OF size] len by simp
  have u': "unat (Producer r + 1 - Consumer r) = Suc ?u"
    using assms(2) ring_size_less [OF size] by (intro unat_Suc_diff) linarith
  have last: "slot n (Consumer r + word_of_nat ?u) = ?i" by simp
  have "(Descs r)[?i := d] ! slot n (Consumer r + word_of_nat j) = Descs r ! slot n (Consumer r + word_of_nat j)"
    if "j < ?u" for j
  proof -
    have "slot n (Consumer r + word_of_nat j) \<noteq> ?i"
      using slot_inj [OF size, of j ?u "Consumer r"] that assms(2) by auto
    then show ?thesis by simp
  qed
  then have "ring_queue n ?r = ring_queue n r @ [d]"
    using i by (simp add: ring_queue_def u')
  moreover have "ring_wf n ?r"
    using assms size len u' by (simp add: ring_wf_def)
  ultimately show ?thesis using i by (simp add: ring_put_def Let_def)
qed

lemma ring_get_queue:
  assumes "ring_wf n r" "0 < unat (Producer r - Consumer r)"
  shows "\<exists>d r'. ring_get n r = Ok (d, r') \<and> ring_wf n r' \<and> ring_queue n r = d # ring_queue n r'
    \<and> Producer r' = Producer r \<and> Consumer r' = Consumer r + 1"
proof -
  let ?r = "r\<lparr>Consumer := Consumer r + 1\<rparr>"
  have size: "ring_size n" and len: "length (Descs r) = n" using assms(1) by (simp_all add: ring_wf_def)
  have u: "unat (Producer r - Consumer r) = Suc (unat (Producer r - (Consumer r + 1)))"
    using unat_pred_diff [OF assms(2)] assms(2) by simp
  have "ring_queue n r = Descs r ! slot n (Consumer r) # ring_queue n ?r"
    unfolding ring_queue_def u by (simp add: upt_conv_Cons map_Suc_upt [symmetric] ac_simps del: upt_Suc)
  moreover have "ring_wf n ?r"
    using assms size len unat_pred_diff [OF assms(2)] by (simp add: ring_wf_def)
  ultimately show ?thesis using slot_less [OF size] len by (simp add: ring_get_def Let_def)
qed

text \<open>What the counting functions count, wherever the counters stand.\<close>

lemma num_used_eq: "ring_wf n r \<Longrightarrow> num_used n r = length (ring_queue n r)"
  using unat_size [of n] by (auto simp: num_used_def Let_def ring_wf_def word_less_nat_alt)

lemma num_free_eq:
  assumes "ring_wf n r"
  shows "num_free n r = n - length (ring_queue n r)"
proof -
  let ?u = "Producer r - Consumer r"
  have n: "unat (word_of_nat n :: u32) = n" and le: "unat ?u \<le> n"
    using assms unat_size by (auto simp: ring_wf_def)
  then have "unat (word_of_nat n - ?u) = n - unat ?u"
    by (simp add: unat_sub word_le_nat_alt)
  with n le show ?thesis
    by (auto simp: num_free_def Let_def word_less_nat_alt)
qed

lemma num_used_le: "ring_size n \<Longrightarrow> num_used n r \<le> n"
  using unat_size [of n] by (auto simp: num_used_def Let_def word_less_nat_alt)

subsection \<open>Rings as bounded queues\<close>

interpretation ring: bounded_queue "ring_put n" "ring_get n" "ring_queue n" "ring_wf n" n "num_used n" "num_free n"
  for n :: nat
proof unfold_locales
  fix s :: "'d ring" and d
  assume wf: "ring_wf n s"
  then show "num_used n s = length (ring_queue n s)" "num_free n s = n - length (ring_queue n s)"
    "length (ring_queue n s) \<le> n"
    by (simp_all add: num_used_eq num_free_eq) (simp add: ring_wf_def)
  show "length (ring_queue n s) < n \<Longrightarrow> \<exists>s'. ring_put n d s = Ok s' \<and> ring_wf n s' \<and> ring_queue n s' = ring_queue n s @ [d]"
    using ring_put_queue [OF wf] by auto
  assume "ring_queue n s \<noteq> []"
  then have "0 < unat (Producer s - Consumer s)" by (metis length_greater_0_conv length_ring_queue)
  then show "\<exists>d s'. ring_get n s = Ok (d, s') \<and> ring_wf n s' \<and> ring_queue n s = d # ring_queue n s'"
    using ring_get_queue [OF wf] by blast
qed

end
