(* ===== verification/Go_Chan.thy ===== *)
theory Go_Chan
  imports Bounded_Queue
begin

section \<open>Channels\<close>

text \<open>
  A channel of Go: a buffer of bounded length that can be closed. A send on a full channel and a
  receive from an empty one block, which is the error \<open>Blocked\<close> here: the goroutine tries again
  when somebody else has made a step. A receive from a closed and empty channel gives nothing, at
  once.
\<close>

record 'a chan =
  ch_cap :: nat
  ch_buf :: "'a list"
  ch_closed :: bool

datatype blocked = Blocked

definition make_chan :: "nat \<Rightarrow> 'a chan" where
  "make_chan n = \<lparr>ch_cap = n, ch_buf = [], ch_closed = False\<rparr>"

definition chan_send :: "'a \<Rightarrow> 'a chan \<Rightarrow> (blocked, 'a chan) res" where
  "chan_send x c =
     (if ch_closed c then Panic Send_On_Closed_Channel
      else if length (ch_buf c) < ch_cap c then Ok (c\<lparr>ch_buf := ch_buf c @ [x]\<rparr>)
      else Err Blocked)"

definition chan_recv :: "'a chan \<Rightarrow> (blocked, 'a option \<times> 'a chan) res" where
  "chan_recv c =
     (case ch_buf c of
        x # xs \<Rightarrow> Ok (Some x, c\<lparr>ch_buf := xs\<rparr>)
      | [] \<Rightarrow> if ch_closed c then Ok (None, c) else Err Blocked)"

text \<open>A nil channel (\<open>None\<close>) cannot be closed either.\<close>

definition chan_close :: "'a chan option \<Rightarrow> (unit, 'a chan option) res" where
  "chan_close c =
     (case c of
        None \<Rightarrow> Panic Close_Closed_Channel
      | Some ch \<Rightarrow> if ch_closed ch then Panic Close_Closed_Channel else Ok (Some (ch\<lparr>ch_closed := True\<rparr>)))"

text \<open>Receiving a value, for an open channel.\<close>

definition chan_take :: "'a chan \<Rightarrow> (blocked, 'a \<times> 'a chan) res" where
  "chan_take c = bind_res (chan_recv c) (\<lambda>(x, c'). case x of Some v \<Rightarrow> Ok (v, c') | None \<Rightarrow> Err Blocked)"

definition chan_ok :: "nat \<Rightarrow> 'a chan \<Rightarrow> bool" where
  "chan_ok n c \<longleftrightarrow> ch_cap c = n \<and> length (ch_buf c) \<le> n \<and> \<not> ch_closed c"

interpretation chan: bounded_queue chan_send chan_take ch_buf "chan_ok n" n "\<lambda>c. length (ch_buf c)"
  "\<lambda>c. ch_cap c - length (ch_buf c)" for n :: nat
proof unfold_locales
  fix c :: "'a chan" and x
  assume ok: "chan_ok n c"
  then show "length (ch_buf c) = length (ch_buf c)" "ch_cap c - length (ch_buf c) = n - length (ch_buf c)"
    "length (ch_buf c) \<le> n"
    by (simp_all add: chan_ok_def)
  show "length (ch_buf c) < n \<Longrightarrow> \<exists>c'. chan_send x c = Ok c' \<and> chan_ok n c' \<and> ch_buf c' = ch_buf c @ [x]"
    using ok by (simp add: chan_send_def chan_ok_def)
  show "ch_buf c \<noteq> [] \<Longrightarrow> \<exists>v c'. chan_take c = Ok (v, c') \<and> chan_ok n c' \<and> ch_buf c = v # ch_buf c'"
    using ok by (cases "ch_buf c") (auto simp: chan_take_def chan_recv_def chan_ok_def)
qed

end
