(* ===== verification/Xdp_Socket.thy ===== *)
theory Xdp_Socket
  imports Xdp_Ring Go_Chan
begin

section \<open>The AF\_XDP socket (\<open>pkg/xdp/xdp.go\<close>)\<close>

text \<open>
  The socket's state and its operations, one definition per method. The memory shared with the
  kernel (the four rings and the frames) is part of the state; what the kernel answers to a system
  call is an argument. The background goroutines \<open>txWorker\<close> and \<open>txTransmit\<close> are broken into
  their steps in the theory \<open>Xdp_Tx\<close>, which runs them against \<open>SendMsg\<close> and the kernel.
\<close>

subsection \<open>State\<close>

text \<open>The sizes of \<open>SocketOptions\<close>, none of which is negative.\<close>

record SocketOptions =
  NumFrames :: nat
  FrameSize :: nat
  FillRingNumDescs :: nat
  CompletionRingNumDescs :: nat
  RxRingNumDescs :: nat
  TxRingNumDescs :: nat
  TxStep :: int

definition DefaultSocketOptions :: SocketOptions where
  "DefaultSocketOptions =
     \<lparr>NumFrames = 128, FrameSize = 2048, FillRingNumDescs = 64, CompletionRingNumDescs = 64,
      RxRingNumDescs = 64, TxRingNumDescs = 64, TxStep = 100000\<rparr>"

text \<open>
  Of the slices \<open>rxDescs\<close> and \<open>getRXDescs\<close>, which are only buffers to append to, the capacity is
  kept. A nil channel and an unmapped umem are \<open>None\<close>. The third field of a descriptor, its
  options, is always zero and left out.
\<close>

record Socket =
  fd :: int
  umem :: "bytes option"
  fillRing :: umemRing
  rxRing :: rxTxRing
  txRing :: rxTxRing
  completionRing :: umemRing
  ifindex :: int
  numTransmitted :: int
  numFilled :: int
  freeRXDescs :: "bool list"
  options :: SocketOptions
  rxDescs_cap :: nat
  getRXDescs_cap :: nat
  txChan :: "Desc chan option"
  manualTriggerTX :: "unit chan option"
  txIndex :: u64

definition xsk_FD :: "Socket \<Rightarrow> int" where "xsk_FD xsk = fd xsk"

definition xsk_Ifindex :: "Socket \<Rightarrow> int" where "xsk_Ifindex xsk = ifindex xsk"

subsection \<open>Counting\<close>

definition NumFreeFillSlots :: "Socket \<Rightarrow> nat" where
  "NumFreeFillSlots xsk = num_free (FillRingNumDescs (options xsk)) (fillRing xsk)"

definition NumFreeTxSlots :: "Socket \<Rightarrow> nat" where
  "NumFreeTxSlots xsk = num_free (TxRingNumDescs (options xsk)) (txRing xsk)"

definition NumReceived :: "Socket \<Rightarrow> nat" where
  "NumReceived xsk = num_used (RxRingNumDescs (options xsk)) (rxRing xsk)"

definition NumCompleted :: "Socket \<Rightarrow> nat" where
  "NumCompleted xsk = num_used (CompletionRingNumDescs (options xsk)) (completionRing xsk)"

definition NumFilled :: "Socket \<Rightarrow> int" where "NumFilled xsk = numFilled xsk"

definition NumTransmitted :: "Socket \<Rightarrow> int" where "NumTransmitted xsk = numTransmitted xsk"

definition Complete :: "nat \<Rightarrow> Socket \<Rightarrow> Socket" where
  "Complete n xsk =
     xsk\<lparr>completionRing := (completionRing xsk)\<lparr>Consumer := Consumer (completionRing xsk) + word_of_nat n\<rparr>\<rparr>"

subsection \<open>Receiving\<close>

text \<open>The index \<open>desc.Addr/uint64(FrameSize)\<close> into \<open>freeRXDescs\<close>.\<close>

definition frame_index :: "SocketOptions \<Rightarrow> bool list \<Rightarrow> u64 \<Rightarrow> (unit, nat) res" where
  "frame_index opts frames a =
     (if FrameSize opts = 0 then Panic Divide_By_Zero
      else if unat a div FrameSize opts < length frames then Ok (unat a div FrameSize opts)
      else Panic Index_Out_Of_Range)"

fun fill_loop ::
  "SocketOptions \<Rightarrow> Desc list \<Rightarrow> u32 \<Rightarrow> u64 list \<Rightarrow> bool list \<Rightarrow> (unit, u32 \<times> u64 list \<times> bool list) res" where
  "fill_loop opts [] prd descs frames = Ok (prd, descs, frames)"
| "fill_loop opts (d # ds) prd descs frames =
     (let i = slot (FillRingNumDescs opts) prd
      in if i < length descs then
           bind_res (frame_index opts frames (Addr d)) (\<lambda>k.
             fill_loop opts ds (prd + 1) (descs[i := Addr d]) (frames[k := False]))
         else Panic Index_Out_Of_Range)"

definition Fill :: "Desc list \<Rightarrow> Socket \<Rightarrow> (unit, nat \<times> Socket) res" where
  "Fill descs xsk =
     (let numFreeSlots = NumFreeFillSlots xsk;
          descs = (if numFreeSlots < length descs then take numFreeSlots descs else descs)
      in map_ok (\<lambda>(prd, arr, frames).
           (length descs,
            xsk\<lparr>fillRing := (fillRing xsk)\<lparr>Producer := prd, Descs := arr\<rparr>,
                freeRXDescs := frames, numFilled := numFilled xsk + int (length descs)\<rparr>))
           (fill_loop (options xsk) descs (Producer (fillRing xsk)) (Descs (fillRing xsk)) (freeRXDescs xsk)))"

fun receive_loop ::
  "SocketOptions \<Rightarrow> Desc list \<Rightarrow> nat \<Rightarrow> u32 \<Rightarrow> Desc list \<Rightarrow> bool list \<Rightarrow> (unit, Desc list \<times> u32 \<times> bool list) res" where
  "receive_loop opts arr 0 cons descs frames = Ok (descs, cons, frames)"
| "receive_loop opts arr (Suc k) cons descs frames =
     (let i = slot (RxRingNumDescs opts) cons
      in if i < length arr then
           bind_res (frame_index opts frames (Addr (arr ! i))) (\<lambda>f.
             receive_loop opts arr k (cons + 1) (descs @ [arr ! i]) (frames[f := True]))
         else Panic Index_Out_Of_Range)"

definition Receive :: "int \<Rightarrow> Socket \<Rightarrow> (unit, Desc list \<times> Socket) res" where
  "Receive num xsk =
     (let numAvailable = NumReceived xsk;
          num = (if num > int numAvailable then int numAvailable else num)
      in map_ok (\<lambda>(descs, cons, frames).
           (descs,
            xsk\<lparr>rxRing := (rxRing xsk)\<lparr>Consumer := cons\<rparr>, freeRXDescs := frames,
                numFilled := numFilled xsk - int (length descs)\<rparr>))
           (receive_loop (options xsk) (Descs (rxRing xsk)) (nat num) (Consumer (rxRing xsk)) [] (freeRXDescs xsk)))"

text \<open>
  \<open>GetRxDescs\<close>: \<open>i\<close> runs up to the capacity of \<open>getRXDescs\<close> and at most \<open>n\<close> descriptors are
  taken; the index into the free list is only guarded by that capacity.
\<close>

fun rx_desc_loop :: "SocketOptions \<Rightarrow> bool list \<Rightarrow> nat \<Rightarrow> nat \<Rightarrow> int \<Rightarrow> Desc list \<Rightarrow> (unit, Desc list) res" where
  "rx_desc_loop opts freeList i 0 n descs = Ok descs"
| "rx_desc_loop opts freeList i (Suc left) n descs =
     (if int (length descs) \<ge> n then Ok descs
      else if i < length freeList then
        rx_desc_loop opts freeList (i + 1) left n
          (if freeList ! i
           then descs @ [\<lparr>Addr = word_of_nat i * word_of_nat (FrameSize opts), Len = word_of_nat (FrameSize opts)\<rparr>]
           else descs)
      else Panic Index_Out_Of_Range)"

definition GetRxDescs :: "int \<Rightarrow> Socket \<Rightarrow> (unit, Desc list) res" where
  "GetRxDescs n xsk =
     (let n = (if n > int (getRXDescs_cap xsk) then int (getRXDescs_cap xsk) else n)
      in rx_desc_loop (options xsk) (freeRXDescs xsk) 0 (getRXDescs_cap xsk) n [])"

subsection \<open>Sending\<close>

definition GetTxDesc :: "Socket \<Rightarrow> (unit, Desc \<times> Socket) res" where
  "GetTxDesc xsk =
     (let inc = txIndex xsk + 1; opts = options xsk
      in if (word_of_nat (CompletionRingNumDescs opts) :: u64) = 0 then Panic Divide_By_Zero
         else
           (let offset = word_of_nat (FillRingNumDescs opts) + inc mod word_of_nat (CompletionRingNumDescs opts)
            in Ok (\<lparr>Addr = offset * word_of_nat (FrameSize opts), Len = word_of_nat (FrameSize opts)\<rparr>,
                   xsk\<lparr>txIndex := inc\<rparr>)))"

text \<open>
  \<open>GetFrame\<close> gives a slice of the umem, here its bounds: the end is computed on 64 bits, and the
  slice expression panics unless start, end and capacity are in order.
\<close>

definition GetFrame :: "Desc \<Rightarrow> Socket \<Rightarrow> (unit, nat \<times> nat) res" where
  "GetFrame d xsk =
     (let lo = unat (Addr d); hi = unat (Addr d + ucast (Len d));
          cap = (case umem xsk of Some m \<Rightarrow> length m | None \<Rightarrow> 0)
      in if hi \<le> cap \<and> lo \<le> hi then Ok (lo, hi) else Panic Slice_Bounds)"

text \<open>\<open>copy\<close> into the slice from \<open>lo\<close> to \<open>hi\<close>: what fits.\<close>

definition copy_frame :: "nat \<Rightarrow> nat \<Rightarrow> bytes \<Rightarrow> bytes \<Rightarrow> bytes" where
  "copy_frame lo hi data mem =
     (let n = min (length data) (hi - lo) in take lo mem @ take n data @ drop (lo + n) mem)"

text \<open>
  \<open>SendMsg\<close> up to its channel operation: the descriptor to send, or none for the error
  "no free desc".
\<close>

definition SendMsg_prepare :: "bytes \<Rightarrow> Socket \<Rightarrow> (unit, Desc option \<times> Socket) res" where
  "SendMsg_prepare data xsk =
     bind_res (GetTxDesc xsk) (\<lambda>(desc, xsk).
       if Addr desc = 0 then Ok (None, xsk)
       else bind_res (GetFrame desc xsk) (\<lambda>(lo, hi).
         Ok (Some (desc\<lparr>Len := word_of_nat (length data)\<rparr>),
             xsk\<lparr>umem := map_option (copy_frame lo hi data) (umem xsk)\<rparr>)))"

text \<open>The channel operation: blocked on a nil or a full channel, a panic on a closed one.\<close>

definition SendMsg_send :: "Desc \<Rightarrow> Socket \<Rightarrow> (blocked, Socket) res" where
  "SendMsg_send desc xsk =
     (case txChan xsk of
        None \<Rightarrow> Err Blocked
      | Some c \<Rightarrow> map_ok (\<lambda>c'. xsk\<lparr>txChan := Some c'\<rparr>) (chan_send desc c))"

datatype send_error = No_Free_Desc | Would_Block

definition SendMsg :: "bytes \<Rightarrow> Socket \<Rightarrow> (send_error, Socket) res" where
  "SendMsg data xsk =
     (case SendMsg_prepare data xsk of
        Ok (None, xsk') \<Rightarrow> Err No_Free_Desc
      | Ok (Some desc, xsk') \<Rightarrow>
          (case SendMsg_send desc xsk' of Ok xsk'' \<Rightarrow> Ok xsk'' | Err b \<Rightarrow> Err Would_Block | Panic p \<Rightarrow> Panic p)
      | Err e \<Rightarrow> Err Would_Block
      | Panic p \<Rightarrow> Panic p)"

subsection \<open>Driving the kernel\<close>

datatype errno = EINTR | EAGAIN | EBUSY | Errno nat

text \<open>
  \<open>doTransmit\<close> repeats \<open>sendto\<close> while it is interrupted or would block. \<open>answers\<close> are what its
  calls give (no error, or an error number), each with the producer of the completion ring at that
  time; when they run out, the call has not returned yet.
\<close>

fun doTransmit :: "(errno option \<times> u32) list \<Rightarrow> Socket \<Rightarrow> (unit, Socket) res option" where
  "doTransmit [] xsk = None"
| "doTransmit ((None, prd) # answers) xsk =
     Some (Ok (xsk\<lparr>completionRing := (completionRing xsk)\<lparr>Producer := prd\<rparr>\<rparr>))"
| "doTransmit ((Some e, prd) # answers) xsk =
     (let xsk = xsk\<lparr>completionRing := (completionRing xsk)\<lparr>Producer := prd\<rparr>\<rparr>
      in case e of
           EBUSY \<Rightarrow> Some (Ok xsk)
         | Errno n \<Rightarrow> Some (Panic Explicit_Panic)
         | _ \<Rightarrow> doTransmit answers
                 (let numCompleted = NumCompleted xsk
                  in if numCompleted > 0 then Complete numCompleted xsk else xsk))"

text \<open>
  \<open>Poll\<close>: the events it waits for, and its results when the \<open>poll\<close> calls give \<open>answers\<close>
  (no error or an error number); it does not return while they are interrupted.
\<close>

definition poll_events :: "Socket \<Rightarrow> bool \<times> bool" where
  "poll_events xsk = (numFilled xsk > 0, numTransmitted xsk > 0)"

fun poll_loop :: "errno option list \<Rightarrow> errno option option" where
  "poll_loop [] = None"
| "poll_loop (a # answers) = (if a = Some EINTR then poll_loop answers else Some a)"

definition Poll :: "errno option list \<Rightarrow> Socket \<Rightarrow> (nat \<times> nat \<times> errno option \<times> Socket) option" where
  "Poll answers xsk =
     (if poll_events xsk = (False, False) then Some (0, 0, None, xsk)
      else case poll_loop answers of
        None \<Rightarrow> None
      | Some (Some e) \<Rightarrow> Some (0, 0, Some e, xsk)
      | Some None \<Rightarrow>
          (let numReceived = NumReceived xsk; numCompleted = NumCompleted xsk
           in Some (numReceived, numCompleted, None,
                    if numCompleted > 0 then Complete numCompleted xsk else xsk)))"

text \<open>\<open>Stats\<close>: the counters, and the kernel's statistics if the system call succeeds.\<close>

record 'k Stats =
  TxProd :: u64
  TxCon :: u64
  CompletionProd :: u64
  CompletionCon :: u64
  TxChan :: nat
  KernelStats :: 'k

definition xsk_Stats :: "'k \<Rightarrow> 'k option \<Rightarrow> Socket \<Rightarrow> 'k Stats \<times> bool" where
  "xsk_Stats zero answer xsk =
     (\<lparr>TxProd = ucast (Producer (txRing xsk)), TxCon = ucast (Consumer (txRing xsk)),
       CompletionProd = ucast (Producer (completionRing xsk)),
       CompletionCon = ucast (Consumer (completionRing xsk)),
       TxChan = (case txChan xsk of Some c \<Rightarrow> length (ch_buf c) | None \<Rightarrow> 0),
       KernelStats = (case answer of Some k \<Rightarrow> k | None \<Rightarrow> zero)\<rparr>,
      answer \<noteq> None)"

subsection \<open>Closing\<close>

datatype close_error = Err_Close_FD | Err_Munmap

text \<open>
  \<open>close_ok\<close> and \<open>munmap_ok\<close> are what the two system calls give. The slices of the rings are
  emptied; the mappings behind them stay.
\<close>

definition empty_ring :: "'d ring \<Rightarrow> 'd ring" where
  "empty_ring r = r\<lparr>Descs := []\<rparr>"

definition close_fd :: "bool \<Rightarrow> Socket \<Rightarrow> close_error list \<times> Socket" where
  "close_fd close_ok xsk =
     (if fd xsk \<noteq> -1 then
        ((if close_ok then [] else [Err_Close_FD]),
         xsk\<lparr>fd := -1, completionRing := empty_ring (completionRing xsk), txRing := empty_ring (txRing xsk),
             rxRing := empty_ring (rxRing xsk), fillRing := empty_ring (fillRing xsk)\<rparr>)
      else ([], xsk))"

definition close_umem :: "bool \<Rightarrow> Socket \<Rightarrow> close_error list \<times> Socket" where
  "close_umem munmap_ok xsk =
     (if umem xsk \<noteq> None then ((if munmap_ok then [] else [Err_Munmap]), xsk\<lparr>umem := None\<rparr>)
      else ([], xsk))"

definition Close :: "bool \<Rightarrow> bool \<Rightarrow> Socket \<Rightarrow> (unit, close_error option \<times> Socket) res" where
  "Close close_ok munmap_ok xsk =
     bind_res (if txChan xsk = None then Ok xsk
               else map_ok (\<lambda>c. xsk\<lparr>txChan := c\<rparr>) (chan_close (txChan xsk)))
       (\<lambda>xsk.
          let (errs1, xsk) = close_fd close_ok xsk; (errs2, xsk) = close_umem munmap_ok xsk
          in Ok ((case errs1 @ errs2 of [] \<Rightarrow> None | e # _ \<Rightarrow> Some e), xsk))"

subsection \<open>\<open>NewSocket\<close>\<close>

text \<open>
  What the system calls of \<open>NewSocket\<close> give, in their order, and those of \<open>Close\<close> after a
  failure; and the resources that are held on return, which the caller of a failed \<open>NewSocket\<close>
  cannot release.
\<close>

record sys_answers =
  s_socket :: "int option"
  s_umem :: bool
  s_umem_reg :: bool
  s_fill :: bool
  s_completion :: bool
  s_rx :: bool
  s_tx :: bool
  s_offsets :: bool
  s_map_fill :: bool
  s_map_completion :: bool
  s_map_rx :: bool
  s_map_tx :: bool
  s_bind :: bool
  s_close :: bool
  s_munmap :: bool

datatype resource = R_Fd | R_Umem | R_FillRing | R_CompletionRing | R_RxRing | R_TxRing

datatype new_error =
    Err_Socket | Err_Mmap | Err_Umem_Reg | Err_Fill_Ring | Err_Completion_Ring | Err_Rx_Ring | Err_Tx_Ring
  | Err_Both_Zero | Err_Offsets | Err_Mmap_Ring | ErrBindFailed

type_synonym new_result = "(unit, (new_error \<times> resource list) + (Socket \<times> resource list)) res"

definition zero_ring :: "'d ring" where
  "zero_ring = \<lparr>Producer = 0, Consumer = 0, Descs = []\<rparr>"

definition blank_socket :: "int \<Rightarrow> SocketOptions \<Rightarrow> Socket" where
  "blank_socket index opts =
     \<lparr>fd = -1, umem = None, fillRing = zero_ring, rxRing = zero_ring, txRing = zero_ring,
      completionRing = zero_ring, ifindex = index, numTransmitted = 0, numFilled = 0, freeRXDescs = [],
      options = opts, rxDescs_cap = 0, getRXDescs_cap = 0, txChan = None, manualTriggerTX = None,
      txIndex = - 1\<rparr>"

text \<open>A failure after the socket exists: close it and give the error.\<close>

definition fail_closed :: "sys_answers \<Rightarrow> new_error \<Rightarrow> Socket \<Rightarrow> resource list \<Rightarrow> new_result" where
  "fail_closed s e xsk held =
     map_ok (\<lambda>_. Inl (e, filter (\<lambda>r. \<not> (r = R_Fd \<and> fd xsk \<noteq> -1)
                                  \<and> \<not> (r = R_Umem \<and> umem xsk \<noteq> None \<and> s_munmap s)) held))
       (Close (s_close s) (s_munmap s) xsk)"

text \<open>The first part, up to the offsets of the rings.\<close>

definition NewSocket_open :: "int \<Rightarrow> SocketOptions option \<Rightarrow> sys_answers \<Rightarrow> new_result" where
  "NewSocket_open index o_opts s =
     (let opts = (case o_opts of None \<Rightarrow> DefaultSocketOptions | Some o' \<Rightarrow> o');
          xsk = blank_socket index opts
      in case s_socket s of
        None \<Rightarrow> Ok (Inl (Err_Socket, []))
      | Some n \<Rightarrow>
          (let xsk = xsk\<lparr>fd := n\<rparr>; held = [R_Fd]; size = NumFrames opts * FrameSize opts
           in if \<not> s_umem s \<or> size = 0 then fail_closed s Err_Mmap xsk held
              else
                (let xsk = xsk\<lparr>umem := Some (replicate size 0)\<rparr>; held = held @ [R_Umem]
                 in if \<not> s_umem_reg s then fail_closed s Err_Umem_Reg xsk held
                    else if \<not> s_fill s then fail_closed s Err_Fill_Ring xsk held
                    else if \<not> s_completion s then fail_closed s Err_Completion_Ring xsk held
                    else if RxRingNumDescs opts > 0 \<and> \<not> s_rx s then fail_closed s Err_Rx_Ring xsk held
                    else if TxRingNumDescs opts > 0 \<and> \<not> s_tx s then fail_closed s Err_Tx_Ring xsk held
                    else if \<not> (RxRingNumDescs opts > 0 \<or> TxRingNumDescs opts > 0)
                      then Ok (Inl (Err_Both_Zero, held))
                    else if \<not> s_offsets s then fail_closed s Err_Offsets xsk held
                    else Ok (Inr (xsk, held)))))"

text \<open>A ring as the kernel maps it: counters at zero and its number of descriptors.\<close>

definition mapped_ring :: "nat \<Rightarrow> 'd \<Rightarrow> 'd ring" where
  "mapped_ring n d = \<lparr>Producer = 0, Consumer = 0, Descs = replicate n d\<rparr>"

definition zero_Desc :: Desc where
  "zero_Desc = \<lparr>Addr = 0, Len = 0\<rparr>"

text \<open>The second part: mapping the rings, binding, and the rest of the state.\<close>

definition NewSocket_map :: "sys_answers \<Rightarrow> Socket \<Rightarrow> resource list \<Rightarrow> new_result" where
  "NewSocket_map s xsk held =
     (let opts = options xsk
      in if \<not> s_map_fill s then fail_closed s Err_Mmap_Ring xsk held
         else
           (let xsk = xsk\<lparr>fillRing := mapped_ring (FillRingNumDescs opts) 0\<rparr>; held = held @ [R_FillRing]
            in if \<not> s_map_completion s then fail_closed s Err_Mmap_Ring xsk held
               else
                 (let xsk = xsk\<lparr>completionRing := mapped_ring (CompletionRingNumDescs opts) 0\<rparr>;
                      held = held @ [R_CompletionRing]; rx = RxRingNumDescs opts > 0
                  in if rx \<and> \<not> s_map_rx s then fail_closed s Err_Mmap_Ring xsk held
                     else
                       (let xsk = (if rx then xsk\<lparr>rxRing := mapped_ring (RxRingNumDescs opts) zero_Desc,
                                                  rxDescs_cap := RxRingNumDescs opts\<rparr> else xsk);
                            held = (if rx then held @ [R_RxRing] else held); tx = TxRingNumDescs opts > 0
                        in if tx \<and> \<not> s_map_tx s then fail_closed s Err_Mmap_Ring xsk held
                           else
                             (let xsk = (if tx then xsk\<lparr>txRing := mapped_ring (TxRingNumDescs opts) zero_Desc\<rparr>
                                         else xsk);
                                  held = (if tx then held @ [R_TxRing] else held)
                              in if \<not> s_bind s then fail_closed s ErrBindFailed xsk held
                                 else Ok (Inr (xsk\<lparr>freeRXDescs := replicate (NumFrames opts) True,
                                                   getRXDescs_cap := FillRingNumDescs opts,
                                                   txChan := Some (make_chan (FillRingNumDescs opts div 2)),
                                                   manualTriggerTX := Some (make_chan 1)\<rparr>, held)))))))"

definition NewSocket :: "int \<Rightarrow> SocketOptions option \<Rightarrow> sys_answers \<Rightarrow> new_result" where
  "NewSocket index o_opts s =
     bind_res (NewSocket_open index o_opts s) (\<lambda>r.
       case r of Inl e \<Rightarrow> Ok (Inl e) | Inr (xsk, held) \<Rightarrow> NewSocket_map s xsk held)"

subsection \<open>Well-formed sockets\<close>

definition sock_wf :: "Socket \<Rightarrow> bool" where
  "sock_wf xsk \<longleftrightarrow>
     (let opts = options xsk
      in ring_wf (FillRingNumDescs opts) (fillRing xsk) \<and> ring_wf (RxRingNumDescs opts) (rxRing xsk)
       \<and> ring_wf (TxRingNumDescs opts) (txRing xsk) \<and> ring_wf (CompletionRingNumDescs opts) (completionRing xsk)
       \<and> 0 < FrameSize opts \<and> NumFrames opts * FrameSize opts < 18446744073709551616
       \<and> length (freeRXDescs xsk) = NumFrames opts
       \<and> (\<exists>m. umem xsk = Some m \<and> length m = NumFrames opts * FrameSize opts)
       \<and> numTransmitted xsk = 0)"

definition opts_ok :: "SocketOptions \<Rightarrow> bool" where
  "opts_ok opts \<longleftrightarrow>
     ring_size (FillRingNumDescs opts) \<and> ring_size (CompletionRingNumDescs opts)
     \<and> ring_size (RxRingNumDescs opts) \<and> ring_size (TxRingNumDescs opts)
     \<and> 0 < NumFrames opts \<and> 0 < FrameSize opts \<and> NumFrames opts * FrameSize opts < 18446744073709551616"

lemma mapped_ring_wf: "ring_size n \<Longrightarrow> ring_wf n (mapped_ring n d)"
  by (simp add: ring_wf_def mapped_ring_def)

lemma ring_size_pos: "ring_size n \<Longrightarrow> 0 < n"
  using ring_size_less by blast

lemma fail_closed_eq:
  "txChan xsk = None \<Longrightarrow>
   fail_closed s e xsk held =
     Ok (Inl (e, filter (\<lambda>r. \<not> (r = R_Fd \<and> fd xsk \<noteq> -1) \<and> \<not> (r = R_Umem \<and> umem xsk \<noteq> None \<and> s_munmap s)) held))"
  by (simp add: fail_closed_def Close_def case_prod_beta)

text \<open>The socket that the second part makes of the first one's.\<close>

definition mapped_socket :: "Socket \<Rightarrow> Socket" where
  "mapped_socket xsk =
     (let opts = options xsk
      in xsk\<lparr>fillRing := mapped_ring (FillRingNumDescs opts) 0,
             completionRing := mapped_ring (CompletionRingNumDescs opts) 0,
             rxRing := (if RxRingNumDescs opts > 0 then mapped_ring (RxRingNumDescs opts) zero_Desc else rxRing xsk),
             rxDescs_cap := (if RxRingNumDescs opts > 0 then RxRingNumDescs opts else rxDescs_cap xsk),
             txRing := (if TxRingNumDescs opts > 0 then mapped_ring (TxRingNumDescs opts) zero_Desc else txRing xsk),
             freeRXDescs := replicate (NumFrames opts) True,
             getRXDescs_cap := FillRingNumDescs opts,
             txChan := Some (make_chan (FillRingNumDescs opts div 2)),
             manualTriggerTX := Some (make_chan 1)\<rparr>)"

lemma mapped_socket_wf:
  assumes "opts_ok (options xsk)" "umem xsk = Some m" "numTransmitted xsk = 0"
    "length m = NumFrames (options xsk) * FrameSize (options xsk)"
  shows "sock_wf (mapped_socket xsk)"
proof -
  have "0 < RxRingNumDescs (options xsk)" "0 < TxRingNumDescs (options xsk)"
    using assms(1) ring_size_pos by (simp_all add: opts_ok_def)
  then show ?thesis
    using assms by (simp add: sock_wf_def mapped_socket_def opts_ok_def Let_def mapped_ring_wf)
qed

subsection \<open>Filling and receiving against the queues\<close>

abbreviation fill_queue :: "Socket \<Rightarrow> u64 list" where
  "fill_queue xsk \<equiv> ring_queue (FillRingNumDescs (options xsk)) (fillRing xsk)"

abbreviation rx_queue :: "Socket \<Rightarrow> Desc list" where
  "rx_queue xsk \<equiv> ring_queue (RxRingNumDescs (options xsk)) (rxRing xsk)"

abbreviation tx_queue :: "Socket \<Rightarrow> Desc list" where
  "tx_queue xsk \<equiv> ring_queue (TxRingNumDescs (options xsk)) (txRing xsk)"

definition frame_of :: "Socket \<Rightarrow> u64 \<Rightarrow> nat" where
  "frame_of xsk a = unat a div FrameSize (options xsk)"

definition mark_frames :: "nat \<Rightarrow> bool \<Rightarrow> Desc list \<Rightarrow> bool list \<Rightarrow> bool list" where
  "mark_frames fsize b ds frames = foldl (\<lambda>fs d. fs[unat (Addr d) div fsize := b]) frames ds"

lemma length_mark_frames [simp]: "length (mark_frames fsize b ds frames) = length frames"
  unfolding mark_frames_def by (induction ds arbitrary: frames) simp_all

lemma mark_frames_Cons:
  "mark_frames fsize b (d # ds) frames = mark_frames fsize b ds (frames[unat (Addr d) div fsize := b])"
  by (simp add: mark_frames_def)

lemma nth_mark_frames:
  "f < length frames \<Longrightarrow>
   mark_frames fsize b ds frames ! f = (if \<exists>d \<in> set ds. unat (Addr d) div fsize = f then b else frames ! f)"
  by (induction ds arbitrary: frames) (auto simp: mark_frames_Cons, simp_all add: mark_frames_def)

text \<open>\<open>Fill\<close>'s loop puts the addresses one by one; it works on a copy of the producer.\<close>

lemma fill_loop_puts:
  assumes "0 < FrameSize opts" "\<forall>d \<in> set ds. unat (Addr d) div FrameSize opts < length frames"
    and "ring.puts (FillRingNumDescs opts) (map Addr ds) r = Ok r'"
  shows "fill_loop opts ds (Producer r) (Descs r) frames =
      Ok (Producer r', Descs r', mark_frames (FrameSize opts) False ds frames)
    \<and> Consumer r' = Consumer r"
  using assms
proof (induction ds arbitrary: r frames)
  case Nil
  then show ?case by (simp add: mark_frames_def)
next
  case (Cons d ds)
  let ?i = "slot (FillRingNumDescs opts) (Producer r)"
  let ?r = "r\<lparr>Descs := (Descs r)[?i := Addr d], Producer := Producer r + 1\<rparr>"
  obtain r1 where put: "ring_put (FillRingNumDescs opts) (Addr d) r = Ok r1"
      and puts: "ring.puts (FillRingNumDescs opts) (map Addr ds) r1 = Ok r'"
    using Cons.prems(3) by (auto simp: bind_res_Ok_iff)
  then have i: "?i < length (Descs r)" and r1: "r1 = ?r"
    by (simp_all add: ring_put_def Let_def split: if_splits)
  note rest = puts [unfolded r1]
  from Cons.IH [OF Cons.prems(1) _ rest, of "frames[unat (Addr d) div FrameSize opts := False]"] Cons.prems(1,2) i
  show ?case by (simp add: Let_def frame_index_def mark_frames_Cons)
qed

lemma receive_loop_gets:
  assumes "0 < FrameSize opts" "ring.gets (RxRingNumDescs opts) k r = Ok (ds, r')"
    and "\<forall>d \<in> set ds. unat (Addr d) div FrameSize opts < length frames"
  shows "receive_loop opts (Descs r) k (Consumer r) out frames =
      Ok (out @ ds, Consumer r', mark_frames (FrameSize opts) True ds frames)
    \<and> Descs r' = Descs r \<and> Producer r' = Producer r"
  using assms
proof (induction k arbitrary: r ds out frames)
  case 0
  then show ?case by (simp add: mark_frames_def)
next
  case (Suc k)
  let ?i = "slot (RxRingNumDescs opts) (Consumer r)"
  let ?r = "r\<lparr>Consumer := Consumer r + 1\<rparr>"
  obtain d r1 ds' where get: "ring_get (RxRingNumDescs opts) r = Ok (d, r1)"
      and gets: "ring.gets (RxRingNumDescs opts) k r1 = Ok (ds', r')" and ds': "ds = d # ds'"
    using Suc.prems(2) by (auto simp: bind_res_Ok_iff)
  then have i: "?i < length (Descs r)" and r1: "r1 = ?r" and ds: "ds = Descs r ! ?i # ds'"
    by (simp_all add: ring_get_def Let_def split: if_splits)
  note rest = gets [unfolded r1]
  from Suc.IH [OF Suc.prems(1) rest, of "frames[unat (Addr (Descs r ! ?i)) div FrameSize opts := True]"
      "out @ [Descs r ! ?i]"] Suc.prems(1,3) i
  show ?case by (simp add: Let_def frame_index_def mark_frames_Cons ds)
qed

text \<open>The rings again from what the loops hand back.\<close>

lemma ring_restore: "Consumer r' = Consumer r \<Longrightarrow> r\<lparr>Producer := Producer r', Descs := Descs r'\<rparr> = r'"
  for r r' :: "'d ring"
  by simp

lemma ring_restore_get: "Producer r' = Producer r \<Longrightarrow> Descs r' = Descs r \<Longrightarrow> r\<lparr>Consumer := Consumer r'\<rparr> = r'"
  for r r' :: "'d ring"
  by simp

subsection \<open>Transmit frames\<close>

text \<open>The frame that the next transmit descriptor points to.\<close>

definition tx_frame :: "SocketOptions \<Rightarrow> u64 \<Rightarrow> nat" where
  "tx_frame opts inc = FillRingNumDescs opts + unat inc mod CompletionRingNumDescs opts"

text \<open>Room for the receive frames and the transmit frames in the umem.\<close>

definition tx_fits :: "SocketOptions \<Rightarrow> bool" where
  "tx_fits opts \<longleftrightarrow> FillRingNumDescs opts + CompletionRingNumDescs opts \<le> NumFrames opts \<and> FrameSize opts < 4294967296"

lemma ring_size_u64: "ring_size n \<Longrightarrow> unat (word_of_nat n :: u64) = n"
  using ring_size_less [of n] by (simp add: unsigned_of_nat take_bit_nat_eq_self)

lemma unat_u64: "n < 18446744073709551616 \<Longrightarrow> unat (word_of_nat n :: u64) = n"
  by (simp add: unsigned_of_nat take_bit_nat_eq_self)

lemma sock_wf_sizes:
  assumes "sock_wf xsk"
  shows "ring_size (FillRingNumDescs (options xsk))" "ring_size (CompletionRingNumDescs (options xsk))"
    "ring_size (TxRingNumDescs (options xsk))" "0 < FrameSize (options xsk)"
    "NumFrames (options xsk) * FrameSize (options xsk) < 18446744073709551616"
  using assms by (auto simp: sock_wf_def Let_def ring_wf_def)

lemma GetTxDesc_eq:
  assumes wf: "sock_wf xsk"
  shows "GetTxDesc xsk = Ok (\<lparr>Addr = word_of_nat (tx_frame (options xsk) (txIndex xsk + 1) * FrameSize (options xsk)),
      Len = word_of_nat (FrameSize (options xsk))\<rparr>, xsk\<lparr>txIndex := txIndex xsk + 1\<rparr>)"
proof -
  let ?n = "CompletionRingNumDescs (options xsk)"
  note n = ring_size_u64 [OF sock_wf_sizes(2) [OF wf]]
  have pos: "0 < ?n" using ring_size_pos [OF sock_wf_sizes(2) [OF wf]] .
  have "unat ((txIndex xsk + 1) mod word_of_nat ?n) = unat (txIndex xsk + 1) mod ?n"
    by (simp add: unat_mod_distrib n)
  then have "word_of_nat (unat ((txIndex xsk + 1) mod word_of_nat ?n)) =
      (word_of_nat (unat (txIndex xsk + 1) mod ?n) :: u64)"
    by (rule arg_cong)
  then have "(txIndex xsk + 1) mod word_of_nat ?n = word_of_nat (unat (txIndex xsk + 1) mod ?n)"
    by simp
  moreover have "(word_of_nat ?n :: u64) \<noteq> 0" using n pos by (metis unsigned_0 less_numeral_extra(3))
  ultimately show ?thesis by (simp add: GetTxDesc_def Let_def tx_frame_def)
qed

lemma tx_frame_bounds:
  assumes "sock_wf xsk" "tx_fits (options xsk)"
  shows "0 < tx_frame (options xsk) i" "FillRingNumDescs (options xsk) \<le> tx_frame (options xsk) i"
    "(tx_frame (options xsk) i + 1) * FrameSize (options xsk) \<le> NumFrames (options xsk) * FrameSize (options xsk)"
proof -
  let ?o = "options xsk"
  have pos: "0 < FillRingNumDescs ?o" "0 < CompletionRingNumDescs ?o"
    using ring_size_pos sock_wf_sizes(1,2) [OF assms(1)] by blast+
  then have "unat i mod CompletionRingNumDescs ?o < CompletionRingNumDescs ?o" by simp
  then have "tx_frame ?o i + 1 \<le> NumFrames ?o"
    using assms(2) by (simp add: tx_frame_def tx_fits_def)
  then show "(tx_frame ?o i + 1) * FrameSize ?o \<le> NumFrames ?o * FrameSize ?o"
    by (rule mult_le_mono1)
  show "0 < tx_frame ?o i" "FillRingNumDescs ?o \<le> tx_frame ?o i"
    using pos by (simp_all add: tx_frame_def)
qed

definition frame_bytes :: "Socket \<Rightarrow> nat \<Rightarrow> bytes" where
  "frame_bytes xsk f =
     (case umem xsk of None \<Rightarrow> [] | Some m \<Rightarrow> take (FrameSize (options xsk)) (drop (f * FrameSize (options xsk)) m))"

lemma length_copy_frame [simp]: "lo \<le> hi \<Longrightarrow> hi \<le> length mem \<Longrightarrow> length (copy_frame lo hi data mem) = length mem"
  by (auto simp: copy_frame_def Let_def)

lemma copy_frame_same:
  assumes "lo + k \<le> length mem"
  shows "take k (drop lo (copy_frame lo (lo + k) data mem)) =
    take k data @ drop (length data) (take k (drop lo mem))"
proof -
  let ?n = "min (length data) k"
  have "drop lo (copy_frame lo (lo + k) data mem) = take ?n data @ drop (lo + ?n) mem"
    using assms by (simp add: copy_frame_def Let_def)
  then have "take k (drop lo (copy_frame lo (lo + k) data mem)) = take ?n data @ take (k - ?n) (drop (lo + ?n) mem)"
    by (simp add: min_def)
  moreover have "take ?n data = take k data" by (simp add: min_def)
  moreover have "take (k - ?n) (drop (lo + ?n) mem) = drop (length data) (take k (drop lo mem))"
    by (cases "length data \<le> k") (simp_all add: min_def drop_take ac_simps)
  ultimately show ?thesis by simp
qed

lemma copy_frame_other:
  assumes "(f + 1) * k \<le> length mem" "g \<noteq> f"
  shows "take k (drop (g * k) (copy_frame (f * k) (f * k + k) data mem)) = take k (drop (g * k) mem)"
proof (rule nth_equalityI)
  show len: "length (take k (drop (g * k) (copy_frame (f * k) (f * k + k) data mem))) = length (take k (drop (g * k) mem))"
    using assms(1) by simp
  fix i assume "i < length (take k (drop (g * k) (copy_frame (f * k) (f * k + k) data mem)))"
  then have i: "i < k" "g * k + i < length mem" using assms(1) by auto
  have "g * k + i < f * k \<or> f * k + k \<le> g * k + i"
  proof (cases "g < f")
    case True
    then have "(g + 1) * k \<le> f * k" by (intro mult_le_mono1) simp
    then show ?thesis using i(1) by simp
  next
    case False
    then have "(f + 1) * k \<le> g * k" using assms(2) by (intro mult_le_mono1) simp
    then show ?thesis by simp
  qed
  then have "copy_frame (f * k) (f * k + k) data mem ! (g * k + i) = mem ! (g * k + i)"
    using i assms(1) by (auto simp: copy_frame_def Let_def nth_append min_def)
  then show "take k (drop (g * k) (copy_frame (f * k) (f * k + k) data mem)) ! i = take k (drop (g * k) mem) ! i"
    using i assms(1) by simp
qed

text \<open>One message: the frame it goes to, and that no other frame changes.\<close>

lemma SendMsg_prepare_ok:
  assumes wf: "sock_wf xsk" and fits: "tx_fits (options xsk)"
  defines "f \<equiv> tx_frame (options xsk) (txIndex xsk + 1)"
  shows "\<exists>xsk'. SendMsg_prepare data xsk =
      Ok (Some \<lparr>Addr = word_of_nat (f * FrameSize (options xsk)), Len = word_of_nat (length data)\<rparr>, xsk')
    \<and> sock_wf xsk' \<and> options xsk' = options xsk \<and> txIndex xsk' = txIndex xsk + 1
    \<and> txChan xsk' = txChan xsk \<and> txRing xsk' = txRing xsk \<and> completionRing xsk' = completionRing xsk
    \<and> (\<forall>g. frame_bytes xsk' g =
          (if g = f then take (FrameSize (options xsk)) data @ drop (length data) (frame_bytes xsk f)
           else frame_bytes xsk g))"
proof -
  let ?o = "options xsk" and ?k = "FrameSize (options xsk)"
  note f = tx_frame_bounds [OF wf fits, of "txIndex xsk + 1", folded f_def]
  obtain m where m: "umem xsk = Some m" "length m = NumFrames ?o * ?k"
    using wf by (auto simp: sock_wf_def Let_def)
  have small: "NumFrames ?o * ?k < 18446744073709551616" and k: "0 < ?k" "?k < 4294967296"
    using sock_wf_sizes [OF wf] fits by (simp_all add: tx_fits_def)
  have le: "f * ?k + ?k \<le> length m" using f(3) m(2) by simp
  have lo: "unat (word_of_nat (f * ?k) :: u64) = f * ?k"
    using le small m(2) by (intro unat_u64) linarith
  have "word_of_nat (f * ?k) + ucast (word_of_nat ?k :: u32) = (word_of_nat (f * ?k + ?k) :: u64)"
  proof -
    have "ucast (word_of_nat ?k :: u32) = (word_of_nat ?k :: u64)"
      using k(2) by (intro unsigned_word_eqI) (simp add: unsigned_ucast_eq unsigned_of_nat take_bit_nat_eq_self)
    then show ?thesis by simp
  qed
  then have hi: "unat (word_of_nat (f * ?k) + ucast (word_of_nat ?k :: u32) :: u64) = f * ?k + ?k"
    using le small m(2) unat_u64 [of "f * ?k + ?k"] by simp
  have nz: "(word_of_nat (f * ?k) :: u64) \<noteq> 0"
  proof
    assume "(word_of_nat (f * ?k) :: u64) = 0"
    then have "f * ?k = 0" using lo by (metis unsigned_0)
    then show False using f(1) k(1) by simp
  qed
  define a :: u64 where "a = word_of_nat (f * ?k)"
  define l :: u32 where "l = word_of_nat ?k"
  note lo = lo [folded a_def] and hi = hi [folded a_def l_def] and nz = nz [folded a_def]
  have "GetTxDesc xsk = Ok (\<lparr>Addr = a, Len = l\<rparr>, xsk\<lparr>txIndex := txIndex xsk + 1\<rparr>)"
    by (simp only: GetTxDesc_eq [OF wf, folded f_def] a_def l_def)
  then have "SendMsg_prepare data xsk =
      Ok (Some \<lparr>Addr = a, Len = word_of_nat (length data)\<rparr>,
          xsk\<lparr>txIndex := txIndex xsk + 1, umem := Some (copy_frame (f * ?k) (f * ?k + ?k) data m)\<rparr>)"
    using le nz by (simp add: SendMsg_prepare_def GetFrame_def m(1) lo hi Let_def)
  moreover have "sock_wf (xsk\<lparr>txIndex := txIndex xsk + 1, umem := Some (copy_frame (f * ?k) (f * ?k + ?k) data m)\<rparr>)"
    using wf m le by (simp add: sock_wf_def Let_def)
  moreover have "frame_bytes (xsk\<lparr>txIndex := txIndex xsk + 1, umem := Some (copy_frame (f * ?k) (f * ?k + ?k) data m)\<rparr>) g =
      (if g = f then take ?k data @ drop (length data) (frame_bytes xsk f) else frame_bytes xsk g)" for g
    using le copy_frame_same [OF le, of data] copy_frame_other [of f ?k m g data] m(1)
    by (simp add: frame_bytes_def)
  ultimately show ?thesis
    unfolding a_def
    by (intro exI [of _ "xsk\<lparr>txIndex := txIndex xsk + 1, umem := Some (copy_frame (f * ?k) (f * ?k + ?k) data m)\<rparr>"]
        conjI) simp_all
qed

text \<open>What a descriptor names, and that it names the message when that fits into a frame.\<close>

definition desc_bytes :: "Socket \<Rightarrow> Desc \<Rightarrow> bytes" where
  "desc_bytes xsk d =
     (case umem xsk of None \<Rightarrow> [] | Some m \<Rightarrow> take (unat (Len d)) (drop (unat (Addr d)) m))"

lemma SendMsg_prepare_desc:
  assumes "sock_wf xsk" "tx_fits (options xsk)" "length data \<le> FrameSize (options xsk)"
  shows "\<exists>d xsk'. SendMsg_prepare data xsk = Ok (Some d, xsk') \<and> txChan xsk' = txChan xsk \<and> desc_bytes xsk' d = data"
proof -
  let ?o = "options xsk" and ?f = "tx_frame (options xsk) (txIndex xsk + 1)"
  let ?d = "\<lparr>Addr = word_of_nat (?f * FrameSize ?o), Len = word_of_nat (length data)\<rparr>"
  from SendMsg_prepare_ok [OF assms(1,2), of data] obtain xsk' where xsk': "SendMsg_prepare data xsk = Ok (Some ?d, xsk')"
      "sock_wf xsk'" "options xsk' = ?o" "txChan xsk' = txChan xsk"
      "frame_bytes xsk' ?f = take (FrameSize ?o) data @ drop (length data) (frame_bytes xsk ?f)"
    by metis
  obtain m where m: "umem xsk' = Some m" using xsk'(2) by (auto simp: sock_wf_def Let_def)
  have "length data < 4294967296" using assms(2,3) by (simp add: tx_fits_def)
  then have len: "unat (Len ?d) = length data" by (simp add: unsigned_of_nat take_bit_nat_eq_self)
  have "(?f + 1) * FrameSize ?o < 18446744073709551616"
    using tx_frame_bounds(3) [OF assms(1,2), of "txIndex xsk + 1"] sock_wf_sizes(5) [OF assms(1)] by linarith
  then have "?f * FrameSize ?o < 18446744073709551616" by simp
  from unat_u64 [OF this] have addr: "unat (Addr ?d) = ?f * FrameSize ?o" by (simp only: Desc.simps)
  have "desc_bytes xsk' ?d = take (length data) (drop (?f * FrameSize ?o) m)"
    unfolding desc_bytes_def m len addr by simp
  also have "\<dots> = take (length data) (frame_bytes xsk' ?f)"
    using assms(3) by (simp add: frame_bytes_def m xsk'(3) min_def)
  also have "\<dots> = data" using assms(3) by (simp add: xsk'(5))
  finally show ?thesis using xsk'(1,4) by blast
qed

text \<open>Several messages in a row.\<close>

fun prepare_all :: "bytes list \<Rightarrow> Socket \<Rightarrow> (unit, Desc option list \<times> Socket) res" where
  "prepare_all [] xsk = Ok ([], xsk)"
| "prepare_all (data # datas) xsk =
     bind_res (SendMsg_prepare data xsk) (\<lambda>(d, xsk').
       map_ok (\<lambda>(ds, xsk''). (d # ds, xsk'')) (prepare_all datas xsk'))"

lemma tx_frame_add:
  assumes "ring_size (CompletionRingNumDescs opts)"
  shows "tx_frame opts (c + word_of_nat i) = FillRingNumDescs opts + (unat c + i) mod CompletionRingNumDescs opts"
proof -
  let ?n = "CompletionRingNumDescs opts"
  from assms obtain k where k: "k < 32" "?n = 2 ^ k" by (auto simp: ring_size_def)
  then have dvd: "?n dvd 18446744073709551616"
    using le_imp_power_dvd [of k 64 "2 :: nat"] by simp
  have "unat (c + word_of_nat i) = (unat c + i) mod 18446744073709551616"
    by (simp add: unat_word_ariths unsigned_of_nat take_bit_eq_mod mod_add_right_eq)
  then show ?thesis using dvd by (simp add: tx_frame_def mod_mod_cancel)
qed

lemma mod_window:
  assumes "i < n" "j < n" "((c :: nat) + i) mod n = (c + j) mod n"
  shows "i = j"
proof -
  have le: "i = j" if "i \<le> j" "j < n" "(c + i) mod n = (c + j) mod n" for i j
  proof -
    have "n dvd (c + j) - (c + i)" using that by (metis mod_eq_dvd_iff_nat add_le_cancel_left)
    then have "n dvd j - i" by simp
    then show ?thesis using that by (auto dest: dvd_imp_le)
  qed
  from le [of i j] le [of j i] assms show ?thesis by (metis nat_le_linear)
qed

lemma tx_frame_inj:
  assumes "ring_size (CompletionRingNumDescs opts)" "i < CompletionRingNumDescs opts" "j < CompletionRingNumDescs opts"
    and "tx_frame opts (c + word_of_nat i) = tx_frame opts (c + word_of_nat j)"
  shows "i = j"
  using assms(4) mod_window [OF assms(2,3)] by (simp add: tx_frame_add [OF assms(1)])

text \<open>The contents of frame \<open>g\<close> after a run of messages: that of the last one that went there.\<close>

fun frame_after :: "SocketOptions \<Rightarrow> u64 \<Rightarrow> bytes list \<Rightarrow> nat \<Rightarrow> bytes \<Rightarrow> bytes" where
  "frame_after opts inc [] g old = old"
| "frame_after opts inc (data # datas) g old =
     frame_after opts (inc + 1) datas g
       (if g = tx_frame opts (inc + 1) then take (FrameSize opts) data @ drop (length data) old else old)"

lemma prepare_all_ok:
  "sock_wf xsk \<Longrightarrow> tx_fits (options xsk) \<Longrightarrow>
   \<exists>xsk'. prepare_all datas xsk =
      Ok (map (\<lambda>i. Some \<lparr>Addr = word_of_nat (tx_frame (options xsk) (txIndex xsk + 1 + word_of_nat i) * FrameSize (options xsk)),
                          Len = word_of_nat (length (datas ! i))\<rparr>) [0..<length datas], xsk')
    \<and> sock_wf xsk' \<and> options xsk' = options xsk
    \<and> (\<forall>g. frame_bytes xsk' g = frame_after (options xsk) (txIndex xsk) datas g (frame_bytes xsk g))"
proof (induction datas arbitrary: xsk)
  case Nil
  then show ?case by simp
next
  case (Cons data datas)
  obtain xsk1 where xsk1: "SendMsg_prepare data xsk =
      Ok (Some \<lparr>Addr = word_of_nat (tx_frame (options xsk) (txIndex xsk + 1) * FrameSize (options xsk)),
                Len = word_of_nat (length data)\<rparr>, xsk1)"
      "sock_wf xsk1" "options xsk1 = options xsk" "txIndex xsk1 = txIndex xsk + 1"
      "\<forall>g. frame_bytes xsk1 g =
          (if g = tx_frame (options xsk) (txIndex xsk + 1)
           then take (FrameSize (options xsk)) data
                @ drop (length data) (frame_bytes xsk (tx_frame (options xsk) (txIndex xsk + 1)))
           else frame_bytes xsk g)"
    using SendMsg_prepare_ok [OF Cons.prems, of data] by blast
  obtain xsk2 where xsk2: "prepare_all datas xsk1 =
      Ok (map (\<lambda>i. Some \<lparr>Addr = word_of_nat (tx_frame (options xsk) (txIndex xsk + 2 + word_of_nat i) * FrameSize (options xsk)),
                          Len = word_of_nat (length (datas ! i))\<rparr>) [0..<length datas], xsk2)"
      "sock_wf xsk2" "options xsk2 = options xsk"
      "\<forall>g. frame_bytes xsk2 g = frame_after (options xsk) (txIndex xsk + 1) datas g (frame_bytes xsk1 g)"
    using Cons.IH [of xsk1] xsk1 Cons.prems by (auto simp: ac_simps)
  have "[0..<length (data # datas)] = 0 # map Suc [0..<length datas]"
    by (simp add: map_Suc_upt upt_conv_Cons del: upt_Suc)
  with xsk1 xsk2 show ?case
    by (intro exI [of _ xsk2]) (simp add: ac_simps comp_def del: upt_Suc)
qed

text \<open>
  Up to as many messages as there are transmit frames: every one ends up in a frame of its own.
\<close>

lemma frame_after_other:
  assumes "ring_size (CompletionRingNumDescs opts)"
    and "\<forall>i < length datas. g \<noteq> tx_frame opts (inc + 1 + word_of_nat i)"
  shows "frame_after opts inc datas g old = old"
  using assms(2)
proof (induction datas arbitrary: inc old)
  case Nil
  then show ?case by simp
next
  case (Cons data datas)
  have "g \<noteq> tx_frame opts (inc + 1)" using Cons.prems [rule_format, of 0] by simp
  moreover have "g \<noteq> tx_frame opts (inc + 1 + 1 + word_of_nat i)" if "i < length datas" for i
    using Cons.prems [rule_format, of "Suc i"] that by (simp add: ac_simps)
  ultimately show ?case using Cons.IH by simp
qed

lemma frame_after_own:
  assumes "ring_size (CompletionRingNumDescs opts)" "length datas \<le> CompletionRingNumDescs opts" "i < length datas"
  shows "frame_after opts inc datas (tx_frame opts (inc + 1 + word_of_nat i)) old =
    take (FrameSize opts) (datas ! i) @ drop (length (datas ! i)) old"
  using assms(2,3)
proof (induction datas arbitrary: inc i)
  case Nil
  then show ?case by simp
next
  case (Cons data datas)
  show ?case
  proof (cases i)
    case 0
    have "tx_frame opts (inc + 1) \<noteq> tx_frame opts (inc + 1 + 1 + word_of_nat j)" if "j < length datas" for j
      using tx_frame_inj [OF assms(1), of 0 "Suc j" "inc + 1"] that Cons.prems(1) by (auto simp: ac_simps)
    then show ?thesis using 0 frame_after_other [OF assms(1), of datas] by simp
  next
    case (Suc j)
    have "tx_frame opts (inc + 1 + word_of_nat i) \<noteq> tx_frame opts (inc + 1)"
      using tx_frame_inj [OF assms(1), of 0 i "inc + 1"] Suc Cons.prems by auto
    moreover have "tx_frame opts (inc + 1 + word_of_nat i) = tx_frame opts (inc + 1 + 1 + word_of_nat j)"
      by (simp add: Suc ac_simps)
    ultimately show ?thesis using Cons.IH [of j "inc + 1"] Suc Cons.prems by simp
  qed
qed

subsection \<open>Properties\<close>

text \<open>
  What \<open>NewSocket\<close> needs, in the order it asks: each row is whether the answer (or the setting) is
  good, the error when it is not, and what is then still held.
\<close>

definition new_steps :: "SocketOptions \<Rightarrow> sys_answers \<Rightarrow> (bool \<times> new_error \<times> resource list) list" where
  "new_steps opts s =
     (let rx = RxRingNumDescs opts \<noteq> 0; tx = TxRingNumDescs opts \<noteq> 0
      in [(s_socket s \<noteq> None, Err_Socket, []),
          (s_umem s \<and> NumFrames opts * FrameSize opts \<noteq> 0, Err_Mmap, []),
          (s_umem_reg s, Err_Umem_Reg, []),
          (s_fill s, Err_Fill_Ring, []),
          (s_completion s, Err_Completion_Ring, []),
          (rx \<longrightarrow> s_rx s, Err_Rx_Ring, []),
          (tx \<longrightarrow> s_tx s, Err_Tx_Ring, []),
          (rx \<or> tx, Err_Both_Zero, [R_Fd, R_Umem]),
          (s_offsets s, Err_Offsets, []),
          (s_map_fill s, Err_Mmap_Ring, []),
          (s_map_completion s, Err_Mmap_Ring, [R_FillRing]),
          (rx \<longrightarrow> s_map_rx s, Err_Mmap_Ring, [R_FillRing, R_CompletionRing]),
          (tx \<longrightarrow> s_map_tx s, Err_Mmap_Ring, [R_FillRing, R_CompletionRing] @ (if rx then [R_RxRing] else [])),
          (s_bind s, ErrBindFailed,
             [R_FillRing, R_CompletionRing] @ (if rx then [R_RxRing] else []) @ (if tx then [R_TxRing] else []))])"

definition first_failure :: "SocketOptions \<Rightarrow> sys_answers \<Rightarrow> (new_error \<times> resource list) option" where
  "first_failure opts s = map_option snd (find (\<lambda>step. \<not> fst step) (new_steps opts s))"

lemma first_failure_None: "first_failure opts s = None \<longleftrightarrow> (\<forall>step \<in> set (new_steps opts s). fst step)"
  unfolding first_failure_def map_option_is_None find_None_iff by blast

text \<open>The socket before its rings are mapped, and the two parts of \<open>NewSocket\<close> against the table.\<close>

definition opened_socket :: "int \<Rightarrow> SocketOptions \<Rightarrow> int \<Rightarrow> Socket" where
  "opened_socket index opts n =
     (blank_socket index opts)\<lparr>fd := n, umem := Some (replicate (NumFrames opts * FrameSize opts) 0)\<rparr>"

lemma find_append: "find P (xs @ ys) = (case find P xs of None \<Rightarrow> find P ys | Some x \<Rightarrow> Some x)"
  by (induction xs) simp_all

lemma NewSocket_open_steps:
  assumes "s_socket s = Some n" "0 \<le> n" "s_munmap s"
  shows "NewSocket_open index (Some opts) s =
    (case find (\<lambda>step. \<not> fst step) (take 9 (new_steps opts s)) of
       Some step \<Rightarrow> Ok (Inl (snd step))
     | None \<Rightarrow> Ok (Inr (opened_socket index opts n, [R_Fd, R_Umem])))"
proof -
  define xsk0 where "xsk0 = (blank_socket index opts)\<lparr>fd := n\<rparr>"
  have fail: "fail_closed s e xsk0 [R_Fd] = Ok (Inl (e, []))"
      "fail_closed s e (opened_socket index opts n) [R_Fd, R_Umem] = Ok (Inl (e, []))" for e
    using assms(2,3) by (simp_all add: fail_closed_eq xsk0_def opened_socket_def blank_socket_def)
  have "xsk0\<lparr>umem := Some (replicate (NumFrames opts * FrameSize opts) 0)\<rparr> = opened_socket index opts n"
    by (simp add: xsk0_def opened_socket_def)
  then show ?thesis
    using assms(1)
    by (simp add: NewSocket_open_def new_steps_def Let_def xsk0_def [symmetric] fail)
qed

lemma NewSocket_map_steps:
  assumes "fd xsk \<noteq> -1" "umem xsk \<noteq> None" "s_munmap s" "txChan xsk = None" "options xsk = opts"
  shows "NewSocket_map s xsk [R_Fd, R_Umem] =
    (case find (\<lambda>step. \<not> fst step) (drop 9 (new_steps opts s)) of
       Some step \<Rightarrow> Ok (Inl (snd step))
     | None \<Rightarrow> Ok (Inr (mapped_socket xsk, [R_Fd, R_Umem, R_FillRing, R_CompletionRing]
           @ (if RxRingNumDescs opts \<noteq> 0 then [R_RxRing] else []) @ (if TxRingNumDescs opts \<noteq> 0 then [R_TxRing] else []))))"
proof -
  have fail: "fail_closed s e xsk' held = Ok (Inl (e, filter (\<lambda>r. r \<noteq> R_Fd \<and> r \<noteq> R_Umem) held))"
    if "fd xsk' = fd xsk" "umem xsk' = umem xsk" "txChan xsk' = None" for e xsk' held
  proof -
    have "(\<lambda>r. \<not> (r = R_Fd \<and> fd xsk' \<noteq> -1) \<and> \<not> (r = R_Umem \<and> umem xsk' \<noteq> None \<and> s_munmap s)) =
        (\<lambda>r. r \<noteq> R_Fd \<and> r \<noteq> R_Umem)"
      using that assms by auto
    then show ?thesis using that by (simp add: fail_closed_eq)
  qed
  show ?thesis
    using assms(4,5) by (simp add: NewSocket_map_def new_steps_def mapped_socket_def Let_def fail)
qed

lemma NewSocket_steps:
  assumes "\<forall>n. s_socket s = Some n \<longrightarrow> 0 \<le> n" "s_munmap s"
  shows "NewSocket index (Some opts) s =
    (case first_failure opts s of
       Some failure \<Rightarrow> Ok (Inl failure)
     | None \<Rightarrow> Ok (Inr (mapped_socket (opened_socket index opts (the (s_socket s))),
           [R_Fd, R_Umem, R_FillRing, R_CompletionRing]
           @ (if RxRingNumDescs opts \<noteq> 0 then [R_RxRing] else []) @ (if TxRingNumDescs opts \<noteq> 0 then [R_TxRing] else []))))"
proof (cases "s_socket s")
  case None
  then show ?thesis by (simp add: NewSocket_def NewSocket_open_def first_failure_def new_steps_def Let_def)
next
  case (Some n)
  then have n: "0 \<le> n" using assms(1) by blast
  have opened: "fd (opened_socket index opts n) \<noteq> -1" "umem (opened_socket index opts n) \<noteq> None"
      "txChan (opened_socket index opts n) = None" "options (opened_socket index opts n) = opts"
    using n by (simp_all add: opened_socket_def blank_socket_def)
  have "find (\<lambda>step. \<not> fst step) (new_steps opts s) =
      (case find (\<lambda>step. \<not> fst step) (take 9 (new_steps opts s)) of
         None \<Rightarrow> find (\<lambda>step. \<not> fst step) (drop 9 (new_steps opts s)) | Some x \<Rightarrow> Some x)"
    by (metis append_take_drop_id find_append)
  then show ?thesis
    using Some NewSocket_open_steps [OF Some n assms(2), of index opts]
      NewSocket_map_steps [OF opened(1,2) assms(2) opened(3,4)]
    by (simp add: NewSocket_def first_failure_def split: option.splits)
qed

text \<open>
  C29. Which answers of the system lead to which result of \<open>NewSocket\<close> (on a machine where unmapping
  works). It never panics. If all answers that the ring sizes call for are good, and only then, it
  returns a socket with the given descriptor, interface and options, a zeroed umem, every receive
  frame free and open channels of the capacities that the options give; with ring sizes that are powers of two
  it is well-formed and its rings are empty. Otherwise it returns the error of the first answer that
  is not good, and holds neither the descriptor nor the umem any more, with one exception, which holds
  both: receive and transmit ring both of size zero. The mappings of the rings are never released: a
  failed bind, the way the caller finds out how many queues an interface has, leaves them all.
\<close>

theorem NewSocket_outcome:
  assumes "\<forall>n. s_socket s = Some n \<longrightarrow> 0 \<le> n" "s_munmap s"
  shows "case first_failure opts s of
      Some (e, held) \<Rightarrow> NewSocket index (Some opts) s = Ok (Inl (e, held))
        \<and> (if e = Err_Both_Zero then held = [R_Fd, R_Umem] else R_Fd \<notin> set held \<and> R_Umem \<notin> set held)
        \<and> (e = ErrBindFailed \<longrightarrow> {R_FillRing, R_CompletionRing} \<subseteq> set held
            \<and> (\<forall>step \<in> set (new_steps opts s). fst step \<or> step = (s_bind s, e, held)))
    | None \<Rightarrow> (\<forall>step \<in> set (new_steps opts s). fst step)
        \<and> (\<exists>xsk held. NewSocket index (Some opts) s = Ok (Inr (xsk, held)) \<and> {R_Fd, R_Umem} \<subseteq> set held
          \<and> s_socket s = Some (fd xsk) \<and> ifindex xsk = index \<and> options xsk = opts
          \<and> umem xsk = Some (replicate (NumFrames opts * FrameSize opts) 0)
          \<and> freeRXDescs xsk = replicate (NumFrames opts) True
          \<and> txChan xsk = Some (make_chan (FillRingNumDescs opts div 2)) \<and> manualTriggerTX xsk = Some (make_chan 1)
          \<and> (opts_ok opts \<longrightarrow> sock_wf xsk \<and> fill_queue xsk = [] \<and> rx_queue xsk = [] \<and> tx_queue xsk = []))"
proof (cases "first_failure opts s")
  case None
  then have all: "\<forall>step \<in> set (new_steps opts s). fst step" by (simp add: first_failure_None)
  then have "s_socket s \<noteq> None" by (simp add: new_steps_def Let_def)
  then obtain n where n: "s_socket s = Some n" by blast
  let ?xsk = "mapped_socket (opened_socket index opts n)"
  have fields: "fd ?xsk = n" "ifindex ?xsk = index" "options ?xsk = opts"
      "umem ?xsk = Some (replicate (NumFrames opts * FrameSize opts) 0)"
      "freeRXDescs ?xsk = replicate (NumFrames opts) True"
      "txChan ?xsk = Some (make_chan (FillRingNumDescs opts div 2))" "manualTriggerTX ?xsk = Some (make_chan 1)"
    by (simp_all add: mapped_socket_def opened_socket_def blank_socket_def Let_def)
  have "sock_wf ?xsk" if "opts_ok opts"
    using that mapped_socket_wf [of "opened_socket index opts n" "replicate (NumFrames opts * FrameSize opts) 0"]
    by (simp add: opened_socket_def blank_socket_def)
  moreover have "fill_queue ?xsk = []" "rx_queue ?xsk = []" "tx_queue ?xsk = []" if "opts_ok opts"
    using that ring_size_pos
    by (simp_all add: mapped_socket_def opened_socket_def blank_socket_def Let_def ring_queue_def
        mapped_ring_def opts_ok_def)
  ultimately show ?thesis
    using None all NewSocket_steps [OF assms, of index opts] fields n by simp
next
  case (Some failure)
  obtain e held where f: "failure = (e, held)" by (cases failure)
  obtain ok where find: "find (\<lambda>step. \<not> fst step) (new_steps opts s) = Some (ok, e, held)"
    using Some f by (auto simp: first_failure_def)
  then have "\<not> ok" by (auto simp: find_Some_iff) (metis fst_conv)
  with find have "find (\<lambda>step. \<not> fst step) (new_steps opts s) = Some (False, e, held)" by simp
  then have "(if e = Err_Both_Zero then held = [R_Fd, R_Umem] else R_Fd \<notin> set held \<and> R_Umem \<notin> set held)
      \<and> (e = ErrBindFailed \<longrightarrow> {R_FillRing, R_CompletionRing} \<subseteq> set held
          \<and> (\<forall>step \<in> set (new_steps opts s). fst step \<or> step = (s_bind s, e, held)))"
    by (simp add: new_steps_def Let_def split: if_splits) (elim conjE, hypsubst, simp)+
  then show ?thesis using Some f NewSocket_steps [OF assms, of index opts] by simp
qed

definition all_well :: sys_answers where
  "all_well = \<lparr>s_socket = Some 5, s_umem = True, s_umem_reg = True, s_fill = True, s_completion = True,
     s_rx = True, s_tx = True, s_offsets = True, s_map_fill = True, s_map_completion = True,
     s_map_rx = True, s_map_tx = True, s_bind = True, s_close = True, s_munmap = True\<rparr>"

definition both_zero :: SocketOptions where
  "both_zero = DefaultSocketOptions\<lparr>RxRingNumDescs := 0, TxRingNumDescs := 0\<rparr>"

lemma NewSocket_both_zero: "NewSocket 1 (Some both_zero) all_well = Ok (Inl (Err_Both_Zero, [R_Fd, R_Umem]))"
  by (simp add: NewSocket_def NewSocket_open_def all_well_def both_zero_def DefaultSocketOptions_def Let_def)

text \<open>A system on which only the bind fails, and one on which nothing does.\<close>

theorem NewSocket_outcome_witness:
  "NewSocket 1 (Some DefaultSocketOptions) (all_well\<lparr>s_bind := False\<rparr>) =
     Ok (Inl (ErrBindFailed, [R_FillRing, R_CompletionRing, R_RxRing, R_TxRing]))
   \<and> (\<exists>xsk held. NewSocket 1 (Some DefaultSocketOptions) all_well = Ok (Inr (xsk, held)) \<and> fd xsk = 5)"
proof
  note opts = new_steps_def all_well_def DefaultSocketOptions_def Let_def
  have "first_failure DefaultSocketOptions (all_well\<lparr>s_bind := False\<rparr>) =
      Some (ErrBindFailed, [R_FillRing, R_CompletionRing, R_RxRing, R_TxRing])"
    by (simp add: first_failure_def opts)
  then show "NewSocket 1 (Some DefaultSocketOptions) (all_well\<lparr>s_bind := False\<rparr>) =
     Ok (Inl (ErrBindFailed, [R_FillRing, R_CompletionRing, R_RxRing, R_TxRing]))"
    using NewSocket_outcome [of "all_well\<lparr>s_bind := False\<rparr>" DefaultSocketOptions 1] by (simp add: all_well_def)
  have "first_failure DefaultSocketOptions all_well = None" by (simp add: first_failure_def opts)
  moreover have "s_socket all_well = Some 5" "s_munmap all_well" by (simp_all add: all_well_def)
  ultimately show "\<exists>xsk held. NewSocket 1 (Some DefaultSocketOptions) all_well = Ok (Inr (xsk, held)) \<and> fd xsk = 5"
    using NewSocket_outcome [of all_well DefaultSocketOptions 1] by auto
qed

text \<open>
  C30. \<open>Fill\<close> is an append to the queue of the fill ring. For descriptors of existing frames it
  never panics; it takes as many of them from the front as there are free slots, appends their
  addresses in order to what the kernel has not consumed yet, also across the wrap-around of the
  32-bit counters, marks exactly their frames as in use and adds their number to \<open>numFilled\<close>.
\<close>

theorem Fill_refines:
  assumes "sock_wf xsk" and "\<forall>d \<in> set descs. frame_of xsk (Addr d) < NumFrames (options xsk)"
  shows "\<exists>k xsk'. k = min (length descs) (FillRingNumDescs (options xsk) - length (fill_queue xsk))
    \<and> Fill descs xsk = Ok (k, xsk') \<and> sock_wf xsk'
    \<and> fill_queue xsk' = fill_queue xsk @ map Addr (take k descs)
    \<and> numFilled xsk' = numFilled xsk + int k
    \<and> (\<forall>f < NumFrames (options xsk). freeRXDescs xsk' ! f =
          (freeRXDescs xsk ! f \<and> f \<notin> (\<lambda>d. frame_of xsk (Addr d)) ` set (take k descs)))"
proof -
  let ?o = "options xsk"
  let ?n = "FillRingNumDescs ?o"
  let ?r = "fillRing xsk"
  have wf: "ring_wf ?n ?r" and pos: "0 < FrameSize ?o" and len: "length (freeRXDescs xsk) = NumFrames ?o"
    using assms(1) by (simp_all add: sock_wf_def Let_def)
  define k where "k = min (length descs) (?n - length (fill_queue xsk))"
  let ?ds = "take k descs"
  have free: "NumFreeFillSlots xsk = ?n - length (fill_queue xsk)"
    using wf by (simp add: NumFreeFillSlots_def num_free_eq)
  obtain r' where r': "ring.puts ?n (map Addr ?ds) ?r = Ok r'" "ring_wf ?n r'"
      "ring_queue ?n r' = fill_queue xsk @ map Addr ?ds"
    using ring.puts_room [OF wf, of "map Addr ?ds"] num_free_eq [OF wf] by (auto simp: k_def)
  have "\<forall>d \<in> set ?ds. unat (Addr d) div FrameSize ?o < length (freeRXDescs xsk)"
    using assms(2) len by (auto simp: frame_of_def dest: in_set_takeD)
  from fill_loop_puts [OF pos this r'(1)]
  have loop: "fill_loop ?o ?ds (Producer ?r) (Descs ?r) (freeRXDescs xsk) =
      Ok (Producer r', Descs r', mark_frames (FrameSize ?o) False ?ds (freeRXDescs xsk))"
    and cons: "Consumer r' = Consumer ?r" by simp_all
  have ds: "(if NumFreeFillSlots xsk < length descs then take (NumFreeFillSlots xsk) descs else descs) = ?ds"
    by (simp add: free k_def min_def)
  have len_ds: "length ?ds = k" by (simp add: k_def)
  let ?xsk = "xsk\<lparr>fillRing := r', freeRXDescs := mark_frames (FrameSize ?o) False ?ds (freeRXDescs xsk),
      numFilled := numFilled xsk + int k\<rparr>"
  have "Fill descs xsk = Ok (k, ?xsk)"
    unfolding Fill_def Let_def ds loop map_ok.simps split_conv len_ds ring_restore [OF cons] ..
  moreover have "sock_wf ?xsk"
    using assms(1) r'(2) by (simp add: sock_wf_def Let_def)
  moreover have "freeRXDescs ?xsk ! f = (freeRXDescs xsk ! f \<and> f \<notin> (\<lambda>d. frame_of xsk (Addr d)) ` set ?ds)"
    if "f < NumFrames ?o" for f
    using that len by (auto simp: nth_mark_frames frame_of_def)
  ultimately show ?thesis
    using r'(3) by (intro exI [of _ k] exI [of _ ?xsk]) (simp add: k_def)
qed

definition sample_opts :: SocketOptions where
  "sample_opts = \<lparr>NumFrames = 8, FrameSize = 4, FillRingNumDescs = 2, CompletionRingNumDescs = 4,
     RxRingNumDescs = 2, TxRingNumDescs = 4, TxStep = 1000\<rparr>"

text \<open>A socket whose counters are about to wrap, with one address in the fill ring.\<close>

definition sample_socket :: Socket where
  "sample_socket = (blank_socket 1 sample_opts)\<lparr>fd := 5, umem := Some (replicate 32 0),
     fillRing := \<lparr>Producer = 0, Consumer = 4294967295, Descs = [9, 8]\<rparr>,
     rxRing := \<lparr>Producer = 0, Consumer = 4294967295, Descs = [zero_Desc, \<lparr>Addr = 4, Len = 3\<rparr>]\<rparr>,
     txRing := mapped_ring 4 zero_Desc, completionRing := mapped_ring 4 0,
     freeRXDescs := replicate 8 True, getRXDescs_cap := 2\<rparr>"

lemma ring_size_small: "ring_size 2" "ring_size 4"
  unfolding ring_size_def by (rule exI [of _ 1], simp) (rule exI [of _ 2], simp)

lemma sample_socket_wf: "sock_wf sample_socket"
  by (simp add: sock_wf_def sample_socket_def blank_socket_def sample_opts_def ring_wf_def
      ring_size_small mapped_ring_def)

theorem Fill_refines_witness:
  "\<exists>xsk'. Fill [\<lparr>Addr = 12, Len = 4\<rparr>, \<lparr>Addr = 16, Len = 4\<rparr>] sample_socket = Ok (1, xsk')
     \<and> fill_queue xsk' = [8, 12] \<and> \<not> freeRXDescs xsk' ! 3"
proof -
  have q: "fill_queue sample_socket = [8]"
    by (simp add: sample_socket_def blank_socket_def sample_opts_def ring_queue_def slot_eq ring_size_small)
  have n: "unat (Producer (fillRing sample_socket) - Consumer (fillRing sample_socket)) = 1"
      "FillRingNumDescs (options sample_socket) = 2" "NumFrames (options sample_socket) = 8"
      "frame_of sample_socket 12 = 3" "frame_of sample_socket 16 = 4"
    by (simp_all add: sample_socket_def blank_socket_def sample_opts_def frame_of_def)
  obtain k xsk' where "k = 1" "Fill [\<lparr>Addr = 12, Len = 4\<rparr>, \<lparr>Addr = 16, Len = 4\<rparr>] sample_socket = Ok (k, xsk')"
      "fill_queue xsk' = fill_queue sample_socket @ map Addr (take k [\<lparr>Addr = 12, Len = 4\<rparr>, \<lparr>Addr = 16, Len = 4\<rparr>])"
      "\<forall>f < 8. freeRXDescs xsk' ! f = (freeRXDescs sample_socket ! f
          \<and> f \<notin> (\<lambda>d. frame_of sample_socket (Addr d)) ` set (take k [\<lparr>Addr = 12, Len = 4\<rparr>, \<lparr>Addr = 16, Len = 4\<rparr>]))"
    using Fill_refines [OF sample_socket_wf, of "[\<lparr>Addr = 12, Len = 4\<rparr>, \<lparr>Addr = 16, Len = 4\<rparr>]"] q n by auto
  then show ?thesis using q n by auto
qed

text \<open>
  C31. \<open>Receive\<close> takes the head of the queue of the receive ring: when the kernel's descriptors
  point to existing frames it never panics, gives the first \<open>num\<close> descriptors in order, or all
  that there are (none for a negative number), removes exactly those from the queue, frees their
  frames and subtracts their number from \<open>numFilled\<close>.
\<close>

theorem Receive_refines:
  assumes "sock_wf xsk" and "\<forall>d \<in> set (rx_queue xsk). frame_of xsk (Addr d) < NumFrames (options xsk)"
  shows "\<exists>k xsk'. k = min (nat num) (length (rx_queue xsk))
    \<and> Receive num xsk = Ok (take k (rx_queue xsk), xsk') \<and> sock_wf xsk'
    \<and> rx_queue xsk' = drop k (rx_queue xsk) \<and> numFilled xsk' = numFilled xsk - int k
    \<and> (\<forall>f < NumFrames (options xsk). freeRXDescs xsk' ! f =
          (freeRXDescs xsk ! f \<or> f \<in> (\<lambda>d. frame_of xsk (Addr d)) ` set (take k (rx_queue xsk))))"
proof -
  let ?o = "options xsk"
  let ?n = "RxRingNumDescs ?o"
  let ?r = "rxRing xsk"
  have wf: "ring_wf ?n ?r" and pos: "0 < FrameSize ?o" and len: "length (freeRXDescs xsk) = NumFrames ?o"
    using assms(1) by (simp_all add: sock_wf_def Let_def)
  define k where "k = min (nat num) (length (rx_queue xsk))"
  let ?ds = "take k (rx_queue xsk)"
  have used: "NumReceived xsk = length (rx_queue xsk)"
    using wf by (simp add: NumReceived_def num_used_eq)
  obtain r' where r': "ring.gets ?n k ?r = Ok (?ds, r')" "ring_wf ?n r'" "ring_queue ?n r' = drop k (rx_queue xsk)"
    using ring.gets_some [OF wf, of k] num_used_eq [OF wf] by (auto simp: k_def)
  have "\<forall>d \<in> set ?ds. unat (Addr d) div FrameSize ?o < length (freeRXDescs xsk)"
    using assms(2) len by (auto simp: frame_of_def dest: in_set_takeD)
  from receive_loop_gets [OF pos r'(1) this, of "[]"]
  have loop: "receive_loop ?o (Descs ?r) k (Consumer ?r) [] (freeRXDescs xsk) =
      Ok (?ds, Consumer r', mark_frames (FrameSize ?o) True ?ds (freeRXDescs xsk))"
    and same: "Producer r' = Producer ?r" "Descs r' = Descs ?r" by simp_all
  have "nat (if num > int m then int m else num) = min (nat num) m" for m
    by (simp add: min_def) arith
  then have num: "nat (if num > int (NumReceived xsk) then int (NumReceived xsk) else num) = k"
    by (simp only: used k_def)
  have len_ds: "length ?ds = k" by (simp add: k_def)
  let ?xsk = "xsk\<lparr>rxRing := r', freeRXDescs := mark_frames (FrameSize ?o) True ?ds (freeRXDescs xsk),
      numFilled := numFilled xsk - int k\<rparr>"
  have "Receive num xsk = Ok (?ds, ?xsk)"
    unfolding Receive_def Let_def num loop map_ok.simps split_conv len_ds ring_restore_get [OF same] ..
  moreover have "sock_wf ?xsk"
    using assms(1) r'(2) by (simp add: sock_wf_def Let_def)
  moreover have "freeRXDescs ?xsk ! f = (freeRXDescs xsk ! f \<or> f \<in> (\<lambda>d. frame_of xsk (Addr d)) ` set ?ds)"
    if "f < NumFrames ?o" for f
    using that len by (auto simp: nth_mark_frames frame_of_def)
  ultimately show ?thesis
    using r'(3) by (intro exI [of _ k] exI [of _ ?xsk]) (simp add: k_def)
qed

theorem Receive_refines_witness:
  "\<exists>xsk'. Receive 7 sample_socket = Ok ([\<lparr>Addr = 4, Len = 3\<rparr>], xsk') \<and> rx_queue xsk' = [] \<and> numFilled xsk' = -1"
proof -
  have q: "rx_queue sample_socket = [\<lparr>Addr = 4, Len = 3\<rparr>]"
    by (simp add: sample_socket_def blank_socket_def sample_opts_def ring_queue_def slot_eq ring_size_small)
  have n: "unat (Producer (rxRing sample_socket) - Consumer (rxRing sample_socket)) = 1"
      "numFilled sample_socket = 0" "frame_of sample_socket 4 < NumFrames (options sample_socket)"
    by (simp_all add: sample_socket_def blank_socket_def sample_opts_def frame_of_def)
  show ?thesis
    using Receive_refines [OF sample_socket_wf, of 7] q n by auto
qed

text \<open>
  C32. \<open>SendMsg\<close> hands out the transmit frames in turn: as many messages in a row as there are of
  them never panic and never meet "no free desc"; their descriptors have the messages' lengths and
  pairwise different frames, all behind the receive frames and inside the umem; and after the last
  of them every frame still holds its own message (cut off at the frame size), every other frame
  its old contents.
\<close>

theorem SendMsg_window:
  assumes "sock_wf xsk" "tx_fits (options xsk)" "length datas \<le> CompletionRingNumDescs (options xsk)"
  shows "\<exists>fs xsk'. prepare_all datas xsk =
      Ok (map (\<lambda>(f, data). Some \<lparr>Addr = word_of_nat (f * FrameSize (options xsk)), Len = word_of_nat (length data)\<rparr>)
            (zip fs datas), xsk')
    \<and> length fs = length datas \<and> distinct fs
    \<and> (\<forall>f \<in> set fs. FillRingNumDescs (options xsk) \<le> f \<and> f < NumFrames (options xsk))
    \<and> (\<forall>i < length datas. frame_bytes xsk' (fs ! i) =
          take (FrameSize (options xsk)) (datas ! i) @ drop (length (datas ! i)) (frame_bytes xsk (fs ! i)))
    \<and> (\<forall>g. g \<in> set fs \<or> frame_bytes xsk' g = frame_bytes xsk g)"
proof -
  let ?o = "options xsk"
  let ?f = "\<lambda>i. tx_frame ?o (txIndex xsk + 1 + word_of_nat i)"
  let ?fs = "map ?f [0..<length datas]"
  note size = sock_wf_sizes(2) [OF assms(1)]
  obtain xsk' where run: "prepare_all datas xsk =
      Ok (map (\<lambda>i. Some \<lparr>Addr = word_of_nat (?f i * FrameSize ?o), Len = word_of_nat (length (datas ! i))\<rparr>)
            [0..<length datas], xsk')"
      and after: "\<forall>g. frame_bytes xsk' g = frame_after ?o (txIndex xsk) datas g (frame_bytes xsk g)"
    using prepare_all_ok [OF assms(1,2)] by blast
  have "zip ?fs datas = map (\<lambda>i. (?f i, datas ! i)) [0..<length datas]"
    by (intro nth_equalityI) simp_all
  moreover have "distinct ?fs"
    using tx_frame_inj [OF size] assms(3) by (auto simp: distinct_map inj_on_def)
  moreover have "FillRingNumDescs ?o \<le> ?f i \<and> ?f i < NumFrames ?o" for i
  proof -
    note b = tx_frame_bounds [OF assms(1,2), of "txIndex xsk + 1 + word_of_nat i"]
    have "?f i + 1 \<le> NumFrames ?o"
      using b(3) sock_wf_sizes(4) [OF assms(1)] mult_le_cancel2 [of "?f i + 1" "FrameSize ?o" "NumFrames ?o"] by simp
    with b(2) show ?thesis by simp
  qed
  moreover have "\<forall>i < length datas. frame_bytes xsk' (?f i) =
      take (FrameSize ?o) (datas ! i) @ drop (length (datas ! i)) (frame_bytes xsk (?f i))"
    using after frame_after_own [OF size assms(3)] by simp
  moreover have "g \<in> set ?fs \<or> frame_bytes xsk' g = frame_bytes xsk g" for g
  proof (cases "\<forall>i < length datas. g \<noteq> ?f i")
    case True
    then show ?thesis using after frame_after_other [OF size True] by simp
  next
    case False
    then show ?thesis by auto
  qed
  ultimately show ?thesis
    using run by (intro exI [of _ ?fs] exI [of _ xsk']) (auto simp: comp_def)
qed

theorem SendMsg_window_witness:
  "\<exists>fs xsk'. prepare_all [[1, 2], [3]] sample_socket =
      Ok (map (\<lambda>(f, data). Some \<lparr>Addr = word_of_nat (f * 4), Len = word_of_nat (length data)\<rparr>)
            (zip fs [[1, 2], [3 :: u8]]), xsk') \<and> length fs = 2 \<and> distinct fs"
proof -
  have "options sample_socket = sample_opts" by (simp add: sample_socket_def blank_socket_def)
  then show ?thesis
    using SendMsg_window [OF sample_socket_wf, of "[[1, 2], [3]]"]
    by (auto simp: sample_opts_def tx_fits_def)
qed

end
