(* ===== verification/Xdp_Tx.thy ===== *)
theory Xdp_Tx
  imports Xdp_Socket
begin

section \<open>The transmit path (\<open>SendMsg\<close>, \<open>txWorker\<close>, \<open>txTransmit\<close> and the kernel)\<close>

text \<open>
  Many goroutines send at once, one worker moves descriptors from the channel into the transmit
  ring, one transmitter wakes the kernel, and the kernel takes descriptors off the ring. Each is
  broken into the steps between which the others can run, and a run is any interleaving.
\<close>

subsection \<open>States and steps\<close>

text \<open>
  \<open>pending\<close> are the descriptors of the senders that have copied their message and not yet got it
  into the channel, \<open>worker\<close> is the one \<open>txWorker\<close> holds, \<open>calling\<close> says whether \<open>txTransmit\<close> is
  inside \<open>doTransmit\<close>. Two histories are kept: \<open>sent\<close>, the descriptors in the order in which they
  entered the channel, and \<open>wire\<close>, those the kernel took.
\<close>

record tx_state =
  sock :: Socket
  pending :: "Desc list"
  worker :: "Desc option"
  calling :: bool
  sent :: "Desc list"
  wire :: "Desc list"

definition tx_full :: "Socket \<Rightarrow> bool" where
  "tx_full xsk \<longleftrightarrow> word_of_nat (TxRingNumDescs (options xsk)) = Producer (txRing xsk) - Consumer (txRing xsk)"

definition tx_empty :: "Socket \<Rightarrow> bool" where
  "tx_empty xsk \<longleftrightarrow> Producer (txRing xsk) = Consumer (txRing xsk)"

definition remove_at :: "nat \<Rightarrow> 'a list \<Rightarrow> 'a list" where
  "remove_at i xs = take i xs @ drop (Suc i) xs"

inductive tx_step :: "tx_state \<Rightarrow> tx_state \<Rightarrow> bool" where
  prepare: "SendMsg_prepare data (sock s) = Ok (Some d, xsk) \<Longrightarrow>
     tx_step s (s\<lparr>sock := xsk, pending := pending s @ [d]\<rparr>)"
| send: "i < length (pending s) \<Longrightarrow> SendMsg_send (pending s ! i) (sock s) = Ok xsk \<Longrightarrow>
     tx_step s (s\<lparr>sock := xsk, pending := remove_at i (pending s), sent := sent s @ [pending s ! i]\<rparr>)"
| worker_take: "worker s = None \<Longrightarrow> txChan (sock s) = Some c \<Longrightarrow> chan_recv c = Ok (Some d, c') \<Longrightarrow>
     tx_step s (s\<lparr>sock := (sock s)\<lparr>txChan := Some c'\<rparr>, worker := Some d\<rparr>)"
| worker_full: "worker s = Some d \<Longrightarrow> tx_full (sock s) \<Longrightarrow>
     manualTriggerTX (sock s) = Some t \<Longrightarrow> chan_send () t = Ok t' \<Longrightarrow>
     tx_step s (s\<lparr>sock := (sock s)\<lparr>manualTriggerTX := Some t'\<rparr>\<rparr>)"
| worker_put: "worker s = Some d \<Longrightarrow> \<not> tx_full (sock s) \<Longrightarrow>
     ring_put (TxRingNumDescs (options (sock s))) d (txRing (sock s)) = Ok r \<Longrightarrow>
     tx_step s (s\<lparr>sock := (sock s)\<lparr>txRing := r\<rparr>, worker := None\<rparr>)"
| tick: "\<not> calling s \<Longrightarrow> tx_step s (s\<lparr>calling := \<not> tx_empty (sock s)\<rparr>)"
| trigger: "\<not> calling s \<Longrightarrow> manualTriggerTX (sock s) = Some t \<Longrightarrow> chan_recv t = Ok (Some u, t') \<Longrightarrow>
     tx_step s (s\<lparr>sock := (sock s)\<lparr>manualTriggerTX := Some t'\<rparr>, calling := \<not> tx_empty (sock s)\<rparr>)"
| transmitted: "calling s \<Longrightarrow> doTransmit answers (sock s) = Some (Ok xsk) \<Longrightarrow>
     unat (Producer (completionRing xsk) - Consumer (completionRing xsk)) \<le> CompletionRingNumDescs (options xsk) \<Longrightarrow>
     tx_step s (s\<lparr>sock := xsk, calling := False\<rparr>)"
| kernel_take: "calling s \<Longrightarrow> \<not> tx_empty (sock s) \<Longrightarrow>
     ring_get (TxRingNumDescs (options (sock s))) (txRing (sock s)) = Ok (d, r) \<Longrightarrow>
     tx_step s (s\<lparr>sock := (sock s)\<lparr>txRing := r\<rparr>, wire := wire s @ [d]\<rparr>)"

text \<open>The start: a socket as \<open>NewSocket\<close> makes it, nobody sending.\<close>

definition tx_init :: "tx_state \<Rightarrow> bool" where
  "tx_init s \<longleftrightarrow>
     sock_wf (sock s) \<and> tx_queue (sock s) = []
     \<and> txChan (sock s) = Some (make_chan (FillRingNumDescs (options (sock s)) div 2))
     \<and> manualTriggerTX (sock s) = Some (make_chan 1)
     \<and> pending s = [] \<and> worker s = None \<and> \<not> calling s \<and> sent s = [] \<and> wire s = []"

inductive tx_reach :: "tx_state \<Rightarrow> tx_state \<Rightarrow> bool" where
  refl: "tx_reach s s"
| step: "tx_reach s s' \<Longrightarrow> tx_step s' s'' \<Longrightarrow> tx_reach s s''"

lemma tx_reach_trans: "tx_reach s' s'' \<Longrightarrow> tx_reach s s' \<Longrightarrow> tx_reach s s''"
  by (induction rule: tx_reach.induct) (auto intro: tx_reach.step)

lemma tx_reach_one: "tx_step s s' \<Longrightarrow> tx_reach s s'"
  by (rule tx_reach.step [OF tx_reach.refl])

subsection \<open>The queue that the transmit path is\<close>

definition in_chan :: "Socket \<Rightarrow> Desc list" where
  "in_chan xsk = (case txChan xsk of Some c \<Rightarrow> ch_buf c | None \<Rightarrow> [])"

definition in_flight :: "tx_state \<Rightarrow> Desc list" where
  "in_flight s = tx_queue (sock s) @ (case worker s of Some d \<Rightarrow> [d] | None \<Rightarrow> []) @ in_chan (sock s)"

definition tx_inv :: "tx_state \<Rightarrow> bool" where
  "tx_inv s \<longleftrightarrow>
     sock_wf (sock s) \<and> sent s = wire s @ in_flight s
     \<and> (\<exists>c. txChan (sock s) = Some c \<and> chan_ok (FillRingNumDescs (options (sock s)) div 2) c)
     \<and> (\<exists>t. manualTriggerTX (sock s) = Some t \<and> chan_ok 1 t)"

lemma tx_init_inv: "tx_init s \<Longrightarrow> tx_inv s"
  by (simp add: tx_init_def tx_inv_def in_flight_def in_chan_def make_chan_def chan_ok_def)

text \<open>What each operation changes of the socket.\<close>

lemma SendMsg_prepare_frame:
  assumes "SendMsg_prepare data xsk = Ok (r, xsk')"
  shows "options xsk' = options xsk" "txRing xsk' = txRing xsk" "txChan xsk' = txChan xsk"
    "manualTriggerTX xsk' = manualTriggerTX xsk" "sock_wf xsk \<Longrightarrow> sock_wf xsk'"
proof -
  obtain desc x1 where x1: "GetTxDesc xsk = Ok (desc, x1)"
    and x2: "(if Addr desc = 0 then Ok (None, x1)
        else bind_res (GetFrame desc x1) (\<lambda>(lo, hi).
          Ok (Some (desc\<lparr>Len := word_of_nat (length data)\<rparr>),
              x1\<lparr>umem := map_option (copy_frame lo hi data) (umem x1)\<rparr>))) = Ok (r, xsk')"
    using assms by (auto simp: SendMsg_prepare_def bind_res_Ok_iff)
  have tx: "x1 = xsk\<lparr>txIndex := txIndex xsk + 1\<rparr>"
    using x1 by (auto simp: GetTxDesc_def Let_def split: if_splits)
  consider "xsk' = x1" | lo hi where "GetFrame desc x1 = Ok (lo, hi)"
      "xsk' = x1\<lparr>umem := map_option (copy_frame lo hi data) (umem x1)\<rparr>"
    using x2 by (cases "Addr desc = 0"; cases "GetFrame desc x1") auto
  then have "options xsk' = options xsk \<and> txRing xsk' = txRing xsk \<and> txChan xsk' = txChan xsk
    \<and> manualTriggerTX xsk' = manualTriggerTX xsk \<and> (sock_wf xsk \<longrightarrow> sock_wf xsk')"
  proof cases
    case 1
    then show ?thesis by (simp add: tx sock_wf_def Let_def)
  next
    case 2
    then have "lo \<le> hi \<and> (\<forall>m. umem xsk = Some m \<longrightarrow> hi \<le> length m)"
      by (auto simp: GetFrame_def tx Let_def split: if_splits)
    then show ?thesis using 2(2) by (auto simp: tx sock_wf_def Let_def)
  qed
  then show "options xsk' = options xsk" "txRing xsk' = txRing xsk" "txChan xsk' = txChan xsk"
    "manualTriggerTX xsk' = manualTriggerTX xsk" "sock_wf xsk \<Longrightarrow> sock_wf xsk'"
    by blast+
qed

lemma doTransmit_frame:
  "doTransmit answers xsk = Some (Ok xsk') \<Longrightarrow>
   \<exists>p c. xsk' = xsk\<lparr>completionRing := (completionRing xsk)\<lparr>Producer := p, Consumer := c\<rparr>\<rparr>"
proof (induction answers xsk rule: doTransmit.induct)
  case (1 xsk)
  then show ?case by simp
next
  case (2 p answers xsk)
  then show ?case by (intro exI [of _ p] exI [of _ "Consumer (completionRing xsk)"]) auto
next
  case (3 e p answers xsk)
  let ?xsk = "xsk\<lparr>completionRing := (completionRing xsk)\<lparr>Producer := p\<rparr>\<rparr>"
  let ?xsk' = "let n = NumCompleted ?xsk in if n > 0 then Complete n ?xsk else ?xsk"
  have next_state: "\<exists>p c. ?xsk' = xsk\<lparr>completionRing := (completionRing xsk)\<lparr>Producer := p, Consumer := c\<rparr>\<rparr>"
  proof (cases "NumCompleted ?xsk > 0")
    case True
    then show ?thesis by (auto simp: Complete_def Let_def)
  next
    case False
    then show ?thesis
      by (intro exI [of _ p] exI [of _ "Consumer (completionRing xsk)"]) (simp add: Let_def)
  qed
  show ?case
  proof (cases "e = EINTR \<or> e = EAGAIN")
    case True
    then have "doTransmit answers ?xsk' = Some (Ok xsk')"
      using "3.prems" by (auto simp: Let_def)
    then obtain p1 c1 where "xsk' = ?xsk'\<lparr>completionRing := (completionRing ?xsk')\<lparr>Producer := p1, Consumer := c1\<rparr>\<rparr>"
      using True "3.IH" by (auto simp: Let_def)
    moreover obtain p2 c2 where "?xsk' = xsk\<lparr>completionRing := (completionRing xsk)\<lparr>Producer := p2, Consumer := c2\<rparr>\<rparr>"
      using next_state by blast
    ultimately have "xsk' = xsk\<lparr>completionRing := (completionRing xsk)\<lparr>Producer := p1, Consumer := c1\<rparr>\<rparr>"
      by simp
    then show ?thesis by blast
  next
    case False
    then have "xsk' = ?xsk" using "3.prems" by (cases e) (simp_all add: Let_def)
    then show ?thesis by (intro exI [of _ p] exI [of _ "Consumer (completionRing xsk)"]) simp
  qed
qed

text \<open>A full ring and an empty one, in terms of the queue.\<close>

lemma tx_full_iff:
  assumes "sock_wf xsk"
  shows "tx_full xsk \<longleftrightarrow> length (tx_queue xsk) = TxRingNumDescs (options xsk)"
proof -
  let ?n = "TxRingNumDescs (options xsk)"
  have "unat (word_of_nat ?n :: u32) = ?n" using unat_size [OF sock_wf_sizes(3) [OF assms]] .
  then show ?thesis by (auto simp: tx_full_def) (metis unsigned_word_eqI)
qed

lemma tx_empty_iff: "tx_empty xsk \<longleftrightarrow> tx_queue xsk = []"
proof -
  have "tx_queue xsk = [] \<longleftrightarrow> unat (Producer (txRing xsk) - Consumer (txRing xsk)) = 0"
    by (metis length_0_conv length_ring_queue)
  also have "\<dots> \<longleftrightarrow> Producer (txRing xsk) - Consumer (txRing xsk) = 0"
    by (metis unsigned_0 unsigned_word_eqI)
  finally show ?thesis by (simp add: tx_empty_def)
qed

lemma sock_wf_tx: "sock_wf xsk \<Longrightarrow> ring_wf (TxRingNumDescs (options xsk)) (txRing xsk)"
  by (simp add: sock_wf_def Let_def)

lemma sock_wf_tx_update:
  "sock_wf xsk \<Longrightarrow> ring_wf (TxRingNumDescs (options xsk)) r \<Longrightarrow> sock_wf (xsk\<lparr>txRing := r\<rparr>)"
  by (simp add: sock_wf_def Let_def)

lemma remove_at_length: "i < length xs \<Longrightarrow> length (remove_at i xs) = length xs - 1"
  by (simp add: remove_at_def)

lemma tx_step_inv: "tx_step s s' \<Longrightarrow> tx_inv s \<Longrightarrow> tx_inv s'"
proof (induction rule: tx_step.induct)
  case (prepare data s d xsk)
  note f = SendMsg_prepare_frame [OF prepare.hyps]
  from prepare.prems f show ?case by (simp add: tx_inv_def in_flight_def in_chan_def)
next
  case (send i s xsk)
  from send.prems obtain c where c: "txChan (sock s) = Some c" "chan_ok (FillRingNumDescs (options (sock s)) div 2) c"
    by (auto simp: tx_inv_def)
  with send.hyps(2) obtain c' where c': "chan_send (pending s ! i) c = Ok c'" "xsk = (sock s)\<lparr>txChan := Some c'\<rparr>"
    by (auto simp: SendMsg_send_def map_ok_Ok_iff)
  then have "ch_buf c' = ch_buf c @ [pending s ! i]" "chan_ok (FillRingNumDescs (options (sock s)) div 2) c'"
    using c(2) by (auto simp: chan_send_def chan_ok_def split: if_splits)
  with c send.prems show ?case
    by (auto simp: tx_inv_def in_flight_def in_chan_def c'(2) sock_wf_def Let_def)
next
  case (worker_take s c d c')
  then have "ch_buf c = d # ch_buf c'" "chan_ok (FillRingNumDescs (options (sock s)) div 2) c'"
    by (auto simp: chan_recv_def tx_inv_def chan_ok_def split: list.splits if_splits)
  with worker_take show ?case
    by (auto simp: tx_inv_def in_flight_def in_chan_def sock_wf_def Let_def)
next
  case (worker_full s d t t')
  then have "chan_ok 1 t'" by (auto simp: chan_send_def tx_inv_def chan_ok_def split: if_splits)
  with worker_full show ?case by (auto simp: tx_inv_def in_flight_def in_chan_def sock_wf_def Let_def)
next
  case (worker_put s d r)
  from worker_put.prems have wf: "sock_wf (sock s)" by (simp add: tx_inv_def)
  let ?n = "TxRingNumDescs (options (sock s))"
  have "length (tx_queue (sock s)) < ?n"
    using worker_put.hyps(2) tx_full_iff [OF wf] sock_wf_tx [OF wf] by (auto simp: ring_wf_def)
  with ring.put_room [OF sock_wf_tx [OF wf], of d] worker_put.hyps(3)
  have "ring_wf ?n r" "ring_queue ?n r = tx_queue (sock s) @ [d]" by auto
  with worker_put wf show ?case
    by (auto simp: tx_inv_def in_flight_def in_chan_def sock_wf_tx_update)
next
  case (tick s)
  then show ?case by (simp add: tx_inv_def in_flight_def)
next
  case (trigger s t u t')
  then have "chan_ok 1 t'" by (auto simp: chan_recv_def tx_inv_def chan_ok_def split: list.splits if_splits)
  with trigger show ?case by (auto simp: tx_inv_def in_flight_def in_chan_def sock_wf_def Let_def)
next
  case (transmitted s answers xsk)
  then obtain p c where "xsk = (sock s)\<lparr>completionRing := (completionRing (sock s))\<lparr>Producer := p, Consumer := c\<rparr>\<rparr>"
    using doTransmit_frame by blast
  with transmitted show ?case
    by (auto simp: tx_inv_def in_flight_def in_chan_def sock_wf_def Let_def ring_wf_def)
next
  case (kernel_take s d r)
  from kernel_take.prems have wf: "sock_wf (sock s)" by (simp add: tx_inv_def)
  let ?n = "TxRingNumDescs (options (sock s))"
  have "tx_queue (sock s) \<noteq> []" using kernel_take.hyps(2) tx_empty_iff by blast
  with ring.get_some [OF sock_wf_tx [OF wf]] kernel_take.hyps(3)
  have "ring_wf ?n r" "tx_queue (sock s) = d # ring_queue ?n r" by auto
  with kernel_take wf show ?case
    by (auto simp: tx_inv_def in_flight_def in_chan_def sock_wf_tx_update)
qed

lemma tx_reach_inv: "tx_reach s s' \<Longrightarrow> tx_inv s \<Longrightarrow> tx_inv s'"
  by (induction rule: tx_reach.induct) (auto intro: tx_step_inv)

subsection \<open>Draining\<close>

text \<open>How many steps the worker and the kernel still have to make for what is in flight.\<close>

definition backlog :: "tx_state \<Rightarrow> nat" where
  "backlog s = 3 * length (in_chan (sock s)) + (if worker s = None then 0 else 2) + length (tx_queue (sock s))"

lemma drain_step:
  assumes inv: "tx_inv s" and busy: "in_flight s \<noteq> []"
  shows "\<exists>s'. tx_reach s s' \<and> backlog s' < backlog s \<and> sent s' = sent s \<and> pending s' = pending s"
proof (cases "tx_queue (sock s) = []")
  case ring_empty: True
  from inv obtain c where c: "txChan (sock s) = Some c" "chan_ok (FillRingNumDescs (options (sock s)) div 2) c"
    and wf: "sock_wf (sock s)"
    by (auto simp: tx_inv_def)
  let ?n = "TxRingNumDescs (options (sock s))"
  show ?thesis
  proof (cases "worker s")
    case None
    with busy ring_empty c obtain d ds where ds: "ch_buf c = d # ds"
      by (cases "ch_buf c") (auto simp: in_flight_def in_chan_def)
    let ?s = "s\<lparr>sock := (sock s)\<lparr>txChan := Some (c\<lparr>ch_buf := ds\<rparr>)\<rparr>, worker := Some d\<rparr>"
    have "tx_step s ?s"
      using None c ds by (intro worker_take) (auto simp: chan_recv_def)
    moreover have "backlog ?s < backlog s" using None c ds by (simp add: backlog_def in_chan_def)
    ultimately show ?thesis by (intro exI [of _ ?s]) (simp add: tx_reach_one)
  next
    case (Some d)
    have "0 < ?n" using ring_size_pos [OF sock_wf_sizes(3) [OF wf]] .
    then have not_full: "\<not> tx_full (sock s)" "length (tx_queue (sock s)) < ?n"
      using tx_full_iff [OF wf] ring_empty by auto
    obtain r where r: "ring_put ?n d (txRing (sock s)) = Ok r" "ring_queue ?n r = tx_queue (sock s) @ [d]"
      using ring.put_room [OF sock_wf_tx [OF wf] not_full(2)] by blast
    let ?s = "s\<lparr>sock := (sock s)\<lparr>txRing := r\<rparr>, worker := None\<rparr>"
    have "tx_step s ?s" using Some not_full(1) r(1) by (rule worker_put)
    moreover have "length (ring_queue ?n r) = Suc (length (tx_queue (sock s)))" using r(2) by simp
    then have "backlog ?s < backlog s" using Some by (simp add: backlog_def in_chan_def)
    ultimately show ?thesis by (intro exI [of _ ?s]) (simp add: tx_reach_one)
  qed
next
  case ring_busy: False
  from inv have wf: "sock_wf (sock s)" by (simp add: tx_inv_def)
  let ?n = "TxRingNumDescs (options (sock s))"
  let ?s1 = "s\<lparr>calling := True\<rparr>"
  have call: "tx_reach s ?s1"
  proof (cases "calling s")
    case True
    then have "?s1 = s" by simp
    then show ?thesis by (simp only: tx_reach.refl)
  next
    case False
    have "tx_step s (s\<lparr>calling := \<not> tx_empty (sock s)\<rparr>)" using False by (rule tick)
    then show ?thesis using ring_busy tx_empty_iff by (auto intro: tx_reach_one)
  qed
  obtain d r where r: "ring_get ?n (txRing (sock s)) = Ok (d, r)" "tx_queue (sock s) = d # ring_queue ?n r"
    using ring.get_some [OF sock_wf_tx [OF wf] ring_busy] by blast
  let ?s = "?s1\<lparr>sock := (sock s)\<lparr>txRing := r\<rparr>, wire := wire s @ [d]\<rparr>"
  have "tx_step ?s1 ?s"
    using kernel_take [of ?s1 d r] r(1) ring_busy tx_empty_iff by simp
  then have "tx_reach s ?s" using call by (auto intro: tx_reach.step)
  moreover have "length (tx_queue (sock s)) = Suc (length (ring_queue ?n r))" using r(2) by (metis length_Cons)
  then have "backlog ?s < backlog s" by (simp add: backlog_def in_chan_def)
  ultimately show ?thesis by (intro exI [of _ ?s]) simp
qed

lemma drain:
  "tx_inv s \<Longrightarrow> \<exists>s'. tx_reach s s' \<and> sent s' = sent s \<and> wire s' = sent s \<and> pending s' = pending s \<and> in_flight s' = []"
proof (induction "backlog s" arbitrary: s rule: less_induct)
  case less
  show ?case
  proof (cases "in_flight s = []")
    case True
    then show ?thesis using less.prems by (auto simp: tx_inv_def intro: tx_reach.refl)
  next
    case False
    then obtain s1 where s1: "tx_reach s s1" "backlog s1 < backlog s" "sent s1 = sent s" "pending s1 = pending s"
      using drain_step less.prems by blast
    moreover from this obtain s2 where "tx_reach s1 s2" "sent s2 = sent s1" "wire s2 = sent s1"
        "pending s2 = pending s1" "in_flight s2 = []"
      using less.hyps [of s1] tx_reach_inv less.prems by blast
    ultimately show ?thesis by (metis tx_reach_trans)
  qed
qed

text \<open>With room in the channel a pending sender gets in.\<close>

lemma send_one:
  assumes inv: "tx_inv s" and idle: "in_chan (sock s) = []" and cap: "2 \<le> FillRingNumDescs (options (sock s))"
    and i: "i < length (pending s)"
  shows "\<exists>s'. tx_step s s' \<and> pending s' = remove_at i (pending s) \<and> sent s' = sent s @ [pending s ! i]
    \<and> worker s' = worker s \<and> wire s' = wire s \<and> calling s' = calling s
    \<and> (\<exists>c. txChan (sock s) = Some c \<and> sock s' = (sock s)\<lparr>txChan := Some (c\<lparr>ch_buf := [pending s ! i]\<rparr>)\<rparr>)"
proof -
  from inv obtain c where c: "txChan (sock s) = Some c" "chan_ok (FillRingNumDescs (options (sock s)) div 2) c"
    by (auto simp: tx_inv_def)
  then have "ch_buf c = []" using idle by (simp add: in_chan_def)
  then have "SendMsg_send (pending s ! i) (sock s) =
      Ok ((sock s)\<lparr>txChan := Some (c\<lparr>ch_buf := [pending s ! i]\<rparr>)\<rparr>)"
    using c cap by (auto simp: SendMsg_send_def chan_send_def chan_ok_def)
  from send [OF i this] show ?thesis using c(1) by (intro exI conjI) (assumption | simp)+
qed

lemma tx_reach_options: "tx_reach s s' \<Longrightarrow> options (sock s') = options (sock s)"
proof (induction rule: tx_reach.induct)
  case (step s s' s'')
  have "options (sock s'') = options (sock s')"
    using step.hyps(2)
    by cases (auto simp: SendMsg_prepare_frame SendMsg_send_def map_ok_Ok_iff
        dest!: doTransmit_frame split: option.splits)
  then show ?case using step.IH by simp
qed simp

lemma flush:
  "tx_inv s \<Longrightarrow> 2 \<le> FillRingNumDescs (options (sock s)) \<Longrightarrow>
   \<exists>s'. tx_reach s s' \<and> pending s' = [] \<and> wire s' = sent s' \<and> length (sent s') = length (sent s) + length (pending s)"
proof (induction "length (pending s)" arbitrary: s)
  case 0
  then show ?case using drain [of s] by auto
next
  case (Suc n)
  obtain s1 where s1: "tx_reach s s1" "sent s1 = sent s" "pending s1 = pending s" "in_flight s1 = []"
    using drain [OF Suc.prems(1)] by blast
  have inv1: "tx_inv s1" using tx_reach_inv [OF s1(1) Suc.prems(1)] .
  have opts1: "options (sock s1) = options (sock s)" using tx_reach_options [OF s1(1)] .
  have "0 < length (pending s1)" "in_chan (sock s1) = []" "2 \<le> FillRingNumDescs (options (sock s1))"
    using s1 opts1 Suc by (simp_all add: in_flight_def flip: Suc.hyps(2))
  then obtain s2 where s2: "tx_step s1 s2" "pending s2 = remove_at 0 (pending s1)" "sent s2 = sent s1 @ [pending s1 ! 0]"
    using send_one [OF inv1] by blast
  have inv2: "tx_inv s2" using tx_step_inv [OF s2(1) inv1] .
  have "n = length (pending s2)" using s2(2) s1(3) by (simp add: remove_at_def flip: Suc.hyps(2))
  moreover have "2 \<le> FillRingNumDescs (options (sock s2))"
    using tx_reach_options [OF tx_reach_one [OF s2(1)]] opts1 Suc.prems(2) by simp
  ultimately obtain s3 where s3: "tx_reach s2 s3" "pending s3 = []" "wire s3 = sent s3"
      "length (sent s3) = length (sent s2) + length (pending s2)"
    using Suc.hyps(1) [of s2] inv2 by blast
  have "tx_reach s s3" using s1(1) s2(1) s3(1) by (blast intro: tx_reach_trans tx_reach.step)
  then show ?case
    using s3 s2 s1 Suc.hyps(2) \<open>n = length (pending s2)\<close> by auto
qed

subsection \<open>Filling the ring\<close>

definition at_rest :: "tx_state \<Rightarrow> bool" where
  "at_rest s \<longleftrightarrow> tx_inv s \<and> pending s = [] \<and> worker s = None \<and> in_chan (sock s) = []"

definition tx_desc :: "SocketOptions \<Rightarrow> u64 \<Rightarrow> bytes \<Rightarrow> Desc" where
  "tx_desc opts inc data =
     \<lparr>Addr = word_of_nat (tx_frame opts inc * FrameSize opts), Len = word_of_nat (length data)\<rparr>"

lemma put_one:
  assumes rest: "at_rest s" and fits: "tx_fits (options (sock s))" and cap: "2 \<le> FillRingNumDescs (options (sock s))"
    and room: "length (tx_queue (sock s)) < TxRingNumDescs (options (sock s))"
  shows "\<exists>s'. tx_reach s s' \<and> at_rest s' \<and> options (sock s') = options (sock s)
    \<and> txIndex (sock s') = txIndex (sock s) + 1 \<and> wire s' = wire s
    \<and> tx_queue (sock s') = tx_queue (sock s) @ [tx_desc (options (sock s)) (txIndex (sock s) + 1) data]"
proof -
  let ?d = "tx_desc (options (sock s)) (txIndex (sock s) + 1) data"
  from rest have inv: "tx_inv s" and wf: "sock_wf (sock s)" by (simp_all add: at_rest_def tx_inv_def)
  obtain x1 where x1: "SendMsg_prepare data (sock s) = Ok (Some ?d, x1)" "options x1 = options (sock s)"
      "txIndex x1 = txIndex (sock s) + 1" "txChan x1 = txChan (sock s)" "txRing x1 = txRing (sock s)"
    using SendMsg_prepare_ok [OF wf fits, of data] by (auto simp: tx_desc_def)
  let ?s1 = "s\<lparr>sock := x1, pending := pending s @ [?d]\<rparr>"
  have step1: "tx_step s ?s1" using x1(1) by (rule prepare)
  have inv1: "tx_inv ?s1" using tx_step_inv [OF step1 inv] .
  have chan1: "in_chan (sock ?s1) = []" using rest x1(4) by (simp add: at_rest_def in_chan_def)
  obtain s2 c where s2: "tx_step ?s1 s2" "pending s2 = []" "worker s2 = None" "wire s2 = wire s" "calling s2 = calling s"
      "txChan x1 = Some c" "sock s2 = x1\<lparr>txChan := Some (c\<lparr>ch_buf := [?d]\<rparr>)\<rparr>"
    using send_one [OF inv1 chan1, of 0] cap x1(2) rest by (auto simp: at_rest_def remove_at_def)
  have inv2: "tx_inv s2" using tx_step_inv [OF s2(1) inv1] .
  let ?s3 = "s2\<lparr>sock := (sock s2)\<lparr>txChan := Some (c\<lparr>ch_buf := []\<rparr>)\<rparr>, worker := Some ?d\<rparr>"
  have step3: "tx_step s2 ?s3"
    using s2(3) by (rule worker_take [where c = "c\<lparr>ch_buf := [?d]\<rparr>"]) (simp_all add: s2(7) chan_recv_def)
  have inv3: "tx_inv ?s3" using tx_step_inv [OF step3 inv2] .
  have wf3: "sock_wf (sock ?s3)" using inv3 by (simp add: tx_inv_def)
  let ?n = "TxRingNumDescs (options (sock s))"
  have q3: "tx_queue (sock ?s3) = tx_queue (sock s)" "options (sock ?s3) = options (sock s)"
    using x1 by (simp_all add: s2(7))
  have not_full: "\<not> tx_full (sock ?s3)"
    using tx_full_iff [OF wf3] room arg_cong [OF q3(1), of length] arg_cong [OF q3(2), of TxRingNumDescs]
    by linarith
  have "\<exists>r. ring_put ?n ?d (txRing (sock ?s3)) = Ok r \<and> ring_queue ?n r = tx_queue (sock s) @ [?d]"
  proof -
    have "length (tx_queue (sock ?s3)) < TxRingNumDescs (options (sock ?s3))"
      using room q3 by metis
    from ring.put_room [OF sock_wf_tx [OF wf3] this, of ?d]
    show ?thesis using q3 by metis
  qed
  then obtain r where r: "ring_put ?n ?d (txRing (sock ?s3)) = Ok r" "ring_queue ?n r = tx_queue (sock s) @ [?d]"
    by blast
  let ?s4 = "?s3\<lparr>sock := (sock ?s3)\<lparr>txRing := r\<rparr>, worker := None\<rparr>"
  have step4: "tx_step ?s3 ?s4"
    using not_full r(1) q3(2) by (intro worker_put) simp_all
  have "tx_reach s ?s4"
    by (rule tx_reach.step [OF tx_reach.step [OF tx_reach.step [OF tx_reach_one [OF step1] s2(1)] step3] step4])
  moreover have "at_rest ?s4"
    using tx_step_inv [OF step4 inv3] s2(2) by (simp add: at_rest_def in_chan_def)
  ultimately show ?thesis
    using r(2) x1 s2 by (intro exI [of _ ?s4]) simp
qed

lemma put_many:
  "at_rest s \<Longrightarrow> tx_fits (options (sock s)) \<Longrightarrow> 2 \<le> FillRingNumDescs (options (sock s)) \<Longrightarrow>
   length (tx_queue (sock s)) + length datas \<le> TxRingNumDescs (options (sock s)) \<Longrightarrow>
   \<exists>s'. tx_reach s s' \<and> at_rest s' \<and> options (sock s') = options (sock s)
     \<and> txIndex (sock s') = txIndex (sock s) + word_of_nat (length datas) \<and> wire s' = wire s
     \<and> tx_queue (sock s') = tx_queue (sock s) @
         map (\<lambda>i. tx_desc (options (sock s)) (txIndex (sock s) + 1 + word_of_nat i) (datas ! i)) [0..<length datas]"
proof (induction datas arbitrary: s)
  case Nil
  then show ?case by (intro exI [of _ s]) (simp add: tx_reach.refl)
next
  case (Cons data datas)
  obtain s1 where s1: "tx_reach s s1" "at_rest s1" "options (sock s1) = options (sock s)"
      "txIndex (sock s1) = txIndex (sock s) + 1" "wire s1 = wire s"
      "tx_queue (sock s1) = tx_queue (sock s) @ [tx_desc (options (sock s)) (txIndex (sock s) + 1) data]"
    using put_one [OF Cons.prems(1-3), of data] Cons.prems(4) by auto
  have len1: "length (tx_queue (sock s1)) = Suc (length (tx_queue (sock s)))"
    using s1(6) by (metis length_append_singleton)
  obtain s2 where s2: "tx_reach s1 s2" "at_rest s2" "options (sock s2) = options (sock s)"
      "txIndex (sock s2) = txIndex (sock s) + 1 + word_of_nat (length datas)" "wire s2 = wire s"
      "tx_queue (sock s2) = tx_queue (sock s1) @
         map (\<lambda>i. tx_desc (options (sock s)) (txIndex (sock s) + 1 + 1 + word_of_nat i) (datas ! i)) [0..<length datas]"
    using Cons.IH [OF s1(2)] s1(3-5) Cons.prems len1 by auto
  have "[0..<length (data # datas)] = 0 # map Suc [0..<length datas]"
    by (simp add: map_Suc_upt upt_conv_Cons del: upt_Suc)
  with s1 s2 show ?case
    by (intro exI [of _ s2]) (auto simp: ac_simps comp_def simp del: upt_Suc length_ring_queue intro: tx_reach_trans)
qed

subsection \<open>Properties\<close>

text \<open>
  C8. The transmit path is a queue. In every interleaving of any number of senders, the worker, the
  transmitter and the kernel, from a fresh socket on, the descriptors that entered the channel are
  those the kernel has taken, then those in the ring, the one the worker holds and those in the
  channel, in this order: none is lost, doubled, reordered or overwritten in the ring. And the
  worker and the kernel never index out of the ring.
\<close>

theorem tx_path_fifo:
  assumes "tx_init s0" and "tx_reach s0 s"
  shows "sent s = wire s @ tx_queue (sock s) @ (case worker s of Some d \<Rightarrow> [d] | None \<Rightarrow> []) @ in_chan (sock s)
    \<and> length (in_chan (sock s)) \<le> FillRingNumDescs (options (sock s0)) div 2
    \<and> (tx_full (sock s) \<or> (\<exists>r. ring_put (TxRingNumDescs (options (sock s))) d (txRing (sock s)) = Ok r))
    \<and> (tx_empty (sock s) \<or> (\<exists>d r. ring_get (TxRingNumDescs (options (sock s))) (txRing (sock s)) = Ok (d, r)))"
proof -
  have inv: "tx_inv s" using assms tx_init_inv tx_reach_inv by blast
  then have wf: "sock_wf (sock s)" by (simp add: tx_inv_def)
  let ?n = "TxRingNumDescs (options (sock s))"
  have "length (in_chan (sock s)) \<le> FillRingNumDescs (options (sock s0)) div 2"
    using inv tx_reach_options [OF assms(2)] by (auto simp: tx_inv_def chan_ok_def in_chan_def)
  moreover have "tx_full (sock s) \<or> (\<exists>r. ring_put ?n d (txRing (sock s)) = Ok r)"
    using ring.put_room [OF sock_wf_tx [OF wf], of d] tx_full_iff [OF wf] ring.bounded [OF sock_wf_tx [OF wf]]
    by fastforce
  moreover have "tx_empty (sock s) \<or> (\<exists>d r. ring_get ?n (txRing (sock s)) = Ok (d, r))"
    using ring.get_some [OF sock_wf_tx [OF wf]] tx_empty_iff [of "sock s"] by blast
  ultimately show ?thesis using inv by (simp add: tx_inv_def in_flight_def)
qed

definition fresh_tx :: tx_state where
  "fresh_tx =
     \<lparr>sock = sample_socket\<lparr>txChan := Some (make_chan 1), manualTriggerTX := Some (make_chan 1)\<rparr>,
      pending = [], worker = None, calling = False, sent = [], wire = []\<rparr>"

lemma fresh_tx_socket:
  "options (sock fresh_tx) = sample_opts" "tx_queue (sock fresh_tx) = []" "tx_fits (options (sock fresh_tx))"
  by (simp_all add: fresh_tx_def sample_socket_def blank_socket_def ring_queue_def mapped_ring_def
      sample_opts_def tx_fits_def)

lemma fresh_tx_init: "tx_init fresh_tx"
  using sample_socket_wf fresh_tx_socket
  by (simp add: tx_init_def) (simp add: fresh_tx_def sample_opts_def sock_wf_def Let_def)

text \<open>A state that is reached by sending two messages: both descriptors wait in the ring.\<close>

lemma two_queued:
  "\<exists>s. tx_reach fresh_tx s \<and> at_rest s \<and> wire s = [] \<and> length (tx_queue (sock s)) = 2"
proof -
  have "at_rest fresh_tx"
    using fresh_tx_init tx_init_inv [OF fresh_tx_init]
    by (simp add: at_rest_def tx_init_def in_chan_def make_chan_def)
  moreover have "2 \<le> FillRingNumDescs (options (sock fresh_tx))" using fresh_tx_socket by (simp add: sample_opts_def)
  moreover have "length (tx_queue (sock fresh_tx)) + length [[1, 2], [3 :: u8]] \<le> TxRingNumDescs (options (sock fresh_tx))"
    unfolding fresh_tx_socket(2) using fresh_tx_socket(1) by (simp add: sample_opts_def)
  ultimately obtain s where s: "tx_reach fresh_tx s" "at_rest s" "wire s = wire fresh_tx"
      "tx_queue (sock s) = tx_queue (sock fresh_tx) @
         map (\<lambda>i. tx_desc (options (sock fresh_tx)) (txIndex (sock fresh_tx) + 1 + word_of_nat i) ([[1, 2], [3]] ! i))
           [0..<length [[1, 2], [3 :: u8]]]"
    using put_many [OF _ fresh_tx_socket(3), of "[[1, 2], [3]]"] by blast
  have "length (tx_queue (sock s)) = 2"
    using arg_cong [OF s(4), of length] unfolding fresh_tx_socket(2)
    by (simp only: length_append length_map length_upt list.size)
  moreover have "wire s = []" using s(3) by (simp add: fresh_tx_def)
  ultimately show ?thesis using s(1,2) by blast
qed

theorem tx_path_fifo_witness:
  "\<exists>s. tx_reach fresh_tx s \<and> length (sent s) = 2 \<and> sent s = tx_queue (sock s)"
proof -
  from two_queued obtain s where s: "tx_reach fresh_tx s" "at_rest s" "wire s = []" "length (tx_queue (sock s)) = 2"
    by blast
  have "sent s = tx_queue (sock s)"
    using tx_path_fifo [OF fresh_tx_init s(1)] s(2,3) by (simp add: at_rest_def)
  then show ?thesis using s(1,4) by metis
qed

text \<open>
  C17. Nothing gets stuck: from every state that can be reached, with a fill ring of at least two descriptors, the worker, the
  transmitter and the kernel can go on so that all pending sends get into the channel and everything sent reaches
  the kernel. (The channel has half the size of the fill ring; with size one it would be
  unbuffered.)
\<close>

theorem tx_path_drains:
  assumes "tx_init s0" and "tx_reach s0 s" and "2 \<le> FillRingNumDescs (options (sock s0))"
  shows "\<exists>s'. tx_reach s s' \<and> pending s' = [] \<and> wire s' = sent s'
    \<and> length (wire s') = length (sent s) + length (pending s)"
proof -
  have "tx_inv s" using assms(1,2) tx_init_inv tx_reach_inv by blast
  moreover have "2 \<le> FillRingNumDescs (options (sock s))"
    using assms(3) tx_reach_options [OF assms(2)] by simp
  ultimately obtain s' where "tx_reach s s'" "pending s' = []" "wire s' = sent s'"
      "length (sent s') = length (sent s) + length (pending s)"
    using flush by blast
  then show ?thesis by (intro exI [of _ s']) simp
qed

theorem tx_path_drains_witness:
  "\<exists>s s'. tx_reach fresh_tx s \<and> length (tx_queue (sock s)) = 2 \<and> tx_reach s s'
     \<and> pending s' = [] \<and> wire s' = sent s' \<and> length (wire s') = 2"
proof -
  from two_queued obtain s where s: "tx_reach fresh_tx s" "at_rest s" "wire s = []" "length (tx_queue (sock s)) = 2"
    by blast
  have "length (sent s) = 2" "pending s = []"
    using s(2-4) by (simp_all add: at_rest_def tx_inv_def in_flight_def)
  moreover have "2 \<le> FillRingNumDescs (options (sock fresh_tx))" using fresh_tx_socket by (simp add: sample_opts_def)
  ultimately obtain s' where "tx_reach s s'" "pending s' = []" "wire s' = sent s'" "length (wire s') = 2"
    using tx_path_drains [OF fresh_tx_init s(1)] by auto
  then show ?thesis using s(1,4) by metis
qed

text \<open>
  C33. Frames are reused without asking whether they have been sent. With transmit and completion
  ring of one size, as the agents configure it, a burst of as many messages fills the transmit
  ring, and the next message is copied over the oldest of them while its descriptor still waits in
  the ring: the kernel, which has taken nothing yet, will send the new bytes under the old length.
\<close>

theorem tx_frame_overwritten:
  fixes datas :: "bytes list"
  assumes "tx_init s0" and "tx_fits (options (sock s0))" and "2 \<le> FillRingNumDescs (options (sock s0))"
    and "length datas = CompletionRingNumDescs (options (sock s0))"
    and "TxRingNumDescs (options (sock s0)) = CompletionRingNumDescs (options (sock s0))"
  shows "\<exists>s' d f. tx_reach s0 s' \<and> wire s' = [] \<and> length (tx_queue (sock s')) = length datas
    \<and> d = hd (tx_queue (sock s')) \<and> Len d = word_of_nat (length (datas ! 0))
    \<and> Addr d = word_of_nat (f * FrameSize (options (sock s0)))
    \<and> take (FrameSize (options (sock s0))) new = take (length new) (frame_bytes (sock s') f)"
proof -
  let ?o = "options (sock s0)"
  let ?inc = "txIndex (sock s0)"
  have inv0: "tx_inv s0" using tx_init_inv [OF assms(1)] .
  have wf0: "sock_wf (sock s0)" using assms(1) by (simp add: tx_init_def)
  have rest: "at_rest s0"
    using assms(1) inv0 by (simp add: at_rest_def tx_init_def in_chan_def make_chan_def)
  have empty: "tx_queue (sock s0) = []" using assms(1) by (simp add: tx_init_def)
  then have "length (tx_queue (sock s0)) + length datas \<le> TxRingNumDescs ?o"
    using assms(4,5) by (simp only: list.size)
  then have "\<exists>s1. tx_reach s0 s1 \<and> at_rest s1 \<and> options (sock s1) = ?o
      \<and> txIndex (sock s1) = ?inc + word_of_nat (length datas) \<and> wire s1 = wire s0
      \<and> tx_queue (sock s1) = tx_queue (sock s0) @
           map (\<lambda>i. tx_desc ?o (?inc + 1 + word_of_nat i) (datas ! i)) [0..<length datas]"
    by (rule put_many [OF rest assms(2,3)])
  then obtain s1 where s1: "tx_reach s0 s1" "at_rest s1" "options (sock s1) = ?o" "wire s1 = wire s0"
      "txIndex (sock s1) = ?inc + word_of_nat (length datas)"
    and queue: "tx_queue (sock s1) = tx_queue (sock s0) @
         map (\<lambda>i. tx_desc ?o (?inc + 1 + word_of_nat i) (datas ! i)) [0..<length datas]"
    by blast
  have s1_queue: "tx_queue (sock s1) = map (\<lambda>i. tx_desc ?o (?inc + 1 + word_of_nat i) (datas ! i)) [0..<length datas]"
    using queue unfolding empty by (simp only: append_Nil)
  have size: "ring_size (CompletionRingNumDescs ?o)" using sock_wf_sizes(2) [OF wf0] .
  have pos: "0 < length datas" using ring_size_pos [OF size] assms(4) by simp
  let ?f = "tx_frame ?o (?inc + 1)"
  have same: "tx_frame ?o (txIndex (sock s1) + 1) = ?f"
  proof -
    have "txIndex (sock s1) + 1 = ?inc + 1 + word_of_nat (CompletionRingNumDescs ?o)"
      using s1(5) assms(4) by simp
    then show ?thesis
      using tx_frame_add [OF size, of "?inc + 1" "CompletionRingNumDescs ?o"]
      by (simp add: tx_frame_def ac_simps)
  qed
  have wf1: "sock_wf (sock s1)" using s1(2) by (simp add: at_rest_def tx_inv_def)
  have fits1: "tx_fits (options (sock s1))" using assms(2) s1(3) by simp
  obtain x2 d2 where x2: "SendMsg_prepare new (sock s1) = Ok (Some d2, x2)" "options x2 = ?o"
      "txRing x2 = txRing (sock s1)"
      "frame_bytes x2 ?f = take (FrameSize ?o) new @ drop (length new) (frame_bytes (sock s1) ?f)"
    using SendMsg_prepare_ok [OF wf1 fits1, of new] s1(3) same by auto
  let ?s2 = "s1\<lparr>sock := x2, pending := pending s1 @ [d2]\<rparr>"
  have reach: "tx_reach s0 ?s2"
    using s1(1) prepare [OF x2(1)] by (rule tx_reach.step)
  have q: "tx_queue (sock ?s2) = map (\<lambda>i. tx_desc ?o (?inc + 1 + word_of_nat i) (datas ! i)) [0..<length datas]"
    using x2(2,3) s1(3) s1_queue by simp
  then have hd: "hd (tx_queue (sock ?s2)) = tx_desc ?o (?inc + 1) (datas ! 0)"
    using pos by (simp add: hd_map)
  have len: "length (tx_queue (sock ?s2)) = length datas" using arg_cong [OF q, of length] by (simp only: length_map length_upt diff_zero)
  have "length (frame_bytes (sock s1) ?f) = FrameSize ?o"
  proof -
    obtain m where m: "umem (sock s1) = Some m" "length m = NumFrames ?o * FrameSize ?o"
      using wf1 s1(3) by (auto simp: sock_wf_def Let_def)
    have "(?f + 1) * FrameSize ?o \<le> length m"
      using tx_frame_bounds(3) [OF wf0 assms(2), of "?inc + 1"] m(2) by simp
    then show ?thesis by (simp add: frame_bytes_def m(1) s1(3))
  qed
  then have "take (FrameSize ?o) new = take (length new) (frame_bytes (sock ?s2) ?f)"
    using x2(4) by (cases "length new \<le> FrameSize ?o") simp_all
  moreover have "wire ?s2 = []" using s1(4) assms(1) by (simp add: tx_init_def)
  ultimately show ?thesis
    using reach len hd
    by (intro exI [of _ ?s2] exI [of _ "hd (tx_queue (sock ?s2))"] exI [of _ ?f] conjI refl)
      (simp_all only: tx_desc_def Desc.select_convs tx_state.select_convs tx_state.update_convs)
qed

theorem tx_frame_overwritten_witness:
  "\<exists>s' d f. tx_reach fresh_tx s' \<and> length (tx_queue (sock s')) = 4 \<and> d = hd (tx_queue (sock s'))
     \<and> Len d = 2 \<and> Addr d = word_of_nat (f * 4) \<and> [9] = take 1 (frame_bytes (sock s') f)"
proof -
  have "length [[1, 2], [3], [4], [5 :: u8]] = CompletionRingNumDescs (options (sock fresh_tx))"
      "TxRingNumDescs (options (sock fresh_tx)) = CompletionRingNumDescs (options (sock fresh_tx))"
      "2 \<le> FillRingNumDescs (options (sock fresh_tx))"
    using fresh_tx_socket by (simp_all add: sample_opts_def)
  note args = fresh_tx_init fresh_tx_socket(3) this(3) this(1,2)
  from tx_frame_overwritten [OF args, of "[9]"]
  obtain s' d f where "tx_reach fresh_tx s'" "length (tx_queue (sock s')) = length [[1, 2], [3], [4], [5 :: u8]]"
      "d = hd (tx_queue (sock s'))" "Len d = word_of_nat (length ([[1, 2], [3], [4], [5 :: u8]] ! 0))"
      "Addr d = word_of_nat (f * FrameSize (options (sock fresh_tx)))"
      "take (FrameSize (options (sock fresh_tx))) [9] = take (length [9 :: u8]) (frame_bytes (sock s') f)"
    by blast
  moreover have "FrameSize (options (sock fresh_tx)) = 4"
    using fresh_tx_socket by (simp add: sample_opts_def)
  ultimately show ?thesis
    by (intro exI [of _ s'] exI [of _ d] exI [of _ f]) (simp del: length_ring_queue)
qed

end
