(* ===== verification/Ports.thy ===== *)
theory Ports
  imports Prelude
begin

section \<open>RTP ports (\<open>getPort\<close> and \<open>freePort\<close> of \<open>ua.go\<close>)\<close>

text \<open>
  The RTP ports of a user agent: \<open>getPort\<close> walks through the configured range in steps of two, the
  port above each one being meant for RTCP. First the functions as one caller sees them, then the
  interleavings of callers that run at the same time, as the dialogs do.
\<close>

subsection \<open>The state and the two operations\<close>

text \<open>
  The fields of \<open>baseUa\<close> that the two functions use; \<open>ports\<close> is the key set of the \<open>sync.Map\<close>.
  \<open>baseUa\<close> extends this record.
\<close>

record port_pool =
  RtpPortMin :: int
  RtpPortMax :: int
  ports :: "u16 set"
  nextPort :: u16
  portsUsed :: int
  portsMax :: int

datatype port_error = errNoFreePorts

text \<open>The successor of \<open>nextPort\<close>: a sum of 16 bits, compared with a limit cut to 16 bits.\<close>

definition next_port :: "int \<Rightarrow> int \<Rightarrow> u16 \<Rightarrow> u16" where
  "next_port lo hi port = (let n = port + 2 in if n \<ge> word_of_int hi then word_of_int lo else n)"

text \<open>The loop has no bound of its own; not returning is the value \<open>None\<close>.\<close>

partial_function (option) getPort_loop ::
  "'z port_pool_scheme \<Rightarrow> (u16 \<times> 'z port_pool_scheme) option" where
  "getPort_loop u =
     (let port = nextPort u;
          loaded = (port \<in> ports u);
          u1 = u\<lparr>ports := insert port (ports u), nextPort := next_port (RtpPortMin u) (RtpPortMax u) port\<rparr>
      in if loaded then getPort_loop u1
         else Some (port, u1\<lparr>portsUsed := wrap64 (portsUsed u1 + 2)\<rparr>))"

definition getPort :: "'z port_pool_scheme \<Rightarrow> (port_error, u16 \<times> 'z port_pool_scheme) res option" where
  "getPort u =
     (if wrap64 (portsMax u - portsUsed u) < 10 then Some (Err errNoFreePorts)
      else map_option Ok (getPort_loop u))"

definition freePort :: "u16 list \<Rightarrow> 'z port_pool_scheme \<Rightarrow> 'z port_pool_scheme" where
  "freePort ps u = u\<lparr>ports := ports u - set ps, portsUsed := wrap64 (portsUsed u - 2 * int (length ps))\<rparr>"

subsection \<open>What a client may rely on\<close>

locale port_allocator =
  fixes get :: "'u \<Rightarrow> (port_error, u16 \<times> 'u) res option"
    and free :: "u16 list \<Rightarrow> 'u \<Rightarrow> 'u"
    and held :: "'u \<Rightarrow> u16 set"
    and wf :: "'u \<Rightarrow> bool"
  assumes get_returns: "wf u \<Longrightarrow> get u = Some (Err errNoFreePorts) \<or> (\<exists>p u'. get u = Some (Ok (p, u')))"
    and get_wf: "wf u \<Longrightarrow> get u = Some (Ok (p, u')) \<Longrightarrow> wf u'"
    and get_fresh: "wf u \<Longrightarrow> get u = Some (Ok (p, u')) \<Longrightarrow> p \<notin> held u"
    and get_held: "wf u \<Longrightarrow> get u = Some (Ok (p, u')) \<Longrightarrow> held u' = insert p (held u)"
    and free_wf: "wf u \<Longrightarrow> distinct ps \<Longrightarrow> set ps \<subseteq> held u \<Longrightarrow> wf (free ps u)"
    and free_held: "wf u \<Longrightarrow> distinct ps \<Longrightarrow> set ps \<subseteq> held u \<Longrightarrow> held (free ps u) = held u - set ps"
begin

text \<open>The ports a client has taken since a state \<open>u0\<close>: new, distinct, and the only ones taken.\<close>

definition owned_since :: "'u \<Rightarrow> u16 list \<Rightarrow> 'u \<Rightarrow> bool" where
  "owned_since u0 ps u \<longleftrightarrow> wf u \<and> distinct ps \<and> set ps \<inter> held u0 = {} \<and> held u = held u0 \<union> set ps"

lemma owned_start: "wf u \<Longrightarrow> owned_since u [] u"
  by (simp add: owned_since_def)

lemma owned_get:
  "owned_since u0 ps u \<Longrightarrow> get u = Some (Ok (p, u')) \<Longrightarrow> owned_since u0 (ps @ [p]) u'"
  using get_fresh [of u p u'] get_held [of u p u'] get_wf [of u p u']
  by (auto simp: owned_since_def)

lemma owned_free: "owned_since u0 ps u \<Longrightarrow> held (free ps u) = held u0 \<and> wf (free ps u)"
  using free_held [of u ps] free_wf [of u ps] by (auto simp: owned_since_def)

lemma owned_get_returns: "owned_since u0 ps u \<Longrightarrow> get u \<noteq> None"
  using get_returns [of u] by (auto simp: owned_since_def)

lemma owned_get_no_panic: "owned_since u0 ps u \<Longrightarrow> get u \<noteq> Some (Panic x)"
  using get_returns [of u] by (auto simp: owned_since_def)

end

subsection \<open>The slots of a range\<close>

text \<open>
  A range is usable when its bounds are port numbers and adding two to a port below the upper
  bound does not wrap around.
\<close>

definition range_ok :: "int \<Rightarrow> int \<Rightarrow> bool" where
  "range_ok lo hi \<longleftrightarrow> 0 \<le> lo \<and> lo < hi \<and> (hi \<le> 65534 \<or> (hi = 65535 \<and> odd lo))"

definition slot_count :: "int \<Rightarrow> int \<Rightarrow> nat" where
  "slot_count lo hi = nat ((hi - lo + 1) div 2)"

definition port_slot :: "int \<Rightarrow> nat \<Rightarrow> u16" where
  "port_slot lo k = word_of_int (lo + 2 * int k)"

definition port_slots :: "int \<Rightarrow> int \<Rightarrow> u16 set" where
  "port_slots lo hi = port_slot lo ` {0..<slot_count lo hi}"

lemma slot_below: "k < slot_count lo hi \<Longrightarrow> lo + 2 * int k < hi"
  by (auto simp: slot_count_def)

lemma uint_u16_of_int: "0 \<le> x \<Longrightarrow> x < 65536 \<Longrightarrow> uint (word_of_int x :: u16) = x"
  by (simp add: uint_word_of_int_eq take_bit_eq_mod)

lemma uint_slot: "range_ok lo hi \<Longrightarrow> k < slot_count lo hi \<Longrightarrow> uint (port_slot lo k) = lo + 2 * int k"
  unfolding port_slot_def using slot_below [of k lo hi]
  by (intro uint_u16_of_int) (auto simp: range_ok_def)

lemma port_slot_inj: "range_ok lo hi \<Longrightarrow> inj_on (port_slot lo) {0..<slot_count lo hi}"
proof (rule inj_onI)
  fix j k
  assume *: "range_ok lo hi" "j \<in> {0..<slot_count lo hi}" "k \<in> {0..<slot_count lo hi}" "port_slot lo j = port_slot lo k"
  then have "lo + 2 * int j = lo + 2 * int k" using uint_slot [of lo hi] by (metis atLeastLessThan_iff)
  then show "j = k" by simp
qed

lemma card_slots: "range_ok lo hi \<Longrightarrow> card (port_slots lo hi) = slot_count lo hi"
  using card_image [OF port_slot_inj, of lo hi] by (simp add: port_slots_def)

lemma uint_hi: "range_ok lo hi \<Longrightarrow> uint (word_of_int hi :: u16) = hi"
  by (rule uint_u16_of_int) (auto simp: range_ok_def)

lemma next_slot:
  assumes ok: "range_ok lo hi" and k: "k < slot_count lo hi"
  shows "next_port lo hi (port_slot lo k) = port_slot lo ((k + 1) mod slot_count lo hi)"
proof -
  have u: "uint (port_slot lo k) = lo + 2 * int k" "lo + 2 * int k < hi"
    using uint_slot [OF ok k] slot_below [OF k] by simp_all
  have no_wrap: "lo + 2 * int k + 2 < 65536"
  proof (cases "hi \<le> 65534")
    case False
    then have "hi = 65535" "odd lo" using ok by (auto simp: range_ok_def)
    moreover from this have "lo + 2 * int k \<noteq> 65534" by presburger
    ultimately show ?thesis using u(2) by simp
  qed (use u in simp)
  have sum: "uint (port_slot lo k + 2) = lo + 2 * int k + 2"
    using u no_wrap ok by (simp add: uint_word_ariths range_ok_def)
  have cmp: "port_slot lo k + 2 \<ge> word_of_int hi \<longleftrightarrow> lo + 2 * int k + 2 \<ge> hi"
    using sum uint_hi [OF ok] by (simp add: word_le_def)
  show ?thesis
  proof (cases "lo + 2 * int k + 2 \<ge> hi")
    case True
    then have "k + 1 = slot_count lo hi" using k unfolding slot_count_def by linarith
    then show ?thesis using True cmp by (simp add: next_port_def port_slot_def Let_def)
  next
    case False
    then have "k + 1 < slot_count lo hi" unfolding slot_count_def by linarith
    moreover have "port_slot lo k + 2 = port_slot lo (k + 1)"
      by (simp add: port_slot_def algebra_simps)
    ultimately show ?thesis using False cmp by (simp add: next_port_def Let_def)
  qed
qed

subsection \<open>The invariant of the pool\<close>

definition pool_wf :: "'z port_pool_scheme \<Rightarrow> bool" where
  "pool_wf u \<longleftrightarrow>
     range_ok (RtpPortMin u) (RtpPortMax u)
     \<and> nextPort u \<in> port_slots (RtpPortMin u) (RtpPortMax u)
     \<and> ports u \<subseteq> port_slots (RtpPortMin u) (RtpPortMax u)
     \<and> portsUsed u = 2 * int (card (ports u)) \<and> portsMax u = RtpPortMax u - RtpPortMin u"

lemma slots_finite: "finite (port_slots lo hi)"
  by (simp add: port_slots_def)

lemma slot_count_pos: "range_ok lo hi \<Longrightarrow> 0 < slot_count lo hi"
  unfolding range_ok_def slot_count_def by linarith

lemma pool_used_bounds: "pool_wf u \<Longrightarrow> 0 \<le> portsUsed u \<and> portsUsed u \<le> 65536"
proof -
  assume wf: "pool_wf u"
  let ?lo = "RtpPortMin u" and ?hi = "RtpPortMax u"
  have "card (ports u) \<le> slot_count ?lo ?hi"
    using wf card_mono [OF slots_finite, of "ports u" ?lo ?hi] card_slots [of ?lo ?hi]
    by (simp add: pool_wf_def)
  moreover have "slot_count ?lo ?hi \<le> 32768" using wf by (auto simp: pool_wf_def slot_count_def range_ok_def)
  ultimately show ?thesis using wf by (simp add: pool_wf_def)
qed

lemma pool_check: "pool_wf u \<Longrightarrow> wrap64 (portsMax u - portsUsed u) = portsMax u - portsUsed u"
  using pool_used_bounds [of u] by (intro wrap64_id) (auto simp: pool_wf_def range_ok_def in_int64_def)

lemma getPort_loop_wf:
  assumes wf: "pool_wf u" and p: "nextPort u \<notin> ports u"
  shows "pool_wf (u\<lparr>ports := insert (nextPort u) (ports u), nextPort := next_port (RtpPortMin u) (RtpPortMax u) (nextPort u),
      portsUsed := wrap64 (portsUsed u + 2)\<rparr>)"
proof -
  let ?lo = "RtpPortMin u" and ?hi = "RtpPortMax u"
  from wf obtain k where k: "k < slot_count ?lo ?hi" "nextPort u = port_slot ?lo k"
    by (auto simp: pool_wf_def port_slots_def)
  have ok: "range_ok ?lo ?hi" using wf by (simp add: pool_wf_def)
  have "next_port ?lo ?hi (nextPort u) \<in> port_slots ?lo ?hi"
    using next_slot [OF ok k(1)] k(2) slot_count_pos [OF ok] by (simp add: port_slots_def)
  moreover have "finite (ports u)"
    using wf finite_subset [OF _ slots_finite] by (auto simp: pool_wf_def)
  moreover have "wrap64 (portsUsed u + 2) = portsUsed u + 2"
    using pool_used_bounds [OF wf] by (simp add: in_int64_def)
  ultimately show ?thesis using wf p by (simp add: pool_wf_def)
qed

text \<open>
  The loop visits the slots in their cyclic order and stops at the first that is free, so it
  returns when one is free. \<open>d\<close> is the number of turns.
\<close>

lemma getPort_loop_finds:
  assumes "pool_wf u" and "nextPort u = port_slot (RtpPortMin u) k" and "k < slot_count (RtpPortMin u) (RtpPortMax u)"
    and "port_slot (RtpPortMin u) ((k + d) mod slot_count (RtpPortMin u) (RtpPortMax u)) \<notin> ports u"
    and "\<forall>j < d. port_slot (RtpPortMin u) ((k + j) mod slot_count (RtpPortMin u) (RtpPortMax u)) \<in> ports u"
  shows "\<exists>u'. getPort_loop u = Some (port_slot (RtpPortMin u) ((k + d) mod slot_count (RtpPortMin u) (RtpPortMax u)), u')
    \<and> ports u' = insert (port_slot (RtpPortMin u) ((k + d) mod slot_count (RtpPortMin u) (RtpPortMax u))) (ports u)
    \<and> pool_wf u' \<and> port_pool.more u' = port_pool.more u \<and> portsUsed u' = wrap64 (portsUsed u + 2)
    \<and> RtpPortMin u' = RtpPortMin u \<and> RtpPortMax u' = RtpPortMax u \<and> portsMax u' = portsMax u"
  using assms
proof (induction d arbitrary: u k)
  case 0
  then have free: "nextPort u \<notin> ports u" by simp
  from getPort_loop_wf [OF "0.prems"(1) this] show ?case
    using 0 free by (subst getPort_loop.simps) (simp add: Let_def)
next
  case (Suc d)
  let ?lo = "RtpPortMin u" and ?hi = "RtpPortMax u"
  let ?n = "slot_count ?lo ?hi"
  have used: "nextPort u \<in> ports u"
    using Suc.prems(2,3) Suc.prems(5) [THEN spec, of 0] by simp
  have ok: "range_ok ?lo ?hi" using Suc.prems(1) by (simp add: pool_wf_def)
  let ?u = "u\<lparr>nextPort := next_port ?lo ?hi (nextPort u)\<rparr>"
  have loop: "getPort_loop u = getPort_loop ?u"
    using used by (subst getPort_loop.simps) (simp add: Let_def insert_absorb)
  define k' where "k' = (k + 1) mod ?n"
  have nxt: "nextPort ?u = port_slot ?lo k'"
    using next_slot [OF ok Suc.prems(3)] Suc.prems(2) by (simp add: k'_def)
  have k': "k' < ?n" using slot_count_pos [OF ok] by (simp add: k'_def)
  have shift: "(k' + j) mod ?n = (k + Suc j) mod ?n" for j by (simp add: k'_def mod_simps)
  have wf: "pool_wf ?u"
    using Suc.prems(1) nxt k' by (auto simp: pool_wf_def port_slots_def)
  have used': "\<forall>j<d. port_slot ?lo ((k' + j) mod ?n) \<in> ports u"
    unfolding shift using Suc.prems(5) Suc_less_eq by blast
  have free: "port_slot ?lo ((k' + d) mod ?n) \<notin> ports u"
    unfolding shift by (rule Suc.prems(4))
  note IH = Suc.IH [of ?u k', simplified, OF _ _ k' free used']
  show ?case
    unfolding loop shift [symmetric] using IH wf nxt by simp
qed

lemma getPort_free_slot:
  assumes wf: "pool_wf u" and room: "portsUsed u + 2 \<le> portsMax u"
  obtains p u' where "getPort_loop u = Some (p, u')" "p \<notin> ports u" "ports u' = insert p (ports u)"
    "p \<in> port_slots (RtpPortMin u) (RtpPortMax u)" "pool_wf u'" "port_pool.more u' = port_pool.more u"
    "portsUsed u' = portsUsed u + 2" "RtpPortMin u' = RtpPortMin u" "RtpPortMax u' = RtpPortMax u" "portsMax u' = portsMax u"
proof -
  let ?lo = "RtpPortMin u" and ?hi = "RtpPortMax u"
  let ?n = "slot_count ?lo ?hi"
  have ok: "range_ok ?lo ?hi" using wf by (simp add: pool_wf_def)
  from wf obtain k where k: "k < ?n" "nextPort u = port_slot ?lo k"
    by (auto simp: pool_wf_def port_slots_def)
  have "2 * int (card (ports u)) + 2 \<le> ?hi - ?lo" using wf room by (simp add: pool_wf_def)
  then have "card (ports u) < card (port_slots ?lo ?hi)"
    unfolding card_slots [OF ok] slot_count_def by linarith
  then have "\<not> port_slots ?lo ?hi \<subseteq> ports u"
    using wf card_mono [of "ports u" "port_slots ?lo ?hi"] finite_subset [OF _ slots_finite]
    by (auto simp: pool_wf_def)
  then have "\<exists>m < ?n. port_slot ?lo m \<notin> ports u" by (auto simp: port_slots_def)
  then obtain m where m: "m < ?n" "port_slot ?lo m \<notin> ports u" by blast
  have "(k + (m + ?n - k)) mod ?n = m" using m(1) k(1) by (simp add: mod_simps)
  then have "\<exists>d. port_slot ?lo ((k + d) mod ?n) \<notin> ports u" using m(2) by metis
  then obtain d where d: "port_slot ?lo ((k + d) mod ?n) \<notin> ports u"
      "\<forall>j < d. port_slot ?lo ((k + j) mod ?n) \<in> ports u"
    using exists_least_iff [of "\<lambda>d. port_slot ?lo ((k + d) mod ?n) \<notin> ports u"] by blast
  have "wrap64 (portsUsed u + 2) = portsUsed u + 2"
    using pool_used_bounds [OF wf] by (simp add: in_int64_def)
  moreover have "port_slot ?lo ((k + d) mod ?n) \<in> port_slots ?lo ?hi"
    using slot_count_pos [OF ok] by (simp add: port_slots_def)
  ultimately show ?thesis
    using getPort_loop_finds [OF wf k(2,1) d] d(1) that by auto
qed

lemma port_slots_iff:
  assumes ok: "range_ok lo hi"
  shows "p \<in> port_slots lo hi \<longleftrightarrow> lo \<le> uint p \<and> uint p < hi \<and> even (uint p - lo)"
proof
  assume "p \<in> port_slots lo hi"
  then obtain k where "k < slot_count lo hi" "p = port_slot lo k" by (auto simp: port_slots_def)
  then show "lo \<le> uint p \<and> uint p < hi \<and> even (uint p - lo)"
    using uint_slot [OF ok] slot_below by simp
next
  assume p: "lo \<le> uint p \<and> uint p < hi \<and> even (uint p - lo)"
  then obtain j where j: "uint p - lo = 2 * j" unfolding dvd_def by blast
  with p have "nat j < slot_count lo hi" unfolding slot_count_def by linarith
  moreover have "p = port_slot lo (nat j)"
  proof -
    have "lo + 2 * int (nat j) = uint p" using j p by simp
    then show ?thesis by (simp only: port_slot_def word_of_int_uint)
  qed
  ultimately show "p \<in> port_slots lo hi" by (auto simp: port_slots_def)
qed

lemma getPort_wf_cases:
  assumes wf: "pool_wf u"
  shows "(portsMax u - portsUsed u < 10 \<and> getPort u = Some (Err errNoFreePorts))
    \<or> (10 \<le> portsMax u - portsUsed u \<and> (\<exists>p u'. getPort u = Some (Ok (p, u'))
        \<and> p \<notin> ports u \<and> ports u' = insert p (ports u) \<and> portsUsed u' = portsUsed u + 2
        \<and> RtpPortMin u \<le> uint p \<and> uint p < RtpPortMax u \<and> even (uint p - RtpPortMin u)
        \<and> pool_wf u' \<and> port_pool.more u' = port_pool.more u
        \<and> RtpPortMin u' = RtpPortMin u \<and> RtpPortMax u' = RtpPortMax u))"
proof (cases "portsMax u - portsUsed u < 10")
  case True
  then show ?thesis using pool_check [OF wf] by (simp add: getPort_def)
next
  case False
  have ok: "range_ok (RtpPortMin u) (RtpPortMax u)" using wf by (simp add: pool_wf_def)
  have room: "portsUsed u + 2 \<le> portsMax u" using False by simp
  obtain p u' where "getPort_loop u = Some (p, u')" "p \<notin> ports u" "ports u' = insert p (ports u)"
    "p \<in> port_slots (RtpPortMin u) (RtpPortMax u)" "pool_wf u'" "port_pool.more u' = port_pool.more u"
    "portsUsed u' = portsUsed u + 2" "RtpPortMin u' = RtpPortMin u" "RtpPortMax u' = RtpPortMax u"
    by (rule getPort_free_slot [OF wf room])
  moreover from this(4) have "RtpPortMin u \<le> uint p \<and> uint p < RtpPortMax u \<and> even (uint p - RtpPortMin u)"
    using port_slots_iff [OF ok] by blast
  ultimately show ?thesis
    using False pool_check [OF wf] by (auto simp: getPort_def)
qed

lemma freePort_wf:
  assumes wf: "pool_wf u" and ps: "distinct ps" "set ps \<subseteq> ports u"
  shows "pool_wf (freePort ps u)" "ports (freePort ps u) = ports u - set ps"
    "portsUsed (freePort ps u) = portsUsed u - 2 * int (length ps)"
proof -
  have fin: "finite (ports u)" using wf finite_subset [OF _ slots_finite] by (auto simp: pool_wf_def)
  have "card (ports u - set ps) = card (ports u) - length ps" "length ps \<le> card (ports u)"
    using ps card_Diff_subset [of "set ps" "ports u"] card_mono [OF fin ps(2)] by (simp_all add: distinct_card)
  moreover from this have "wrap64 (portsUsed u - 2 * int (length ps)) = portsUsed u - 2 * int (length ps)"
    using pool_used_bounds [OF wf] wf by (intro wrap64_id) (auto simp: in_int64_def pool_wf_def)
  ultimately show "pool_wf (freePort ps u)" "ports (freePort ps u) = ports u - set ps"
    "portsUsed (freePort ps u) = portsUsed u - 2 * int (length ps)"
    using wf by (auto simp: freePort_def pool_wf_def)
qed

interpretation pool: port_allocator getPort freePort ports pool_wf
proof unfold_locales
  fix u :: "'a port_pool_scheme" and p u' ps
  assume wf: "pool_wf u"
  show "getPort u = Some (Err errNoFreePorts) \<or> (\<exists>p u'. getPort u = Some (Ok (p, u')))"
    using getPort_wf_cases [OF wf] by blast
  show "pool_wf u'" "p \<notin> ports u" "ports u' = insert p (ports u)" if "getPort u = Some (Ok (p, u'))"
    using getPort_wf_cases [OF wf] that by auto
  show "pool_wf (freePort ps u)" "ports (freePort ps u) = ports u - set ps" if "distinct ps" "set ps \<subseteq> ports u"
    using freePort_wf [OF wf that] by auto
qed


subsection \<open>One caller\<close>

text \<open>The pool that \<open>newBaseUa\<close> makes for a configured range.\<close>

definition new_pool :: "int \<Rightarrow> int \<Rightarrow> port_pool" where
  "new_pool lo hi =
     \<lparr>RtpPortMin = lo, RtpPortMax = hi, ports = {}, nextPort = word_of_int lo, portsUsed = 0,
      portsMax = hi - lo\<rparr>"

lemma new_pool_wf:
  assumes "range_ok lo hi"
  shows "pool_wf (new_pool lo hi)"
proof -
  have "port_slot lo 0 \<in> port_slots lo hi"
    unfolding port_slots_def using slot_count_pos [OF assms] by (intro imageI) simp
  then show ?thesis using assms by (simp add: pool_wf_def new_pool_def port_slot_def)
qed

text \<open>
  C14. \<open>getPort\<close> on a pool whose range is usable always returns. It reports that there are no free
  ports exactly when fewer than ten numbers of the range are left; otherwise it gives a port that
  nobody holds, inside the range and of the parity of its lower bound, adds it to the held ports,
  and giving it back restores the held ports and the count.
\<close>

theorem getPort_correct:
  assumes "pool_wf u"
  shows "(portsMax u - portsUsed u < 10 \<and> getPort u = Some (Err errNoFreePorts))
    \<or> (10 \<le> portsMax u - portsUsed u \<and>
       (\<exists>p u'. getPort u = Some (Ok (p, u')) \<and> p \<notin> ports u
          \<and> RtpPortMin u \<le> uint p \<and> uint p < RtpPortMax u \<and> even (uint p - RtpPortMin u)
          \<and> ports u' = insert p (ports u) \<and> pool_wf u'
          \<and> ports (freePort [p] u') = ports u \<and> portsUsed (freePort [p] u') = portsUsed u
          \<and> pool_wf (freePort [p] u')))"
proof (cases "portsMax u - portsUsed u < 10")
  case True
  then show ?thesis using getPort_wf_cases [OF assms] by simp
next
  case False
  then obtain p u' where u': "getPort u = Some (Ok (p, u'))" "p \<notin> ports u" "ports u' = insert p (ports u)"
      "portsUsed u' = portsUsed u + 2" "RtpPortMin u \<le> uint p" "uint p < RtpPortMax u"
      "even (uint p - RtpPortMin u)" "pool_wf u'"
    using getPort_wf_cases [OF assms] by blast
  have "pool_wf (freePort [p] u')" "ports (freePort [p] u') = ports u' - {p}"
      "portsUsed (freePort [p] u') = portsUsed u"
    using freePort_wf [OF u'(8), of "[p]"] u'(3,4) by simp_all
  with False u' show ?thesis by auto
qed

theorem getPort_correct_witness:
  "\<exists>p u'. getPort (new_pool 20000 60000) = Some (Ok (p, u')) \<and> 20000 \<le> uint p \<and> uint p < 60000
     \<and> ports u' = {p} \<and> pool_wf u'"
proof -
  have "pool_wf (new_pool 20000 60000)" by (rule new_pool_wf) (simp add: range_ok_def)
  from getPort_correct [OF this] show ?thesis by (auto simp: new_pool_def)
qed

text \<open>Where the sum or the limit wraps around.\<close>

lemma getPort_loop_stuck:
  assumes "getPort_loop u = Some r"
  shows "\<not> (nextPort u \<in> ports u \<and> nextPort u = word_of_int (RtpPortMin u) \<and> word_of_int (RtpPortMax u) = (0 :: u16))"
  using assms
proof (rule getPort_loop.raw_induct [rotated])
  fix loop :: "'z port_pool_scheme \<Rightarrow> (u16 \<times> 'z port_pool_scheme) option" and u r
  assume IH: "\<And>u r. loop u = Some r \<Longrightarrow>
      \<not> (nextPort u \<in> ports u \<and> nextPort u = word_of_int (RtpPortMin u) \<and> word_of_int (RtpPortMax u) = (0 :: u16))"
    and body: "(let port = nextPort u; loaded = (port \<in> ports u);
          u1 = u\<lparr>ports := insert port (ports u), nextPort := next_port (RtpPortMin u) (RtpPortMax u) port\<rparr>
      in if loaded then loop u1 else Some (port, u1\<lparr>portsUsed := wrap64 (portsUsed u1 + 2)\<rparr>)) = Some r"
  show "\<not> (nextPort u \<in> ports u \<and> nextPort u = word_of_int (RtpPortMin u) \<and> word_of_int (RtpPortMax u) = (0 :: u16))"
  proof
    assume stuck: "nextPort u \<in> ports u \<and> nextPort u = word_of_int (RtpPortMin u) \<and> word_of_int (RtpPortMax u) = (0 :: u16)"
    let ?u = "u\<lparr>ports := insert (nextPort u) (ports u), nextPort := next_port (RtpPortMin u) (RtpPortMax u) (nextPort u)\<rparr>"
    have "loop ?u = Some r" using body conjunct1 [OF stuck] by (simp add: Let_def)
    then have "\<not> (nextPort ?u \<in> ports ?u \<and> nextPort ?u = word_of_int (RtpPortMin ?u) \<and> word_of_int (RtpPortMax ?u) = (0 :: u16))"
      by (rule IH)
    moreover have "nextPort ?u = word_of_int (RtpPortMin u)"
      using stuck by (simp add: next_port_def Let_def)
    ultimately show False using stuck by simp
  qed
qed

text \<open>
  C39. At the top of the port range the 16-bit arithmetic goes wrong. With the exclusive limit 65536,
  which is the first number above the ports, the first call returns and the second never does,
  however many ports are free. With the limit 65535 and an even lower bound, the port after 65534
  is port 0, outside the range.
\<close>

theorem getPort_top_of_range:
  assumes "0 \<le> lo" and "lo \<le> 65500"
  shows "(\<exists>u1. getPort (new_pool lo 65536) = Some (Ok (word_of_int lo, u1)) \<and> portsMax u1 - portsUsed u1 \<ge> 34
        \<and> getPort u1 = None)
    \<and> (\<exists>u1 u2. getPort ((new_pool lo 65535)\<lparr>nextPort := 65534\<rparr>) = Some (Ok (65534, u1))
        \<and> getPort u1 = Some (Ok (0, u2)))"
proof
  let ?u = "new_pool lo 65536"
  let ?u1 = "?u\<lparr>ports := {word_of_int lo}, nextPort := word_of_int lo, portsUsed := 2\<rparr>"
  have check: "wrap64 (65536 - lo) = 65536 - lo" "wrap64 (65536 - lo - 2) = 65536 - lo - 2" "wrap64 2 = 2"
    using assms by (auto intro!: wrap64_id simp: in_int64_def)
  have zero: "(65536 :: u16) = 0" by simp
  have first: "getPort ?u = Some (Ok (word_of_int lo, ?u1))"
    unfolding getPort_def using check assms
    by (subst getPort_loop.simps) (simp add: new_pool_def next_port_def Let_def zero)
  have "getPort_loop ?u1 = None"
    using getPort_loop_stuck [of ?u1] by (cases "getPort_loop ?u1") (simp_all add: new_pool_def next_port_def zero)
  then have "getPort ?u1 = None"
    unfolding getPort_def using check assms by (simp add: new_pool_def)
  moreover have "portsMax ?u1 - portsUsed ?u1 \<ge> 34" using assms by (simp add: new_pool_def)
  ultimately show "\<exists>u1. getPort ?u = Some (Ok (word_of_int lo, u1)) \<and> portsMax u1 - portsUsed u1 \<ge> 34
      \<and> getPort u1 = None" using first by blast
next
  let ?v = "(new_pool lo 65535)\<lparr>nextPort := 65534\<rparr>"
  let ?v1 = "?v\<lparr>ports := {65534}, nextPort := 0, portsUsed := 2\<rparr>"
  let ?v2 = "?v1\<lparr>ports := {0, 65534}, nextPort := 2, portsUsed := 4\<rparr>"
  have check: "wrap64 (65535 - lo) = 65535 - lo" "wrap64 (65535 - lo - 2) = 65535 - lo - 2" "wrap64 2 = 2" "wrap64 4 = 4"
    using assms by (auto intro!: wrap64_id simp: in_int64_def)
  have "getPort ?v = Some (Ok (65534, ?v1))"
    unfolding getPort_def using check assms
    by (subst getPort_loop.simps) (simp add: new_pool_def next_port_def Let_def)
  moreover have "getPort ?v1 = Some (Ok (0, ?v2))"
    unfolding getPort_def using check assms
    by (subst getPort_loop.simps) (simp add: new_pool_def next_port_def Let_def)
  ultimately show "\<exists>u1 u2. getPort ?v = Some (Ok (65534, u1)) \<and> getPort u1 = Some (Ok (0, u2))" by blast
qed

theorem getPort_top_of_range_witness:
  "\<exists>u1. getPort (new_pool 20000 65536) = Some (Ok (20000, u1)) \<and> getPort u1 = None"
  using getPort_top_of_range [of 20000] by auto

end
