(* ===== verification/Ports_Par.thy ===== *)
theory Ports_Par
  imports Ports
begin

section \<open>Callers of \<open>getPort\<close> at the same time\<close>

text \<open>
  The dialogs call \<open>getPort\<close> and \<open>freePort\<close> from goroutines of their own. \<open>ports\<close> and \<open>portsUsed\<close>
  are accessed by atomic operations, \<open>nextPort\<close> is a plain variable. A caller is where it is in the
  code; one of its steps is one access to the shared state, and a schedule says who moves next.
\<close>

subsection \<open>Callers and schedules\<close>

text \<open>
  \<open>Stored p loaded\<close> has done \<open>LoadOrStore\<close>, \<open>Adding p loaded n\<close> has read \<open>n\<close> for \<open>u.nextPort += 2\<close>
  and \<open>Added p loaded\<close> has written the sum; \<open>Wrapping\<close> has found the limit reached. \<open>Held\<close> has
  returned, \<open>Deleted\<close> is inside \<open>freePort\<close> between the deletion and the count.
\<close>

datatype caller =
    Idle
  | Checked
  | Read u16
  | Stored u16 bool
  | Adding u16 bool u16
  | Added u16 bool
  | Wrapping u16 bool
  | Looped u16 bool
  | Held u16
  | Deleted u16
  | Refused

fun caller_step :: "port_pool \<Rightarrow> caller \<Rightarrow> port_pool \<times> caller" where
  "caller_step u Idle = (u, if wrap64 (portsMax u - portsUsed u) < 10 then Refused else Checked)"
| "caller_step u Checked = (u, Read (nextPort u))"
| "caller_step u (Read p) = (u\<lparr>ports := insert p (ports u)\<rparr>, Stored p (p \<in> ports u))"
| "caller_step u (Stored p loaded) = (u, Adding p loaded (nextPort u))"
| "caller_step u (Adding p loaded n) = (u\<lparr>nextPort := n + 2\<rparr>, Added p loaded)"
| "caller_step u (Added p loaded) =
     (u, if nextPort u \<ge> word_of_int (RtpPortMax u) then Wrapping p loaded else Looped p loaded)"
| "caller_step u (Wrapping p loaded) = (u\<lparr>nextPort := word_of_int (RtpPortMin u)\<rparr>, Looped p loaded)"
| "caller_step u (Looped p loaded) =
     (if loaded then (u, Checked) else (u\<lparr>portsUsed := wrap64 (portsUsed u + 2)\<rparr>, Held p))"
| "caller_step u (Held p) = (u\<lparr>ports := ports u - {p}\<rparr>, Deleted p)"
| "caller_step u (Deleted p) = (u\<lparr>portsUsed := wrap64 (portsUsed u - 2)\<rparr>, Idle)"
| "caller_step u Refused = (u, Idle)"

record callers_state =
  pool :: port_pool
  callers :: "nat \<Rightarrow> caller"

definition move :: "nat \<Rightarrow> callers_state \<Rightarrow> callers_state" where
  "move i s =
     (let (u, c) = caller_step (pool s) (callers s i)
      in \<lparr>pool = u, callers = (callers s)(i := c)\<rparr>)"

definition schedule :: "nat list \<Rightarrow> callers_state \<Rightarrow> callers_state" where
  "schedule is s = fold move is s"

lemma schedule_Nil [simp]: "schedule [] s = s"
  by (simp add: schedule_def)

lemma schedule_Cons: "schedule (i # is) s = schedule is (move i s)"
  by (simp add: schedule_def)

lemma schedule_append: "schedule (is @ js) s = schedule js (schedule is s)"
  by (simp add: schedule_def)

lemma move_upd:
  "caller_step (pool s) (callers s i) = (u, c) \<Longrightarrow> move i s = s\<lparr>pool := u, callers := (callers s)(i := c)\<rparr>"
  by (simp add: move_def)

lemmas run_schedule = schedule_Cons move_upd

subsection \<open>A caller left alone\<close>

lemma solo_loop:
  assumes "getPort_loop u = Some r"
  shows "\<exists>is. set is \<subseteq> {i} \<and> (\<forall>cs. cs i = Checked \<longrightarrow>
    schedule is \<lparr>pool = u, callers = cs\<rparr> = \<lparr>pool = snd r, callers = cs(i := Held (fst r))\<rparr>)"
  using assms
proof (rule getPort_loop.raw_induct [rotated])
  fix loop :: "port_pool \<Rightarrow> (u16 \<times> port_pool) option" and u r
  let ?P = "\<lambda>u r. \<exists>is. set is \<subseteq> {i} \<and> (\<forall>cs. cs i = Checked \<longrightarrow>
    schedule is \<lparr>pool = u, callers = cs\<rparr> = \<lparr>pool = snd r, callers = cs(i := Held (fst r))\<rparr>)"
  assume IH: "\<And>u r. loop u = Some r \<Longrightarrow> ?P u r"
    and body: "(let port = nextPort u; loaded = (port \<in> ports u);
          u1 = u\<lparr>ports := insert port (ports u), nextPort := next_port (RtpPortMin u) (RtpPortMax u) port\<rparr>
      in if loaded then loop u1 else Some (port, u1\<lparr>portsUsed := wrap64 (portsUsed u1 + 2)\<rparr>)) = Some r"
  let ?p = "nextPort u"
  let ?u1 = "u\<lparr>ports := insert ?p (ports u), nextPort := next_port (RtpPortMin u) (RtpPortMax u) ?p\<rparr>"
  let ?turn = "replicate (if ?p + 2 \<ge> word_of_int (RtpPortMax u) then 6 else 5) i"
  have turn: "schedule ?turn \<lparr>pool = u, callers = cs\<rparr> =
      \<lparr>pool = ?u1, callers = cs(i := Looped ?p (?p \<in> ports u))\<rparr>" if "cs i = Checked" for cs
    using that by (simp add: schedule_def eval_nat_numeral move_def next_port_def Let_def)
  show "?P u r"
  proof (cases "?p \<in> ports u")
    case True
    then have "loop ?u1 = Some r" using body by (simp add: Let_def)
    from IH [OF this] obtain js where js: "set js \<subseteq> {i}" "\<forall>cs. cs i = Checked \<longrightarrow>
        schedule js \<lparr>pool = ?u1, callers = cs\<rparr> = \<lparr>pool = snd r, callers = cs(i := Held (fst r))\<rparr>"
      by blast
    then show ?thesis
      using True turn
      by (intro exI [of _ "?turn @ [i] @ js"]) (auto simp: schedule_append schedule_Cons move_def)
  next
    case False
    then have "r = (?p, ?u1\<lparr>portsUsed := wrap64 (portsUsed u + 2)\<rparr>)" using body by (simp add: Let_def)
    then show ?thesis
      using False turn
      by (intro exI [of _ "?turn @ [i]"]) (auto simp: schedule_append schedule_Cons move_def)
  qed
qed

text \<open>
  The steps add up to the functions: a caller that is not interrupted gets from \<open>getPort\<close> what
  the function gives, and leaves the pool as the function does; the same for \<open>freePort\<close>.
\<close>

lemma solo_caller:
  assumes "callers s i = Idle" and "getPort (pool s) = Some r"
  shows "(\<exists>is. set is \<subseteq> {i} \<and> schedule is s =
      (case r of Ok (p, u') \<Rightarrow> \<lparr>pool = u', callers = (callers s)(i := Held p)\<rparr>
       | _ \<Rightarrow> s\<lparr>callers := (callers s)(i := Refused)\<rparr>))
    \<and> schedule [i, i] (s\<lparr>callers := (callers s)(i := Held p)\<rparr>) =
      \<lparr>pool = freePort [p] (pool s), callers = (callers s)(i := Idle)\<rparr>"
proof
  show "schedule [i, i] (s\<lparr>callers := (callers s)(i := Held p)\<rparr>) =
      \<lparr>pool = freePort [p] (pool s), callers = (callers s)(i := Idle)\<rparr>"
    by (simp add: schedule_def move_def freePort_def)
  show "\<exists>is. set is \<subseteq> {i} \<and> schedule is s =
      (case r of Ok (p, u') \<Rightarrow> \<lparr>pool = u', callers = (callers s)(i := Held p)\<rparr>
       | _ \<Rightarrow> s\<lparr>callers := (callers s)(i := Refused)\<rparr>)"
  proof (cases "wrap64 (portsMax (pool s) - portsUsed (pool s)) < 10")
    case True
    then have "r = Err errNoFreePorts" using assms(2) by (simp add: getPort_def)
    then show ?thesis
      using True assms(1) by (intro exI [of _ "[i]"]) (simp add: schedule_def move_def)
  next
    case False
    then obtain q where q: "getPort_loop (pool s) = Some q" "r = Ok q"
      using assms(2) by (auto simp: getPort_def)
    let ?cs = "(callers s)(i := Checked)"
    obtain js where js: "set js \<subseteq> {i}"
        "schedule js \<lparr>pool = pool s, callers = ?cs\<rparr> = \<lparr>pool = snd q, callers = ?cs(i := Held (fst q))\<rparr>"
      using solo_loop [OF q(1), of i] by auto
    then show ?thesis
      using False assms(1) q(2)
      by (intro exI [of _ "i # js"]) (auto simp: schedule_Cons move_def split: prod.splits)
  qed
qed

text \<open>A state in which nobody has called yet.\<close>

definition idle_state :: "port_pool \<Rightarrow> callers_state" where
  "idle_state u = \<lparr>pool = u, callers = (\<lambda>i. Idle)\<rparr>"

lemma solo_caller_witness:
  "\<exists>is p u'. set is \<subseteq> {7} \<and> schedule is (idle_state (new_pool 20000 60000)) = \<lparr>pool = u', callers = (\<lambda>i. Idle)(7 := Held p)\<rparr>"
proof -
  let ?s = "idle_state (new_pool 20000 60000)"
  have "pool_wf (new_pool 20000 60000)" by (rule new_pool_wf) (simp add: range_ok_def)
  then obtain p u' where "getPort (pool ?s) = Some (Ok (p, u'))"
    using getPort_wf_cases [of "new_pool 20000 60000"] by (auto simp: idle_state_def new_pool_def)
  moreover have "callers ?s 7 = Idle" by (simp add: idle_state_def)
  ultimately obtain "is" where "set is \<subseteq> {7}" "schedule is ?s = \<lparr>pool = u', callers = (callers ?s)(7 := Held p)\<rparr>"
    using solo_caller [of ?s 7 "Ok (p, u')" p] by auto
  then show ?thesis by (intro exI [of _ "is"] exI [of _ p] exI [of _ u']) (simp add: idle_state_def)
qed

subsection \<open>Nobody shares a port\<close>

text \<open>The port a caller owns: what its \<open>LoadOrStore\<close> has added, until it is deleted.\<close>

fun owns :: "caller \<Rightarrow> u16 option" where
  "owns (Stored p loaded) = (if loaded then None else Some p)"
| "owns (Adding p loaded n) = (if loaded then None else Some p)"
| "owns (Added p loaded) = (if loaded then None else Some p)"
| "owns (Wrapping p loaded) = (if loaded then None else Some p)"
| "owns (Looped p loaded) = (if loaded then None else Some p)"
| "owns (Held p) = Some p"
| "owns c = None"

definition owned_by :: "(nat \<Rightarrow> u16 option) \<Rightarrow> u16 set \<Rightarrow> bool" where
  "owned_by f S \<longleftrightarrow>
     (\<forall>i j p. f i = Some p \<longrightarrow> f j = Some p \<longrightarrow> i = j) \<and> (\<forall>p. p \<in> S \<longleftrightarrow> (\<exists>i. f i = Some p))"

lemma owned_by_add:
  assumes "owned_by f S" and "p \<notin> S" and "f i = None"
  shows "owned_by (f(i := Some p)) (insert p S)"
proof -
  have "f j \<noteq> Some p" for j using assms(1,2) by (auto simp: owned_by_def)
  moreover have "q \<in> insert p S \<longleftrightarrow> (\<exists>j. (f(i := Some p)) j = Some q)" for q
  proof -
    have "(\<exists>j. (f(i := Some p)) j = Some q) \<longleftrightarrow> q = p \<or> (\<exists>j. j \<noteq> i \<and> f j = Some q)" by auto
    also have "(\<exists>j. j \<noteq> i \<and> f j = Some q) \<longleftrightarrow> (\<exists>j. f j = Some q)" using assms(3) by (metis option.distinct(1))
    finally show ?thesis using assms(1) by (auto simp: owned_by_def)
  qed
  ultimately show ?thesis using assms(1) unfolding owned_by_def by (auto split: if_splits)
qed

lemma owned_by_remove:
  assumes "owned_by f S" and "f i = Some p"
  shows "owned_by (f(i := None)) (S - {p})"
proof -
  have only: "j = i" if "f j = Some p" for j using assms that unfolding owned_by_def by blast
  have "q \<in> S - {p} \<longleftrightarrow> (\<exists>j. (f(i := None)) j = Some q)" for q
  proof -
    have "(\<exists>j. (f(i := None)) j = Some q) \<longleftrightarrow> (\<exists>j. j \<noteq> i \<and> f j = Some q)" by auto
    also have "\<dots> \<longleftrightarrow> q \<noteq> p \<and> (\<exists>j. f j = Some q)" using only assms(2) by (metis option.inject)
    finally show ?thesis using assms(1) by (auto simp: owned_by_def)
  qed
  then show ?thesis using assms(1) unfolding owned_by_def by (auto split: if_splits)
qed

definition ports_owned :: "callers_state \<Rightarrow> bool" where
  "ports_owned s \<longleftrightarrow> owned_by (\<lambda>i. owns (callers s i)) (ports (pool s))"

lemma ports_owned_idle: "ports u = {} \<Longrightarrow> ports_owned (idle_state u)"
  by (simp add: ports_owned_def idle_state_def owned_by_def)

lemma owns_upd: "(\<lambda>j. owns ((f(i := c)) j)) = (\<lambda>j. owns (f j))(i := owns c)"
  by auto

lemma ports_owned_move:
  assumes inv: "ports_owned s"
  shows "ports_owned (move i s)"
proof -
  obtain u c where step: "caller_step (pool s) (callers s i) = (u, c)" by fastforce
  let ?f = "\<lambda>j. owns (callers s j)"
  have "owned_by (?f(i := owns c)) (ports u)"
  proof (cases "\<exists>p. callers s i = Read p \<or> callers s i = Held p")
    case True
    then consider p where "callers s i = Read p" | p where "callers s i = Held p" by blast
    then show ?thesis
    proof cases
      case 1
      then have "?f i = None" by simp
      then show ?thesis
        using inv step 1 owned_by_add [of ?f "ports (pool s)" p i]
        by (cases "p \<in> ports (pool s)") (auto simp: ports_owned_def insert_absorb fun_upd_idem)
    next
      case 2
      then show ?thesis
        using inv step owned_by_remove [of ?f "ports (pool s)" i p] by (auto simp: ports_owned_def)
    qed
  next
    case False
    then have "ports u = ports (pool s)" "owns c = ?f i"
      using step by (cases "callers s i"; auto split: if_splits)+
    then show ?thesis using inv by (simp add: ports_owned_def fun_upd_idem)
  qed
  then show ?thesis using step by (simp add: move_def ports_owned_def owns_upd del: fun_upd_apply)
qed

lemma ports_owned_schedule: "ports_owned s \<Longrightarrow> ports_owned (schedule is s)"
  by (induction "is" arbitrary: s) (simp_all add: schedule_Cons ports_owned_move)

subsection \<open>The count of ports in use\<close>

text \<open>
  \<open>getPort\<close> counts a port after it has put it into the map, \<open>freePort\<close> counts it out after it has
  deleted it: a caller in between is \<open>adding\<close> or \<open>deleting\<close>, and counted from the first to the last.
\<close>

definition adding :: "caller \<Rightarrow> bool" where
  "adding c = (case c of Held p \<Rightarrow> False | _ \<Rightarrow> owns c \<noteq> None)"

definition deleting :: "caller \<Rightarrow> bool" where
  "deleting c = (case c of Deleted p \<Rightarrow> True | _ \<Rightarrow> False)"

definition in_count :: "caller \<Rightarrow> bool" where
  "in_count c = (case c of Held p \<Rightarrow> True | Deleted p \<Rightarrow> True | _ \<Rightarrow> False)"

text \<open>How many callers satisfy \<open>P\<close>.\<close>

definition callers_with :: "(caller \<Rightarrow> bool) \<Rightarrow> callers_state \<Rightarrow> int" where
  "callers_with P s = int (card {i. P (callers s i)})"

lemma card_upd:
  assumes "finite {j. P (f j)}"
  shows "int (card {j. P ((f(i := c)) j)}) = int (card {j. P (f j)}) + of_bool (P c) - of_bool (P (f i))"
proof -
  have "{j. P ((f(i := c)) j)} = (if P c then insert i ({j. P (f j)} - {i}) else {j. P (f j)} - {i})" by auto
  moreover have "0 < card {j. P (f j)}" if "P (f i)" using that assms card_gt_0_iff by blast
  moreover have "insert i {j. P (f j)} = {j. P (f j)}" if "P (f i)" using that by auto
  ultimately show ?thesis
    using assms by (cases "P c"; cases "P (f i)"; simp add: card_Diff_singleton_if of_nat_diff del: fun_upd_apply)
qed

definition count_inv :: "callers_state \<Rightarrow> bool" where
  "count_inv s \<longleftrightarrow> finite {i. callers s i \<noteq> Idle} \<and> portsUsed (pool s) = wrap64 (2 * callers_with in_count s)"

lemma wrap64_wrap64_add: "wrap64 (wrap64 a + b) = wrap64 (a + b)"
proof -
  have "((a + 9223372036854775808) mod 18446744073709551616 + b) mod 18446744073709551616 =
      (a + 9223372036854775808 + b) mod 18446744073709551616"
    by (rule mod_add_left_eq)
  moreover have "a + 9223372036854775808 + b = a + b + 9223372036854775808" by simp
  ultimately show ?thesis by (simp add: wrap64_def)
qed

lemma count_inv_idle: "portsUsed u = 0 \<Longrightarrow> count_inv (idle_state u)"
  by (simp add: wrap64_def count_inv_def idle_state_def callers_with_def in_count_def)

lemma finite_callers:
  assumes "finite {i. callers s i \<noteq> Idle}" and "\<not> P Idle"
  shows "finite {i. P (callers s i)}"
  using assms by (auto intro: finite_subset [OF _ assms(1)])

lemma caller_step_count:
  assumes "caller_step u c = (u', c')" and "portsUsed u = wrap64 (2 * n)"
  shows "portsUsed u' = wrap64 (2 * (n + of_bool (in_count c') - of_bool (in_count c)))"
  using assms wrap64_wrap64_add [of "2 * n" 2] wrap64_wrap64_add [of "2 * n" "- 2"]
  by (cases c; auto simp: in_count_def algebra_simps split: if_splits)

lemma count_inv_move:
  assumes inv: "count_inv s"
  shows "count_inv (move i s)"
proof -
  obtain u c where step: "caller_step (pool s) (callers s i) = (u, c)" by fastforce
  have fin: "finite {j. callers s j \<noteq> Idle}" using inv by (simp add: count_inv_def)
  have "{j. callers (move i s) j \<noteq> Idle} \<subseteq> insert i {j. callers s j \<noteq> Idle}"
    using step by (auto simp: move_def)
  with fin have "finite {j. callers (move i s) j \<noteq> Idle}" by (meson finite_insert finite_subset)
  moreover have "finite {j. in_count (callers s j)}" by (rule finite_callers [OF fin]) (simp add: in_count_def)
  from card_upd [of in_count "callers s", OF this, of i c]
  have "callers_with in_count (move i s) =
      callers_with in_count s + of_bool (in_count c) - of_bool (in_count (callers s i))"
    by (simp add: callers_with_def move_upd [OF step] del: fun_upd_apply)
  moreover have "portsUsed (pool (move i s)) =
      wrap64 (2 * (callers_with in_count s + of_bool (in_count c) - of_bool (in_count (callers s i))))"
    using caller_step_count [OF step] inv by (simp add: count_inv_def move_upd [OF step])
  ultimately show ?thesis by (simp add: count_inv_def)
qed

lemma count_inv_schedule: "count_inv s \<Longrightarrow> count_inv (schedule is s)"
  by (induction "is" arbitrary: s) (simp_all add: schedule_Cons count_inv_move)

text \<open>The size of the map, in callers.\<close>

lemma card_ports:
  assumes "ports_owned s" and "finite {i. callers s i \<noteq> Idle}"
  shows "int (card (ports (pool s))) = callers_with adding s + callers_with in_count s - callers_with deleting s"
proof -
  let ?f = "\<lambda>i. owns (callers s i)"
  let ?C = "\<lambda>P. {i. P (callers s i)}"
  let ?held = "\<lambda>c. in_count c \<and> \<not> deleting c"
  have split: "?f i \<noteq> None \<longleftrightarrow> adding (callers s i) \<or> ?held (callers s i)"
      "in_count (callers s i) \<longleftrightarrow> ?held (callers s i) \<or> deleting (callers s i)"
      "\<not> (adding (callers s i) \<and> ?held (callers s i))" for i
    by (cases "callers s i"; simp add: adding_def in_count_def deleting_def)+
  have fin: "finite (?C adding)" "finite (?C ?held)" "finite (?C deleting)"
    by (rule finite_callers [OF assms(2)]; simp add: adding_def in_count_def deleting_def)+
  have "bij_betw (\<lambda>i. the (?f i)) {i. ?f i \<noteq> None} (ports (pool s))"
    using assms(1) unfolding ports_owned_def owned_by_def bij_betw_def inj_on_def image_def
    by (auto simp del: split_paired_Ex) (metis option.sel)+
  then have "card (ports (pool s)) = card {i. ?f i \<noteq> None}" by (simp add: bij_betw_same_card)
  also have "{i. ?f i \<noteq> None} = ?C adding \<union> ?C ?held" using split(1) by blast
  also have "card \<dots> = card (?C adding) + card (?C ?held)"
    using split(3) fin by (intro card_Un_disjoint) auto
  finally have 1: "card (ports (pool s)) = card (?C adding) + card (?C ?held)" .
  have "?C in_count = ?C ?held \<union> ?C deleting" using split(2) by blast
  then have "card (?C in_count) = card (?C ?held) + card (?C deleting)"
    using fin by (simp add: card_Un_disjoint disjoint_iff)
  with 1 show ?thesis by (simp add: callers_with_def)
qed

text \<open>
  C13. Under every schedule of any number of callers of \<open>getPort\<close> and \<open>freePort\<close>, a port that is held is
  in the map and held by nobody else, and the count of ports in use is two for every port in the map,
  but for those whose caller is on its way from \<open>LoadOrStore\<close> to the addition, which are not counted
  yet, and those deleted whose caller is on its way to the subtraction, which are still counted.
  With nobody on the way the count is exact.
\<close>

theorem ports_exclusive:
  assumes "ports u = {}" and "portsUsed u = 0" and "s = schedule is (idle_state u)"
  shows "(\<forall>i p. callers s i = Held p \<longrightarrow> p \<in> ports (pool s) \<and> (\<forall>j. callers s j = Held p \<longrightarrow> i = j))
    \<and> portsUsed (pool s) =
        wrap64 (2 * (int (card (ports (pool s))) - callers_with adding s + callers_with deleting s))"
proof -
  have inv: "ports_owned s"
    unfolding assms(3) by (intro ports_owned_schedule ports_owned_idle assms(1))
  have count: "count_inv s"
    unfolding assms(3) by (intro count_inv_schedule count_inv_idle assms(2))
  have "i = j" "p \<in> ports (pool s)" if "callers s i = Held p" "callers s j = Held p" for i j p
    using inv that unfolding ports_owned_def owned_by_def by (metis owns.simps(6))+
  moreover have "int (card (ports (pool s))) - callers_with adding s + callers_with deleting s = callers_with in_count s"
    using card_ports [OF inv] count by (simp add: count_inv_def)
  ultimately show ?thesis using count unfolding count_inv_def by metis
qed

lemma race_run:
  assumes idle: "callers s i = Idle" "callers s j = Idle" "i \<noteq> j"
    and pool: "\<not> wrap64 (portsMax (pool s) - portsUsed (pool s)) < 10" "nextPort (pool s) = q" "q + 2 = hi"
      "word_of_int (RtpPortMax (pool s)) = hi" "word_of_int (RtpPortMin (pool s)) = lo" "\<not> hi \<le> lo + 2"
    and free: "q \<notin> ports (pool s)" "hi \<notin> ports (pool s)" "hi \<noteq> q"
  shows "callers (schedule [i, j, i, i, i, i, j, i, i, j, j, j, j, j] s) j = Held hi"
proof -
  obtain u cs where s: "s = \<lparr>pool = u, callers = cs\<rparr>" by (cases s)
  note [simp] = run_schedule idle(3) idle(3) [symmetric]
  let ?u1 = "u\<lparr>ports := insert q (ports u), nextPort := hi\<rparr>"
  let ?u2 = "u\<lparr>ports := insert q (ports u), nextPort := lo\<rparr>"
  let ?cs1 = "cs(i := Added q False, j := Checked)"
  let ?cs2 = "cs(i := Looped q False, j := Read hi)"
  have turns: "[i, j, i, i, i, i, j, i, i, j, j, j, j, j] = [i, j, i, i, i, i] @ [j, i, i] @ [j, j, j, j, j]" by simp
  have 1: "schedule [i, j, i, i, i, i] s = \<lparr>pool = ?u1, callers = ?cs1\<rparr>"
    using idle pool(1,2) free(1) unfolding pool(3) [symmetric] s by (simp add: fun_upd_twist)
  have 2: "schedule [j, i, i] \<lparr>pool = ?u1, callers = ?cs1\<rparr> = \<lparr>pool = ?u2, callers = ?cs2\<rparr>"
    using pool(4,5) unfolding s by (simp add: fun_upd_twist)
  have 3: "callers (schedule [j, j, j, j, j] \<lparr>pool = ?u2, callers = ?cs2\<rparr>) j = Held hi"
    using pool(4,6) free(2,3) unfolding s by simp
  show ?thesis by (simp only: turns schedule_append 1 2 3)
qed

text \<open>
  C38. The plain \<open>nextPort\<close> is not safe, though. When it stands at the last port of the range and two
  callers enter, the second can read it after the first has added two and before it has compared:
  it then holds the upper limit itself, a port outside of the configured range.
\<close>

theorem ports_race:
  assumes "pool_wf (pool s)" and "callers s i = Idle" and "callers s j = Idle" and "i \<noteq> j"
    and "uint (nextPort (pool s)) + 2 = RtpPortMax (pool s)" and "nextPort (pool s) \<notin> ports (pool s)"
    and "10 \<le> portsMax (pool s) - portsUsed (pool s)"
  shows "\<exists>is p. set is \<subseteq> {i, j} \<and> callers (schedule is s) j = Held p \<and> uint p = RtpPortMax (pool s)"
proof -
  let ?u = "pool s"
  let ?hi = "word_of_int (RtpPortMax ?u) :: u16" and ?lo = "word_of_int (RtpPortMin ?u) :: u16"
  have ok: "range_ok (RtpPortMin ?u) (RtpPortMax ?u)" using assms(1) by (simp add: pool_wf_def)
  have hi: "nextPort ?u + 2 = ?hi"
    by (simp only: assms(5) [symmetric] of_int_add word_of_int_uint of_int_numeral)
  have "?hi \<notin> port_slots (RtpPortMin ?u) (RtpPortMax ?u)"
    using uint_hi [OF ok] port_slots_iff [OF ok] by auto
  then have free: "?hi \<notin> ports ?u" using assms(1) by (auto simp: pool_wf_def)
  have ne: "?hi \<noteq> nextPort ?u"
    using assms(5) uint_hi [OF ok] by auto
  have check: "\<not> wrap64 (portsMax ?u - portsUsed ?u) < 10"
    using pool_check [OF assms(1)] assms(7) by simp
  have wide: "RtpPortMin ?u + 10 \<le> RtpPortMax ?u"
    using assms(1,7) pool_used_bounds [OF assms(1)] by (simp add: pool_wf_def)
  have "uint ?lo = RtpPortMin ?u" using ok by (intro uint_u16_of_int) (auto simp: range_ok_def)
  then have "uint (?lo + 2) = RtpPortMin ?u + 2"
    using ok wide by (auto simp: uint_word_ariths range_ok_def)
  then have "\<not> ?hi \<le> ?lo + 2" using uint_hi [OF ok] wide by (simp add: word_le_def)
  from race_run [OF assms(2-4) check refl hi refl refl this assms(6) free ne]
  show ?thesis
    using uint_hi [OF ok]
    by (intro exI [of _ "[i, j, i, i, i, i, j, i, i, j, j, j, j, j]"] exI [of _ ?hi]) auto
qed

text \<open>Ten ports, of which the first four have been used and given back.\<close>

definition near_the_end :: port_pool where
  "near_the_end = (new_pool 20000 20010)\<lparr>nextPort := 20008\<rparr>"

lemma one_user:
  "\<not> 20010 \<le> n + 2 \<Longrightarrow>
   schedule [0, 0, 0, 0, 0, 0, 0, 0, 0] (idle_state ((new_pool 20000 20010)\<lparr>nextPort := n\<rparr>)) =
     idle_state ((new_pool 20000 20010)\<lparr>nextPort := n + 2\<rparr>)"
  by (simp add: run_schedule idle_state_def new_pool_def wrap64_def fun_upd_idem)

lemma near_the_end_reached: "\<exists>is. schedule is (idle_state (new_pool 20000 20010)) = idle_state near_the_end"
proof -
  let ?r = "[0, 0, 0, 0, 0, 0, 0, 0, 0]"
  have start: "new_pool 20000 20010 = (new_pool 20000 20010)\<lparr>nextPort := 20000\<rparr>" by (simp add: new_pool_def)
  have "schedule (?r @ ?r @ ?r @ ?r) (idle_state ((new_pool 20000 20010)\<lparr>nextPort := 20000\<rparr>)) = idle_state near_the_end"
    unfolding schedule_append by (simp add: one_user near_the_end_def)
  then show ?thesis unfolding start [symmetric] by blast
qed

theorem ports_race_witness:
  "\<exists>is p. set is \<subseteq> {0, 1} \<and> callers (schedule is (idle_state near_the_end)) 1 = Held p \<and> uint p = 20010"
proof -
  let ?s = "idle_state near_the_end"
  have "pool_wf near_the_end"
  proof -
    have "(20008 :: u16) \<in> port_slots 20000 20010"
      by (subst port_slots_iff) (simp_all add: range_ok_def)
    moreover have "pool_wf (new_pool 20000 20010)" by (rule new_pool_wf) (simp add: range_ok_def)
    ultimately show ?thesis by (simp add: near_the_end_def pool_wf_def new_pool_def)
  qed
  then have "pool_wf (pool ?s)" by (simp add: idle_state_def)
  moreover have "callers ?s 0 = Idle" "callers ?s 1 = Idle" "(0 :: nat) \<noteq> 1" by (simp_all add: idle_state_def)
  moreover have "uint (nextPort (pool ?s)) + 2 = RtpPortMax (pool ?s)" "nextPort (pool ?s) \<notin> ports (pool ?s)"
      "10 \<le> portsMax (pool ?s) - portsUsed (pool ?s)"
    by (simp_all add: idle_state_def near_the_end_def new_pool_def)
  ultimately show ?thesis using ports_race [of ?s 0 1] by (simp add: idle_state_def near_the_end_def new_pool_def)
qed

text \<open>One caller holds its port, a second has stored its own and is about to advance the counter.\<close>

theorem ports_exclusive_witness:
  "callers (schedule [0, 0, 0, 0, 0, 0, 0, 1, 1, 1] (idle_state (new_pool 20000 20020))) 0 = Held 20000
   \<and> 20000 \<in> ports (pool (schedule [0, 0, 0, 0, 0, 0, 0, 1, 1, 1] (idle_state (new_pool 20000 20020))))
   \<and> portsUsed (pool (schedule [0, 0, 0, 0, 0, 0, 0, 1, 1, 1] (idle_state (new_pool 20000 20020)))) = 2"
proof -
  let ?s = "schedule [0, 0, 0, 0, 0, 0, 0, 1, 1, 1] (idle_state (new_pool 20000 20020))"
  have run: "callers ?s = (\<lambda>i. Idle)(0 := Held 20000, 1 := Stored 20002 False)" "ports (pool ?s) = {20000, 20002}"
    by (simp_all add: run_schedule idle_state_def new_pool_def wrap64_def insert_commute)
  have "{i. adding (callers ?s i)} = {1}" "{i. deleting (callers ?s i)} = {}"
    unfolding run(1) by (auto simp: adding_def deleting_def)
  then have "callers_with adding ?s = 1" "callers_with deleting ?s = 0"
    by (simp_all only: callers_with_def) simp_all
  moreover have "ports (new_pool 20000 20020) = {}" "portsUsed (new_pool 20000 20020) = 0"
    by (simp_all add: new_pool_def)
  note both = ports_exclusive [OF this refl, of "[0, 0, 0, 0, 0, 0, 0, 1, 1, 1]"]
  have "callers ?s 0 = Held 20000" unfolding run(1) by simp
  moreover from this both have "20000 \<in> ports (pool ?s)" by blast
  moreover note conjunct2 [OF both]
  moreover have "int (card (ports (pool ?s))) = 2" unfolding run(2) by simp
  ultimately show ?thesis by (simp only: simp_thms) (simp add: wrap64_def)
qed

end
