(* ===== verification/Media_Packet.thy ===== *)
theory Media_Packet
  imports Prelude Net_Addr
begin

section \<open>Frames (\<open>pktSerialize\<close> and \<open>pktChecksum\<close> of \<open>media.go\<close>)\<close>

text \<open>
  A \<open>media\<close> keeps one buffer: \<open>pktSerialize\<close> writes the parts of the Ethernet, IPv4 and UDP headers
  that never change, \<open>pktChecksum\<close> the lengths and the IPv4 checksum of each packet.
\<close>

subsection \<open>The two functions\<close>

record mediaInfo =
  addr :: string
  mport :: int

datatype media_error =
    Err_Bad_MAC
  | Err_Query_Route
  | Err_MAC_Not_Found string

text \<open>\<open>copy\<close> from \<open>net.ParseIP(s).To4()\<close>, which is nil, of length zero, for what is not IPv4.\<close>

definition ip4_of :: "string \<Rightarrow> bytes" where
  "ip4_of s = (case To4 (ParseIP s) of Some a \<Rightarrow> a | None \<Rightarrow> [])"

definition pktSerialize ::
  "bytes \<Rightarrow> mac \<Rightarrow> mac \<Rightarrow> mediaInfo \<Rightarrow> mediaInfo \<Rightarrow> (media_error, bytes) res" where
  "pktSerialize buf remoteMac localMac remote local =
     (if length remoteMac \<noteq> 6 \<or> length localMac \<noteq> 6 then Err Err_Bad_MAC
      else if length buf < 38 then Panic Index_Out_Of_Range
      else
        (let buf = copy_at 6 localMac (copy_at 0 remoteMac buf);
             buf = buf[12 := 0x08, 14 := 0x45, 20 := 0x40, 22 := 0x40, 23 := 0x11];
             buf = copy_at 30 (ip4_of (addr remote)) (copy_at 26 (ip4_of (addr local)) buf)
         in Ok (put_be16 36 (word_of_int (mport remote)) (put_be16 34 (word_of_int (mport local)) buf))))"

text \<open>
  \<open>csum\<close> stands for \<open>gopacket.FoldChecksum(gopacket.ComputeChecksum(data, 0))\<close>.
\<close>

definition pktChecksum :: "(bytes \<Rightarrow> u16) \<Rightarrow> bytes \<Rightarrow> nat \<Rightarrow> (unit, bytes) res" where
  "pktChecksum csum buf n =
     (if length buf < 42 then Panic Index_Out_Of_Range
      else
        (let buf = (put_be16 16 (word_of_nat (n + 28)) buf)[24 := 0, 25 := 0];
             buf = put_be16 24 (csum (take 20 (drop 14 buf))) buf
         in Ok ((put_be16 38 (word_of_nat (n + 8)) buf)[40 := 0, 41 := 0])))"

subsection \<open>The headers, written out\<close>

definition ip_header :: "bytes \<Rightarrow> bytes \<Rightarrow> u16 \<Rightarrow> u16 \<Rightarrow> bytes" where
  "ip_header src dst len c =
     [0x45, 0, hi8 len, lo8 len, 0, 0, 0x40, 0, 0x40, 0x11, hi8 c, lo8 c] @ src @ dst"

definition udp_header :: "u16 \<Rightarrow> u16 \<Rightarrow> u16 \<Rightarrow> bytes" where
  "udp_header sport dport len = [hi8 sport, lo8 sport, hi8 dport, lo8 dport, hi8 len, lo8 len, 0, 0]"

record endpoints =
  dst_mac :: bytes
  src_mac :: bytes
  src_ip :: bytes
  dst_ip :: bytes
  src_port :: u16
  dst_port :: u16

definition headers :: "endpoints \<Rightarrow> u16 \<Rightarrow> u16 \<Rightarrow> u16 \<Rightarrow> bytes" where
  "headers e iplen c udplen =
     dst_mac e @ src_mac e @ [0x08, 0] @ ip_header (src_ip e) (dst_ip e) iplen c
       @ udp_header (src_port e) (dst_port e) udplen"

definition endpoints_ok :: "endpoints \<Rightarrow> bool" where
  "endpoints_ok e \<longleftrightarrow> length (dst_mac e) = 6 \<and> length (src_mac e) = 6 \<and> length (src_ip e) = 4 \<and> length (dst_ip e) = 4"

text \<open>The address as it lands in the header: four zeros if there is none.\<close>

definition ip4_field :: "string \<Rightarrow> bytes" where
  "ip4_field s = (if ip4_of s = [] then [0, 0, 0, 0] else ip4_of s)"

lemma length_To4: "To4 a = Some b \<Longrightarrow> length b = 4"
  by (auto simp: To4_def split: if_splits)

lemma length_ip4_of: "ip4_of s = [] \<or> length (ip4_of s) = 4"
  by (auto simp: ip4_of_def length_To4 split: option.split)

lemma length_ip4_field [simp]: "length (ip4_field s) = 4"
  using length_ip4_of [of s] by (auto simp: ip4_field_def)

lemma list_of_4: "length xs = 4 \<Longrightarrow> \<exists>a b c d. xs = [a, b, c, d]"
  by (auto simp: length_Suc_conv eval_nat_numeral)

lemma list_of_6: "length xs = 6 \<Longrightarrow> \<exists>a b c d e f. xs = [a, b, c, d, e, f]"
  by (auto simp: length_Suc_conv eval_nat_numeral)

lemma length_headers: "endpoints_ok e \<Longrightarrow> length (headers e iplen c udplen) = 42"
  by (simp add: endpoints_ok_def headers_def ip_header_def udp_header_def)

lemma zeros_42: "replicate 42 (0 :: u8) =
  [0,0,0,0,0,0, 0,0,0,0,0,0, 0,0, 0,0,0,0,0,0,0,0,0,0,0,0, 0,0,0,0, 0,0,0,0, 0,0,0,0,0,0,0,0]"
  by (simp add: eval_nat_numeral)

lemma hi8_lo8_0 [simp]: "hi8 0 = 0" "lo8 0 = 0"
  by (simp_all add: hi8_def lo8_def)

definition make_endpoints :: "mac \<Rightarrow> mac \<Rightarrow> mediaInfo \<Rightarrow> mediaInfo \<Rightarrow> endpoints" where
  "make_endpoints remoteMac localMac remote local =
     \<lparr>dst_mac = remoteMac, src_mac = localMac, src_ip = ip4_field (addr local), dst_ip = ip4_field (addr remote),
      src_port = word_of_int (mport local), dst_port = word_of_int (mport remote)\<rparr>"

lemma pktSerialize_headers:
  assumes "length remoteMac = 6" "length localMac = 6"
  shows "pktSerialize (replicate 42 0 @ rest) remoteMac localMac remote local =
    Ok (headers (make_endpoints remoteMac localMac remote local) 0 0 0 @ rest)"
proof -
  obtain a b c d e f where r: "remoteMac = [a, b, c, d, e, f]" using list_of_6 [OF assms(1)] by blast
  obtain a' b' c' d' e' f' where l: "localMac = [a', b', c', d', e', f']" using list_of_6 [OF assms(2)] by blast
  have ip: "ip4_of s = [] \<and> ip4_field s = [0, 0, 0, 0] \<or> (\<exists>w x y z. ip4_of s = [w, x, y, z] \<and> ip4_field s = [w, x, y, z])" for s
    using length_ip4_of [of s] list_of_4 [of "ip4_of s"] by (auto simp: ip4_field_def)
  note copies = copy_at_def r l zeros_42 put_be16_def headers_def ip_header_def udp_header_def make_endpoints_def
  show ?thesis
    using ip [of "addr local"] ip [of "addr remote"]
    by (elim disjE exE conjE) (simp_all add: pktSerialize_def copies Let_def)
qed

lemma pktChecksum_headers:
  assumes "endpoints_ok ep"
  shows "pktChecksum csum (headers ep l c u @ rest) n =
    Ok (headers ep (word_of_nat (n + 28)) (csum (ip_header (src_ip ep) (dst_ip ep) (word_of_nat (n + 28)) 0))
          (word_of_nat (n + 8)) @ rest)"
proof -
  obtain a1 b1 c1 d1 e1 f1 where r: "dst_mac ep = [a1, b1, c1, d1, e1, f1]"
    using assms list_of_6 unfolding endpoints_ok_def by metis
  obtain a2 b2 c2 d2 e2 f2 where s: "src_mac ep = [a2, b2, c2, d2, e2, f2]"
    using assms list_of_6 unfolding endpoints_ok_def by metis
  obtain a3 b3 c3 d3 where i: "src_ip ep = [a3, b3, c3, d3]"
    using assms list_of_4 unfolding endpoints_ok_def by metis
  obtain a4 b4 c4 d4 where j: "dst_ip ep = [a4, b4, c4, d4]"
    using assms list_of_4 unfolding endpoints_ok_def by metis
  define len where "len = (word_of_nat (n + 28) :: u16)"
  define ulen where "ulen = (word_of_nat (n + 8) :: u16)"
  show ?thesis
    unfolding pktChecksum_def len_def [symmetric] ulen_def [symmetric]
    by (simp add: headers_def ip_header_def udp_header_def r s i j put_be16_def Let_def)
qed

subsection \<open>The Internet checksum\<close>

text \<open>
  The sum of the 16-bit numbers of the bytes, its carries folded back, and its complement; a
  receiver adds everything up, checksum included, and wants all ones.
\<close>

fun ones_sum :: "bytes \<Rightarrow> nat" where
  "ones_sum (h # l # bs) = 256 * unat h + unat l + ones_sum bs"
| "ones_sum [b] = 256 * unat b"
| "ones_sum [] = 0"

function fold16 :: "nat \<Rightarrow> nat" where
  "fold16 n = (if n < 65536 then n else fold16 (n mod 65536 + n div 65536))"
  by pat_completeness auto
termination
proof (relation "measure id")
  fix n :: nat
  assume "\<not> n < 65536"
  moreover have "n = 65536 * (n div 65536) + n mod 65536" by simp
  moreover from calculation(1) have "1 \<le> n div 65536" by (simp add: div_greater_zero_iff Suc_le_eq)
  ultimately show "(n mod 65536 + n div 65536, n) \<in> measure id" unfolding in_measure id_apply by linarith
qed simp

declare fold16.simps [simp del]

definition internet_checksum :: "bytes \<Rightarrow> u16" where
  "internet_checksum bs = NOT (word_of_nat (fold16 (ones_sum bs)))"

definition checksum_valid :: "bytes \<Rightarrow> bool" where
  "checksum_valid bs \<longleftrightarrow> fold16 (ones_sum bs) = 65535"

lemma fold16_mod: "fold16 n < 65536 \<and> fold16 n mod 65535 = n mod 65535 \<and> (fold16 n = 0 \<longleftrightarrow> n = 0)"
proof (induction n rule: fold16.induct)
  case (1 n)
  show ?case
  proof (cases "n < 65536")
    case True
    then show ?thesis by (simp add: fold16.simps)
  next
    case False
    let ?m = "n mod 65536 + n div 65536"
    have n: "n = 65536 * (n div 65536) + n mod 65536" by simp
    then have "n = 65535 * (n div 65536) + ?m" by linarith
    then have "n mod 65535 = (65535 * (n div 65536) + ?m) mod 65535" by (rule arg_cong)
    also have "\<dots> = ?m mod 65535" by (rule mod_mult_self4)
    finally have "?m mod 65535 = n mod 65535" by (rule sym)
    moreover have "?m \<noteq> 0" using False n by auto
    moreover have "fold16 n = fold16 ?m" using False by (subst fold16.simps) simp
    ultimately show ?thesis using "1.IH" [OF False] False by simp
  qed
qed

lemma unat_hi_lo: "256 * unat (hi8 v) + unat (lo8 v) = unat v"
  using unat_be16 [of "hi8 v" "lo8 v"] by simp

lemma ones_sum_ip_header:
  assumes "length src = 4" "length dst = 4"
  shows "ones_sum (ip_header src dst len c) = ones_sum (ip_header src dst len 0) + unat c"
    and "0 < ones_sum (ip_header src dst len c)"
proof -
  obtain a b d e where "src = [a, b, d, e]" using list_of_4 [OF assms(1)] by blast
  moreover obtain a' b' d' e' where "dst = [a', b', d', e']" using list_of_4 [OF assms(2)] by blast
  ultimately show "ones_sum (ip_header src dst len c) = ones_sum (ip_header src dst len 0) + unat c"
    "0 < ones_sum (ip_header src dst len c)"
    using unat_hi_lo [of c] by (simp_all add: ip_header_def)
qed

lemma unat_NOT_u16: "unat (NOT (w :: u16)) = 65535 - unat w"
proof -
  have m1: "unat (- 1 :: u16) = 65535"
    by (simp add: unsigned_minus_1_eq_mask mask_eq_exp_minus_1)
  have "NOT w = - 1 - w" by (simp add: not_eq_complement)
  also have "unat (- 1 - w) = unat (- 1 :: u16) - unat w"
    using unat_u16_less [of w] m1 by (intro unat_sub) (simp add: word_le_nat_alt)
  finally show ?thesis by (simp only: m1)
qed

lemma ip_header_valid:
  assumes "length src = 4" "length dst = 4"
  shows "checksum_valid (ip_header src dst len (internet_checksum (ip_header src dst len 0)))"
proof -
  let ?s = "ones_sum (ip_header src dst len 0)"
  let ?c = "internet_checksum (ip_header src dst len 0)"
  let ?t = "ones_sum (ip_header src dst len ?c)"
  have f: "fold16 ?s < 65536" "fold16 ?s mod 65535 = ?s mod 65535" using fold16_mod by blast+
  then have c: "unat ?c = 65535 - fold16 ?s"
    by (simp add: internet_checksum_def unat_NOT_u16 unsigned_of_nat take_bit_nat_eq_self)
  have "?t = ?s + (65535 - fold16 ?s)" using ones_sum_ip_header(1) [OF assms, of len ?c] c by simp
  then have "?t mod 65535 = (fold16 ?s + (65535 - fold16 ?s)) mod 65535"
    using f(2) by (metis mod_add_left_eq)
  then have "?t mod 65535 = 0" using f(1) by simp
  moreover have "0 < ?t" by (rule ones_sum_ip_header(2) [OF assms])
  ultimately have "fold16 ?t mod 65535 = 0" "fold16 ?t \<noteq> 0" "fold16 ?t < 65536"
    using fold16_mod [of ?t] by auto
  then show ?thesis unfolding checksum_valid_def by (cases "fold16 ?t < 65535") auto
qed

subsection \<open>The frame of a packet\<close>

definition frame :: "(bytes \<Rightarrow> u16) \<Rightarrow> endpoints \<Rightarrow> bytes \<Rightarrow> bytes" where
  "frame csum e data =
     headers e (word_of_nat (length data + 28))
       (csum (ip_header (src_ip e) (dst_ip e) (word_of_nat (length data + 28)) 0))
       (word_of_nat (length data + 8)) @ data"

lemma headers_nth:
  assumes "endpoints_ok e"
  shows "headers e l c u ! 12 = 8" "headers e l c u ! 13 = 0" "headers e l c u ! 14 = 0x45"
    "headers e l c u ! 22 = 0x40" "headers e l c u ! 23 = 0x11"
    "get_be16 36 (headers e l c u) = dst_port e" "get_be16 38 (headers e l c u) = u"
  using assms
  by (simp_all add: endpoints_ok_def headers_def ip_header_def udp_header_def nth_append get_be16_def)

end
