(* ===== verification/Sdp.thy ===== *)
theory Sdp
  imports Strconv Media_Packet
begin

section \<open>Session descriptions (\<open>sdp.go\<close> and the first part of \<open>media.go\<close>)\<close>

text \<open>
  The texts the program sends, as \<open>fmt.Sprintf\<close> makes them, and what it takes from the ones it
  receives. The parsers are not the program's: \<open>unmarshal\<close> is \<open>sdp.SessionDescription.Unmarshal\<close>
  of \<open>pion/sdp\<close> and \<open>parts\<close> the parts that \<open>multipart.Reader\<close> gives for a body and a boundary, as
  content type and bytes, up to the end or the first error; a part whose bytes cannot be read is
  \<open>None\<close>.
\<close>

subsection \<open>What is sent\<close>

definition crlf :: string where "crlf = [CHR 0x0D, CHR 0x0A]"

definition sdp_session :: "string \<Rightarrow> string" where
  "sdp_session a =
     ''v=0'' @ crlf @ ''o=sipbench 1719874986 1719874987 IN IP4 '' @ a @ crlf @ ''s=sipbench'' @ crlf
       @ ''c=IN IP4 '' @ a @ crlf @ ''t=0 0'' @ crlf"

definition sdp_audio :: "u16 \<Rightarrow> string" where
  "sdp_audio port =
     ''m=audio '' @ show_nat (unat port) @ '' RTP/AVP 8'' @ crlf @ ''a=rtpmap:8 PCMA/8000'' @ crlf"

definition sdpBase :: "string \<Rightarrow> u16 \<Rightarrow> string" where
  "sdpBase a port = sdp_session a @ sdp_audio port"

definition sdpSIPREC :: "string \<Rightarrow> string" where
  "sdpSIPREC a = sdp_session a"

subsection \<open>What is received\<close>

text \<open>
  The fields of the parsed description that the program reads. A connection line is a pointer to a
  struct with a pointer to the address: both may be nil.
\<close>

record media_description =
  md_Media :: string
  md_Port :: int
  md_Connection :: "string option option"

record session_description =
  sd_Connection :: "string option option"
  sd_Medias :: "media_description list"

datatype sdp_error = Err_Parse_SDP | Err_Read_Part | Err_No_SDP

definition conn_addr :: "string option \<Rightarrow> ('e, string) res" where
  "conn_addr c = (case c of None \<Rightarrow> Panic Nil_Dereference | Some a \<Rightarrow> Ok a)"

fun audio_infos :: "string \<Rightarrow> media_description list \<Rightarrow> mediaInfo list \<Rightarrow> (sdp_error, mediaInfo list) res" where
  "audio_infos globalAddr [] infos = Ok infos"
| "audio_infos globalAddr (md # mds) infos =
     (if md_Media md = ''audio''
      then bind_res (case md_Connection md of None \<Rightarrow> Ok globalAddr | Some c \<Rightarrow> conn_addr c) (\<lambda>a.
        audio_infos globalAddr mds (infos @ [\<lparr>addr = a, mport = md_Port md\<rparr>]))
      else audio_infos globalAddr mds infos)"

definition getAudioMediaFromSDP ::
  "(bytes \<Rightarrow> session_description option) \<Rightarrow> bytes \<Rightarrow> (sdp_error, mediaInfo list) res" where
  "getAudioMediaFromSDP unmarshal raw =
     (case unmarshal raw of
        None \<Rightarrow> Err Err_Parse_SDP
      | Some sd \<Rightarrow>
          bind_res (case sd_Connection sd of None \<Rightarrow> Ok [] | Some c \<Rightarrow> conn_addr c) (\<lambda>globalAddr.
            audio_infos globalAddr (sd_Medias sd) []))"

fun first_sdp_part :: "(string \<times> bytes option) list \<Rightarrow> (sdp_error, bytes) res" where
  "first_sdp_part [] = Err Err_No_SDP"
| "first_sdp_part ((contentType, body) # ps) =
     (if contentType = ''application/sdp''
      then (case body of None \<Rightarrow> Err Err_Read_Part | Some got \<Rightarrow> Ok got)
      else first_sdp_part ps)"

definition getAudioMediaFromMultipartSDP ::
  "(bytes \<Rightarrow> session_description option) \<Rightarrow> (bytes \<Rightarrow> string \<Rightarrow> (string \<times> bytes option) list) \<Rightarrow>
   bytes \<Rightarrow> string \<Rightarrow> (sdp_error, mediaInfo list) res" where
  "getAudioMediaFromMultipartSDP unmarshal parts raw boundary =
     bind_res (first_sdp_part (parts raw boundary)) (getAudioMediaFromSDP unmarshal)"

subsection \<open>One entry per audio stream\<close>

text \<open>The address a stream is sent to: its own, or that of the session.\<close>

definition stream_addr :: "session_description \<Rightarrow> media_description \<Rightarrow> string option" where
  "stream_addr sd md =
     (case md_Connection md of Some c \<Rightarrow> c | None \<Rightarrow> (case sd_Connection sd of Some c \<Rightarrow> c | None \<Rightarrow> Some []))"

definition audio_streams :: "session_description \<Rightarrow> media_description list" where
  "audio_streams sd = filter (\<lambda>md. md_Media md = ''audio'') (sd_Medias sd)"

lemma audio_infos_acc: "audio_infos g mds acc = map_ok (\<lambda>infos. acc @ infos) (audio_infos g mds [])"
proof (induction mds arbitrary: acc)
  case Nil
  then show ?case by simp
next
  case (Cons md mds)
  have [simp]: "map_ok f (bind_res r h) = bind_res r (\<lambda>x. map_ok f (h x))" for f :: "'x \<Rightarrow> 'y" and r :: "(sdp_error, 'z) res" and h
    by (cases r) auto
  have [simp]: "map_ok f (map_ok h r) = map_ok (\<lambda>x. f (h x)) r" for f :: "'y \<Rightarrow> 'w" and h :: "'x \<Rightarrow> 'y" and r :: "(sdp_error, 'x) res"
    by (cases r) auto
  show ?case
  proof (cases "md_Media md = ''audio''")
    case True
    have "audio_infos g mds (acc @ [x]) = map_ok (\<lambda>infos. acc @ infos) (audio_infos g mds [x])" for x
      using Cons [of "acc @ [x]"] Cons [of "[x]"] by simp
    then show ?thesis using True by simp
  qed (use Cons [of acc] in simp)
qed

lemma audio_infos_map:
  "\<forall>md \<in> set mds. md_Media md = ''audio'' \<longrightarrow> md_Connection md \<noteq> Some None \<Longrightarrow>
   audio_infos g mds [] = Ok (map (\<lambda>md. \<lparr>addr = (case md_Connection md of Some (Some a) \<Rightarrow> a | _ \<Rightarrow> g), mport = md_Port md\<rparr>)
     (filter (\<lambda>md. md_Media md = ''audio'') mds))"
proof (induction mds)
  case Nil
  then show ?case by simp
next
  case (Cons md mds)
  then have IH: "audio_infos g mds [] = Ok (map (\<lambda>md. \<lparr>addr = (case md_Connection md of Some (Some a) \<Rightarrow> a | _ \<Rightarrow> g), mport = md_Port md\<rparr>)
     (filter (\<lambda>md. md_Media md = ''audio'') mds))" by simp
  show ?case
    using Cons.prems IH audio_infos_acc [of g mds "[x]" for x]
    by (auto simp: conn_addr_def split: option.splits)
qed

lemma audio_infos_panic:
  "\<exists>md \<in> set mds. md_Media md = ''audio'' \<and> md_Connection md = Some None \<Longrightarrow>
   audio_infos g mds acc = Panic Nil_Dereference"
  by (induction g mds acc rule: audio_infos.induct) (auto simp: conn_addr_def split: option.splits)

text \<open>
  From a description that parses and whose connection lines carry addresses, the program takes
  one entry per audio stream, in their order, with the stream's port and the address of the stream's
  own connection line, of the session's if it has none, and the empty address if that is missing,
  too. A description without audio streams is no error: it gives the empty list. A connection line
  without an address that the program looks at is a nil dereference.
\<close>

lemma sdp_audio_streams:
  assumes "unmarshal raw = Some sd"
  shows "if sd_Connection sd = Some None then getAudioMediaFromSDP unmarshal raw = Panic Nil_Dereference
    else if \<exists>md \<in> set (audio_streams sd). stream_addr sd md = None
      then getAudioMediaFromSDP unmarshal raw = Panic Nil_Dereference
    else \<exists>infos. getAudioMediaFromSDP unmarshal raw = Ok infos
      \<and> map mport infos = map md_Port (audio_streams sd)
      \<and> map (\<lambda>i. Some (addr i)) infos = map (stream_addr sd) (audio_streams sd)"
proof (cases "sd_Connection sd = Some None")
  case True
  then show ?thesis using assms by (simp add: getAudioMediaFromSDP_def conn_addr_def)
next
  case False
  let ?g = "case sd_Connection sd of Some (Some a) \<Rightarrow> a | _ \<Rightarrow> []"
  have get: "getAudioMediaFromSDP unmarshal raw = audio_infos ?g (sd_Medias sd) []"
    using assms False by (auto simp: getAudioMediaFromSDP_def conn_addr_def split: option.split)
  have bad: "stream_addr sd md = None \<longleftrightarrow> md_Connection md = Some None" for md
    using False by (auto simp: stream_addr_def split: option.split)
  show ?thesis
  proof (cases "\<exists>md \<in> set (audio_streams sd). stream_addr sd md = None")
    case True
    then have "\<exists>md \<in> set (sd_Medias sd). md_Media md = ''audio'' \<and> md_Connection md = Some None"
      by (auto simp: bad audio_streams_def)
    from audio_infos_panic [OF this] show ?thesis using True False get by simp
  next
    case fine: False
    then have "\<forall>md \<in> set (sd_Medias sd). md_Media md = ''audio'' \<longrightarrow> md_Connection md \<noteq> Some None"
      by (auto simp: bad audio_streams_def)
    from audio_infos_map [OF this, of ?g]
    have ok: "getAudioMediaFromSDP unmarshal raw =
        Ok (map (\<lambda>md. \<lparr>addr = (case md_Connection md of Some (Some a) \<Rightarrow> a | _ \<Rightarrow> ?g), mport = md_Port md\<rparr>) (audio_streams sd))"
      by (simp add: get audio_streams_def)
    have "Some (case md_Connection md of Some (Some a) \<Rightarrow> a | _ \<Rightarrow> ?g) = stream_addr sd md"
      if "md \<in> set (audio_streams sd)" for md
      using fine that False by (auto simp: stream_addr_def split: option.splits)
    then show ?thesis using False fine ok by (simp add: comp_def)
  qed
qed

definition sample_session :: session_description where
  "sample_session = \<lparr>sd_Connection = Some (Some ''10.0.0.2''),
     sd_Medias = [\<lparr>md_Media = ''video'', md_Port = 4000, md_Connection = None\<rparr>,
                  \<lparr>md_Media = ''audio'', md_Port = 5000, md_Connection = None\<rparr>,
                  \<lparr>md_Media = ''audio'', md_Port = 6000, md_Connection = Some (Some ''10.0.0.3'')\<rparr>]\<rparr>"

lemma sdp_audio_streams_witness:
  "\<exists>infos. getAudioMediaFromSDP (\<lambda>_. Some sample_session) [1] = Ok infos \<and> map mport infos = [5000, 6000]
     \<and> map (\<lambda>i. Some (addr i)) infos = [Some ''10.0.0.2'', Some ''10.0.0.3'']"
  using sdp_audio_streams [of "\<lambda>_. Some sample_session" "[1]" sample_session]
  by (simp add: sample_session_def audio_streams_def stream_addr_def)

end
