(* ===== verification/Ua.thy ===== *)
theory Ua
  imports Ports Time_Range Rtp Ebpf Xdp_Socket
begin

section \<open>The state that both user agents share (\<open>ua.go\<close>)\<close>

text \<open>
  \<open>baseUa\<close> extends the pool of ports by the rest of the struct. Its dialogs are values of a type
  parameter, the sockets are a list and the distributor hands out positions in it, which stand for
  the pointers. What the system, the files and the random source give is the record \<open>ua_env\<close>.
\<close>

record BaseUaConfig =
  cfg_Interface :: string
  cfg_RtpPortMin :: int
  cfg_RtpPortMax :: int
  cfg_RingingTimeout :: string
  cfg_AnswerTimeout :: string
  cfg_EarlyMedia :: string
  cfg_AnswerMedia :: string
  XDPSize :: int

record 'd baseUa = port_pool +
  cfg :: BaseUaConfig
  cancelled :: bool
  dialogs :: "string \<rightharpoonup> 'd"
  ringingTimeRange :: TimeRange
  answerTimeRange :: TimeRange
  EarlyMedia :: "Packet list"
  AnswerMedia :: "Packet list"
  sockets :: "Socket list"
  xdpSocketsLB :: "nat round_robin"
  metricsCurrentDialogs :: int
  metricsDialogs :: u64

datatype ua_error =
    Err_Time_Range tr_error
  | Err_Media rtp_error
  | Err_Net_Interfaces
  | Err_Interface_Not_Found
  | Err_Bind_Interfaces manager_error
  | Err_Xdp_Socket int nat new_error

text \<open>
  \<open>env_rand k\<close> are the random numbers of the \<open>k\<close>-th call of \<open>LoadRTP\<close>, \<open>env_sys i\<close> the answers to
  the system calls of \<open>NewSocket\<close> for queue \<open>i\<close>, \<open>env_ifaces\<close> the names and indices of the
  interfaces.
\<close>

record 'l ua_env =
  env_file :: "string \<Rightarrow> read_result list option"
  env_capture :: "string \<Rightarrow> (link_type \<times> (int \<times> bytes) list) option"
  env_rand :: "nat \<Rightarrow> (nat \<Rightarrow> nat \<Rightarrow> nat) \<times> u32"
  env_ifaces :: "(string \<times> int) list option"
  env_attach :: "int \<Rightarrow> bool \<Rightarrow> string + 'l"
  env_sys :: "nat \<Rightarrow> sys_answers"

subsection \<open>Sockets for the queues of an interface\<close>

fun find_iface :: "string \<Rightarrow> (string \<times> int) list \<Rightarrow> int option" where
  "find_iface name [] = None"
| "find_iface name ((n, index) # fs) = (if n = name then Some index else find_iface name fs)"

definition getIfindexByName :: "(string \<times> int) list option \<Rightarrow> string \<Rightarrow> (ua_error, int) res" where
  "getIfindexByName ifs name =
     (case ifs of
        None \<Rightarrow> Err Err_Net_Interfaces
      | Some l \<Rightarrow> (case find_iface name l of None \<Rightarrow> Err Err_Interface_Not_Found | Some i \<Rightarrow> Ok i))"

text \<open>
  The sizes are numbers of type \<open>int\<close>; those of \<open>SocketOptions\<close> are natural numbers in the model,
  a negative \<open>XDPSize\<close> being zero there: both make the mapping of the umem fail.
\<close>

definition ua_socket_options :: "int \<Rightarrow> SocketOptions" where
  "ua_socket_options sz =
     \<lparr>NumFrames = nat sz, FrameSize = 2048, FillRingNumDescs = 8, CompletionRingNumDescs = nat sz div 2,
      RxRingNumDescs = 8, TxRingNumDescs = nat sz div 2, TxStep = 500000\<rparr>"

fun xdp_loop ::
  "(nat \<Rightarrow> sys_answers) \<Rightarrow> int \<Rightarrow> int \<Rightarrow> nat list \<Rightarrow> Socket list \<Rightarrow> (ua_error, Socket list) res" where
  "xdp_loop sys index sz [] socks = Ok socks"
| "xdp_loop sys index sz (i # is) socks =
     bind_res (no_err Err_Net_Interfaces (NewSocket index (Some (ua_socket_options sz)) (sys i))) (\<lambda>r.
       case r of
         Inr (xsk, held) \<Rightarrow> xdp_loop sys index sz is (socks @ [xsk])
       | Inl (e, held) \<Rightarrow> if e = ErrBindFailed then Ok socks else Err (Err_Xdp_Socket index i e))"

definition initXDP ::
  "'l ua_env \<Rightarrow> 'l Manager \<Rightarrow> string \<Rightarrow> 'd baseUa \<Rightarrow> (ua_error, 'd baseUa) res \<times> 'l Manager" where
  "initXDP env m name u =
     (case getIfindexByName (env_ifaces env) name of
        Err e \<Rightarrow> (Err e, m)
      | Panic p \<Rightarrow> (Panic p, m)
      | Ok index \<Rightarrow>
          (case BindInterfaces (env_attach env) [index] m of
             (Some e, m') \<Rightarrow> (Err (Err_Bind_Interfaces e), m')
           | (None, m') \<Rightarrow>
               (map_ok (\<lambda>socks. u\<lparr>sockets := socks, xdpSocketsLB := NewRoundRobin [0..<length socks]\<rparr>)
                  (xdp_loop (env_sys env) index (XDPSize (cfg u)) [0..<16] []), m')))"

subsection \<open>\<open>newBaseUa\<close>\<close>

fun wrap_err :: "('e \<Rightarrow> 'f) \<Rightarrow> ('e, 'a) res \<Rightarrow> ('f, 'a) res" where
  "wrap_err f (Ok x) = Ok x"
| "wrap_err f (Err e) = Err (f e)"
| "wrap_err f (Panic p) = Panic p"

definition load_media :: "'l ua_env \<Rightarrow> nat \<Rightarrow> string \<Rightarrow> (ua_error, Packet list) res" where
  "load_media env k name =
     (if name = [] then Ok []
      else wrap_err Err_Media
        (LoadRTP (env_file env) (env_capture env) (fst (env_rand env k)) (snd (env_rand env k)) name))"

text \<open>The struct literal: the time ranges and the distributor are still their zero values.\<close>

definition blank_ua :: "BaseUaConfig \<Rightarrow> 'd baseUa" where
  "blank_ua c =
     \<lparr>RtpPortMin = cfg_RtpPortMin c, RtpPortMax = cfg_RtpPortMax c, ports = {},
      nextPort = word_of_int (cfg_RtpPortMin c), portsUsed = 0,
      portsMax = wrap64 (cfg_RtpPortMax c - cfg_RtpPortMin c),
      cfg = c, cancelled = False, dialogs = Map.empty,
      ringingTimeRange = Weighted (timeSingle 0 0), answerTimeRange = Weighted (timeSingle 0 0),
      EarlyMedia = [], AnswerMedia = [], sockets = [], xdpSocketsLB = NewRoundRobin [],
      metricsCurrentDialogs = 0, metricsDialogs = 0\<rparr>"

definition newBaseUa ::
  "'l ua_env \<Rightarrow> BaseUaConfig \<Rightarrow> 'l Manager \<Rightarrow> (ua_error, 'd baseUa) res \<times> 'l Manager" where
  "newBaseUa env c m =
     (case bind_res (wrap_err Err_Time_Range (NewTimeRange (cfg_RingingTimeout c))) (\<lambda>ringing.
           bind_res (wrap_err Err_Time_Range (NewTimeRange (cfg_AnswerTimeout c))) (\<lambda>answer.
           bind_res (load_media env 0 (cfg_EarlyMedia c)) (\<lambda>early.
           bind_res (load_media env 1 (cfg_AnswerMedia c)) (\<lambda>media.
             Ok ((blank_ua c)\<lparr>ringingTimeRange := ringing, answerTimeRange := answer,
                  EarlyMedia := early, AnswerMedia := media\<rparr>))))) of
        Ok u \<Rightarrow> initXDP env m (cfg_Interface c) u
      | Err e \<Rightarrow> (Err e, m)
      | Panic p \<Rightarrow> (Panic p, m))"

text \<open>\<open>Close\<close> of \<open>baseUa\<close> does nothing.\<close>

definition baseUa_Close :: "'d baseUa \<Rightarrow> 'd baseUa" where "baseUa_Close u = u"

text \<open>What \<open>metricsOutput\<close> logs at each tick: the current dialogs, converted to 64 bits, and all so far.\<close>

definition metricsOutput :: "'d baseUa \<Rightarrow> u64 \<times> u64" where
  "metricsOutput u = (word_of_int (metricsCurrentDialogs u), metricsDialogs u)"

subsection \<open>The sockets\<close>

definition sys_sane :: "sys_answers \<Rightarrow> bool" where
  "sys_sane s \<longleftrightarrow> s_munmap s \<and> (\<forall>n. s_socket s = Some n \<longrightarrow> 0 \<le> n)"

text \<open>Whether \<open>NewSocket\<close> gets through, and whether it stops at the bind.\<close>

definition queue_opens :: "sys_answers \<Rightarrow> bool" where
  "queue_opens s \<longleftrightarrow> s_socket s \<noteq> None \<and> s_umem s \<and> s_umem_reg s \<and> s_fill s \<and> s_completion s \<and> s_rx s \<and> s_tx s
     \<and> s_offsets s \<and> s_map_fill s \<and> s_map_completion s \<and> s_map_rx s \<and> s_map_tx s"

text \<open>The socket made for a queue.\<close>

definition ua_socket :: "int \<Rightarrow> int \<Rightarrow> int \<Rightarrow> Socket" where
  "ua_socket index sz n =
     mapped_socket ((blank_socket index (ua_socket_options sz))
       \<lparr>fd := n, umem := Some (replicate (nat sz * 2048) 0)\<rparr>)"

lemma NewSocket_ua:
  assumes sane: "sys_sane s" and sz: "2 \<le> sz" and opens: "queue_opens s"
  shows "(s_bind s \<longrightarrow> (\<exists>n held. NewSocket index (Some (ua_socket_options sz)) s = Ok (Inr (ua_socket index sz n, held))))
    \<and> (\<not> s_bind s \<longrightarrow> (\<exists>held. NewSocket index (Some (ua_socket_options sz)) s = Ok (Inl (ErrBindFailed, held))))"
proof -
  obtain n where n: "s_socket s = Some n" "0 \<le> n" "s_munmap s"
    using sane opens by (auto simp: sys_sane_def queue_opens_def)
  let ?o = "ua_socket_options sz"
  let ?xsk = "(blank_socket index ?o)\<lparr>fd := n, umem := Some (replicate (nat sz * 2048) 0)\<rparr>"
  have tx: "0 < nat sz div 2" using sz by (simp add: div_greater_zero_iff)
  have opened: "NewSocket_open index (Some ?o) s = Ok (Inr (?xsk, [R_Fd, R_Umem]))"
    using opens n sz tx
    by (simp add: NewSocket_open_def Let_def queue_opens_def ua_socket_options_def)
  have opts: "options ?xsk = ?o" "fd ?xsk \<noteq> -1" "txChan ?xsk = None"
    using n(2) by (simp_all add: blank_socket_def)
  show ?thesis
  proof (intro conjI impI)
    assume "s_bind s"
    then have "\<exists>held. NewSocket_map s ?xsk [R_Fd, R_Umem] = Ok (Inr (mapped_socket ?xsk, held))"
      using opens opts by (simp add: NewSocket_map_def mapped_socket_def Let_def queue_opens_def)
    then show "\<exists>n held. NewSocket index (Some ?o) s = Ok (Inr (ua_socket index sz n, held))"
      using opened by (auto simp: NewSocket_def ua_socket_def)
  next
    assume "\<not> s_bind s"
    then have "\<exists>held. NewSocket_map s ?xsk [R_Fd, R_Umem] = Ok (Inl (ErrBindFailed, held))"
      using opens opts by (simp add: NewSocket_map_def Let_def queue_opens_def fail_closed_eq)
    then show "\<exists>held. NewSocket index (Some ?o) s = Ok (Inl (ErrBindFailed, held))"
      using opened by (auto simp: NewSocket_def)
  qed
qed

lemma ua_options_ok:
  assumes "1 \<le> k" "k \<le> 32"
  shows "opts_ok (ua_socket_options (2 ^ k))" "tx_fits (ua_socket_options (2 ^ k)) \<longleftrightarrow> 4 \<le> k"
proof -
  obtain j where j: "k = Suc j" using assms(1) by (cases k) auto
  have half: "nat (2 ^ k) div 2 = 2 ^ j" by (simp add: j nat_mult_distrib nat_power_eq)
  have whole: "nat (2 ^ k) = 2 * 2 ^ j" by (simp add: j nat_mult_distrib nat_power_eq)
  have eight: "(8 :: nat) = 2 ^ 3" by simp
  have ring: "ring_size (8 :: nat)" unfolding ring_size_def eight by (intro exI [of _ 3]) simp
  have ring': "ring_size (2 ^ j)" using assms(2) j by (auto simp: ring_size_def)
  have "(2 :: nat) ^ j \<le> 2 ^ 31" using assms(2) j by (intro power_increasing) simp_all
  then show "opts_ok (ua_socket_options (2 ^ k))"
    using ring ring' half whole by (simp add: opts_ok_def ua_socket_options_def)
  have "(8 :: nat) \<le> 2 ^ j \<longleftrightarrow> 3 \<le> j" unfolding eight by (rule power_increasing_iff) simp
  then show "tx_fits (ua_socket_options (2 ^ k)) \<longleftrightarrow> 4 \<le> k"
    using half whole j by (auto simp: tx_fits_def ua_socket_options_def)
qed

lemma ua_socket_wf:
  assumes "1 \<le> k" "k \<le> 32"
  shows "sock_wf (ua_socket index (2 ^ k) n)" "options (ua_socket index (2 ^ k) n) = ua_socket_options (2 ^ k)"
proof -
  show "sock_wf (ua_socket index (2 ^ k) n)"
    unfolding ua_socket_def using ua_options_ok(1) [OF assms]
    by (intro mapped_socket_wf) (auto simp: blank_socket_def ua_socket_options_def)
  show "options (ua_socket index (2 ^ k) n) = ua_socket_options (2 ^ k)"
    by (simp add: ua_socket_def mapped_socket_def Let_def blank_socket_def)
qed

lemma SendMsg_outside_umem:
  assumes wf: "sock_wf xsk" and opts: "options xsk = ua_socket_options (2 ^ k)" and k: "1 \<le> k" "k < 4"
  shows "SendMsg_prepare data xsk = Panic Slice_Bounds"
proof -
  let ?o = "options xsk"
  let ?f = "tx_frame ?o (txIndex xsk + 1)"
  obtain m where m: "umem xsk = Some m" "length m = NumFrames ?o * 2048"
    using wf opts by (auto simp: sock_wf_def Let_def ua_socket_options_def)
  have "(2 :: int) ^ k \<le> 2 ^ 3" using k by (intro power_increasing) simp_all
  then have small: "nat (2 ^ k) \<le> 8" by simp
  have sizes: "FrameSize ?o = 2048" "FillRingNumDescs ?o = 8" "NumFrames ?o = nat (2 ^ k)"
      "CompletionRingNumDescs ?o \<le> 4"
    using small by (simp_all add: opts ua_socket_options_def)
  have "0 < CompletionRingNumDescs ?o" using ring_size_pos [OF sock_wf_sizes(2) [OF wf]] .
  then have f: "8 \<le> ?f" "?f < 12"
  proof -
    have "unat (txIndex xsk + 1) mod CompletionRingNumDescs ?o < 4"
      using \<open>0 < CompletionRingNumDescs ?o\<close> sizes(4) by (meson mod_less_divisor less_le_trans)
    then show "8 \<le> ?f" "?f < 12" using sizes(2) by (simp_all add: tx_frame_def)
  qed
  define a where "a = (word_of_nat (?f * 2048) :: u64)"
  have a: "unat a = ?f * 2048" using f unfolding a_def by (intro unat_u64) simp
  have "unat (a + ucast (word_of_nat 2048 :: u32)) = unat a + 2048"
    using a f by (simp add: unat_word_ariths)
  then have "GetFrame \<lparr>Addr = a, Len = word_of_nat 2048\<rparr> xsk' = Panic Slice_Bounds" if "umem xsk' = umem xsk" for xsk'
    using a f m small that sizes(3) by (simp add: GetFrame_def Let_def)
  moreover have "a \<noteq> 0" using a f by auto
  ultimately show ?thesis
    using GetTxDesc_eq [OF wf, unfolded sizes(1), folded a_def] by (simp add: SendMsg_prepare_def)
qed

lemma xdp_loop_queues:
  assumes "\<forall>i. sys_sane (sys i) \<and> queue_opens (sys i) \<and> (s_bind (sys i) \<longleftrightarrow> i < q)" and "2 \<le> sz"
  shows "\<exists>socks. xdp_loop sys index sz [j..<j + n] acc = Ok (acc @ socks)
    \<and> length socks = (if j < q then min n (q - j) else 0) \<and> (\<forall>x \<in> set socks. \<exists>n. x = ua_socket index sz n)"
proof (induction n arbitrary: j acc)
  case 0
  then show ?case by simp
next
  case (Suc n)
  have upt: "[j..<j + Suc n] = j # [Suc j..<Suc j + n]" by (simp add: upt_conv_Cons)
  show ?case
  proof (cases "j < q")
    case True
    then obtain x held where x: "NewSocket index (Some (ua_socket_options sz)) (sys j) = Ok (Inr (ua_socket index sz x, held))"
      using NewSocket_ua [of "sys j" sz index] assms by blast
    from Suc.IH [of "Suc j" "acc @ [ua_socket index sz x]"] obtain socks where
      "xdp_loop sys index sz [Suc j..<Suc j + n] (acc @ [ua_socket index sz x]) = Ok ((acc @ [ua_socket index sz x]) @ socks)"
      "length socks = (if Suc j < q then min n (q - Suc j) else 0)" "\<forall>x \<in> set socks. \<exists>n. x = ua_socket index sz n"
      by blast
    then show ?thesis
      unfolding upt using x True by (intro exI [of _ "ua_socket index sz x # socks"]) auto
  next
    case False
    then obtain held where "NewSocket index (Some (ua_socket_options sz)) (sys j) = Ok (Inl (ErrBindFailed, held))"
      using NewSocket_ua [of "sys j" sz index] assms by blast
    then show ?thesis unfolding upt using False by simp
  qed
qed

subsection \<open>Properties\<close>

text \<open>
  \<open>newBaseUa\<close> opens one socket for each queue of the interface that can be bound, at most 16,
  and the user agent starts with a well-formed, unused pool of ports and no dialogs. On an interface
  without such a queue it succeeds as well, but then the first \<open>Next\<close> of its distributor divides by
  zero.
\<close>

lemma newBaseUa_queues:
  assumes "NewTimeRange (cfg_RingingTimeout c) = Ok ringing" and "NewTimeRange (cfg_AnswerTimeout c) = Ok answer"
    and "load_media env 0 (cfg_EarlyMedia c) = Ok early" and "load_media env 1 (cfg_AnswerMedia c) = Ok media"
    and "getIfindexByName (env_ifaces env) (cfg_Interface c) = Ok index"
    and "BindInterfaces (env_attach env) [index] m = (None, m')"
    and "\<forall>i. sys_sane (env_sys env i) \<and> queue_opens (env_sys env i) \<and> (s_bind (env_sys env i) \<longleftrightarrow> i < q)"
    and "XDPSize c = 2 ^ k" and "1 \<le> k" and "k \<le> 32" and "range_ok (cfg_RtpPortMin c) (cfg_RtpPortMax c)"
  shows "\<exists>u :: 'd baseUa. newBaseUa env c m = (Ok u, m') \<and> length (sockets u) = min q 16
    \<and> (\<forall>xsk \<in> set (sockets u). sock_wf xsk \<and> options xsk = ua_socket_options (2 ^ k))
    \<and> pool_wf u \<and> ports u = {} \<and> dialogs u = Map.empty
    \<and> (if q = 0 then rr_Next (xdpSocketsLB u) = Panic Divide_By_Zero
       else \<exists>i lb. rr_Next (xdpSocketsLB u) = Ok (i, lb) \<and> i < length (sockets u))"
proof -
  have sz: "2 \<le> XDPSize c"
    using power_increasing [of 1 k "2 :: int"] assms(8,9) by simp
  obtain socks where socks: "xdp_loop (env_sys env) index (XDPSize c) [0..<16] [] = Ok socks"
      "length socks = min q 16" "\<forall>x \<in> set socks. \<exists>n. x = ua_socket index (XDPSize c) n"
    using xdp_loop_queues [OF assms(7) sz, of index 0 16 "[]"] by (auto simp: min.commute)
  define u :: "'d baseUa" where "u = (blank_ua c)\<lparr>ringingTimeRange := ringing, answerTimeRange := answer,
     EarlyMedia := early, AnswerMedia := media, sockets := socks, xdpSocketsLB := NewRoundRobin [0..<length socks]\<rparr>"
  have new: "newBaseUa env c m = (Ok u, m')"
    using assms(1-6) socks(1) by (simp add: newBaseUa_def initXDP_def u_def blank_ua_def)
  have "wrap64 (cfg_RtpPortMax c - cfg_RtpPortMin c) = cfg_RtpPortMax c - cfg_RtpPortMin c"
    using assms(11) by (intro wrap64_id) (auto simp: range_ok_def in_int64_def)
  then have pool: "pool_wf u"
    using new_pool_wf [OF assms(11)] by (simp add: u_def blank_ua_def pool_wf_def new_pool_def)
  have socks_wf: "\<forall>xsk \<in> set (sockets u). sock_wf xsk \<and> options xsk = ua_socket_options (2 ^ k)"
    using socks(3) ua_socket_wf [OF assms(9,10)] assms(8) by (auto simp: u_def)
  have lb: "xdpSocketsLB u = NewRoundRobin [0..<min q 16]" by (simp add: u_def socks(2))
  have "if q = 0 then rr_Next (xdpSocketsLB u) = Panic Divide_By_Zero
       else \<exists>i lb. rr_Next (xdpSocketsLB u) = Ok (i, lb) \<and> i < length (sockets u)"
  proof (cases "q = 0")
    case True
    then show ?thesis by (simp add: lb NewRoundRobin_def rr_Next_def Let_def)
  next
    case False
    then have "rr_wf (xdpSocketsLB u)" by (simp add: lb NewRoundRobin_def rr_wf_def)
    from rr_Next_eq [OF this] False show ?thesis
      by (auto simp: lb NewRoundRobin_def u_def socks(2) min_def)
  qed
  moreover have "length (sockets u) = min q 16" "ports u = {}" "dialogs u = Map.empty"
    by (simp_all add: u_def blank_ua_def socks(2))
  ultimately show ?thesis using new pool socks_wf by blast
qed

definition sample_config :: BaseUaConfig where
  "sample_config =
     \<lparr>cfg_Interface = ''eth0'', cfg_RtpPortMin = 20000, cfg_RtpPortMax = 60000, cfg_RingingTimeout = ''5'',
      cfg_AnswerTimeout = ''20'', cfg_EarlyMedia = [], cfg_AnswerMedia = [], XDPSize = 2 ^ 12\<rparr>"

definition sample_env :: "nat \<Rightarrow> nat ua_env" where
  "sample_env q =
     \<lparr>env_file = (\<lambda>_. None), env_capture = (\<lambda>_. None), env_rand = (\<lambda>_. (\<lambda>i j. 0, 0)),
      env_ifaces = Some [(''lo'', 1), (''eth0'', 2)], env_attach = (\<lambda>i generic. Inr 7),
      env_sys = (\<lambda>i. all_well\<lparr>s_bind := i < q\<rparr>)\<rparr>"

lemma sample_ranges:
  "NewTimeRange ''5'' = Ok (Weighted (timeSingle 5000000000 0))"
  "NewTimeRange ''20'' = Ok (Weighted (timeSingle 20000000000 0))"
  by (simp_all add: parse_eval)

lemma newBaseUa_queues_witness:
  "\<exists>u :: nat baseUa. newBaseUa (sample_env 4) sample_config \<lparr>m_links = []\<rparr> = (Ok u, \<lparr>m_links = [7]\<rparr>)
     \<and> length (sockets u) = 4 \<and> pool_wf u"
proof -
  let ?e = "sample_env 4" and ?c = sample_config
  have "NewTimeRange (cfg_RingingTimeout ?c) = Ok (Weighted (timeSingle 5000000000 0))"
      "NewTimeRange (cfg_AnswerTimeout ?c) = Ok (Weighted (timeSingle 20000000000 0))"
      "load_media ?e 0 (cfg_EarlyMedia ?c) = Ok []" "load_media ?e 1 (cfg_AnswerMedia ?c) = Ok []"
      "getIfindexByName (env_ifaces ?e) (cfg_Interface ?c) = Ok 2"
      "BindInterfaces (env_attach ?e) [2] \<lparr>m_links = []\<rparr> = (None, \<lparr>m_links = [7]\<rparr>)"
      "\<forall>i. sys_sane (env_sys ?e i) \<and> queue_opens (env_sys ?e i) \<and> (s_bind (env_sys ?e i) \<longleftrightarrow> i < 4)"
      "XDPSize ?c = 2 ^ 12" "range_ok (cfg_RtpPortMin ?c) (cfg_RtpPortMax ?c)"
    using sample_ranges
    by (simp_all add: sample_config_def sample_env_def load_media_def getIfindexByName_def sys_sane_def
        queue_opens_def all_well_def range_ok_def)
  from newBaseUa_queues [OF this(1-8) _ _ this(9)] show ?thesis by auto
qed

text \<open>
  C40. The flag \<open>xdp-size\<close> says that the size must be a power of two, which is not enough: the frames
  of the receive side take eight, so that 16 is the least size whose transmit frames lie inside the
  umem. With 2, 4 and 8 every \<open>SendMsg\<close> panics.
\<close>

theorem xdp_size_limits:
  assumes "1 \<le> k" and "k \<le> 32" and "sock_wf xsk" and "options xsk = ua_socket_options (2 ^ k)"
  shows "if k < 4 then SendMsg_prepare data xsk = Panic Slice_Bounds
    else \<exists>d xsk'. SendMsg_prepare data xsk = Ok (Some d, xsk') \<and> sock_wf xsk' \<and> options xsk' = options xsk"
proof (cases "k < 4")
  case True
  then show ?thesis using SendMsg_outside_umem [OF assms(3,4,1)] by simp
next
  case False
  then have "tx_fits (options xsk)" using ua_options_ok(2) [OF assms(1,2)] assms(4) by simp
  from SendMsg_prepare_ok [OF assms(3) this, of data] False show ?thesis by auto
qed

theorem xdp_size_limits_witness:
  "SendMsg_prepare [1, 2] (ua_socket 2 8 5) = Panic Slice_Bounds"
  using xdp_size_limits [of 3 "ua_socket 2 8 5" "[1, 2]"] ua_socket_wf [of 3 2 5] by simp

end
