(* ===== verification/Media.thy ===== *)
theory Media
  imports Sdp Ua Routing Arp
begin

section \<open>Sending media (\<open>media\<close> of \<open>media.go\<close>)\<close>

text \<open>
  A \<open>media\<close> plays packets to one destination. Its operations run one after the other in the goroutine
  of its dialog; each \<open>playback\<close> starts a goroutine of its own, which holds the mutex while it plays
  and ends when its \<open>done\<close> channel is closed or the context of the dialog is done.
\<close>

subsection \<open>\<open>newMedia\<close>\<close>

text \<open>
  \<open>m_done\<close> is the current channel, the number of a \<open>playback\<close>; \<open>m_chans\<close> says of each channel made
  so far whether it is closed, and \<open>m_jobs\<close> keeps the packets of its goroutine.
\<close>

record media =
  m_socket :: nat
  m_dest :: "ip \<times> int"
  m_buf :: bytes
  m_playing :: bool
  m_txPkts :: u64
  m_txLossPkts :: u64
  m_txBytes :: u64
  m_done :: "nat option"
  m_chans :: "bool list"
  m_jobs :: "Packet list list"

definition fresh_media :: "nat \<Rightarrow> mediaInfo \<Rightarrow> bytes \<Rightarrow> media" where
  "fresh_media i remote buf =
     \<lparr>m_socket = i, m_dest = (ip4_of (addr remote), mport remote), m_buf = buf, m_playing = False,
      m_txPkts = 0, m_txLossPkts = 0, m_txBytes = 0, m_done = None, m_chans = [], m_jobs = []\<rparr>"

text \<open>
  The distributor's counter moves even when the headers cannot be made; the result is paired with
  the user agent afterwards.
\<close>

definition newMedia ::
  "router option \<Rightarrow> arp_table \<Rightarrow> mediaInfo \<Rightarrow> mediaInfo \<Rightarrow> 'd baseUa \<Rightarrow> (media_error, media) res \<times> 'd baseUa" where
  "newMedia rtr arp remote local u =
     (case routing_Route rtr (ParseIP (addr remote)) of
        Panic p \<Rightarrow> (Panic p, u)
      | Err e \<Rightarrow> (Err Err_Query_Route, u)
      | Ok (iface, gateway, src) \<Rightarrow>
          (let nextHop = (case gateway of None \<Rightarrow> addr remote | Some g \<Rightarrow> ip_String g)
           in case arp_Get arp nextHop of
                None \<Rightarrow> (Err (Err_MAC_Not_Found nextHop), u)
              | Some dstMac \<Rightarrow>
                  (case rr_Next (xdpSocketsLB u) of
                     Panic p \<Rightarrow> (Panic p, u)
                   | Err e \<Rightarrow> (Panic Explicit_Panic, u)
                   | Ok (i, lb) \<Rightarrow>
                       (let u = u\<lparr>xdpSocketsLB := lb\<rparr>
                        in case iface of
                             None \<Rightarrow> (Panic Nil_Dereference, u)
                           | Some f \<Rightarrow>
                               (map_ok (fresh_media i remote)
                                  (pktSerialize (replicate 1600 0) dstMac (HardwareAddr f) remote local), u)))))"

subsection \<open>Starting and stopping\<close>

text \<open>\<open>close(m.done)\<close>: a panic on a nil or a closed channel.\<close>

definition close_done :: "media \<Rightarrow> (unit, media) res" where
  "close_done m =
     (case m_done m of
        None \<Rightarrow> Panic Close_Closed_Channel
      | Some c \<Rightarrow>
          (if m_chans m ! c then Panic Close_Closed_Channel else Ok (m\<lparr>m_chans := (m_chans m)[c := True]\<rparr>)))"

text \<open>Both are methods on a pointer that may be nil.\<close>

definition playback :: "Packet list \<Rightarrow> media option \<Rightarrow> (unit, media option) res" where
  "playback pkts om =
     (case om of
        None \<Rightarrow> Ok None
      | Some m \<Rightarrow>
          (if pkts = [] then Ok (Some m)
           else bind_res (if m_playing m then close_done m else Ok m) (\<lambda>m.
             Ok (Some (m\<lparr>m_playing := True, m_done := Some (length (m_chans m)),
                         m_chans := m_chans m @ [False], m_jobs := m_jobs m @ [pkts]\<rparr>)))))"

definition stop :: "media option \<Rightarrow> (unit, media option) res" where
  "stop om =
     (case om of
        None \<Rightarrow> Ok None
      | Some m \<Rightarrow>
          (if \<not> m_playing m then Ok (Some m)
           else
             (let m = m\<lparr>m_playing := False\<rparr>
              in if m_done m \<noteq> None then map_ok Some (close_done m) else Ok (Some m))))"

definition media_Close :: "media option \<Rightarrow> (unit, media option) res" where
  "media_Close om = stop om"

subsection \<open>The goroutine of a \<open>playback\<close>\<close>

text \<open>
  \<open>send\<close> is the socket's \<open>SendMsg\<close>: its outcome says whether it returned an error, or that it waits
  for room. One turn of the loop writes the payload behind the headers, completes them, and sends
  the slice of the buffer that holds the frame.
\<close>

definition play_packet ::
  "(bytes \<Rightarrow> u16) \<Rightarrow> (bytes \<Rightarrow> 'x \<Rightarrow> (blocked, bool \<times> 'x) res) \<Rightarrow> Packet \<Rightarrow> media \<Rightarrow> 'x \<Rightarrow>
   (blocked, bytes \<times> media \<times> 'x) res" where
  "play_packet csum send pkt m x =
     (let data = GetPayload pkt
      in bind_res (no_err Blocked (pktChecksum csum (copy_at 42 data (m_buf m)) (length data))) (\<lambda>buf.
           if length buf < 42 + length data then Panic Slice_Bounds
           else
             (let fr = take (42 + length data) buf
              in map_ok (\<lambda>(sent, x).
                   (fr,
                    if sent then m\<lparr>m_buf := buf, m_txPkts := m_txPkts m + 1,
                                   m_txBytes := m_txBytes m + word_of_nat (length data + 8)\<rparr>
                    else m\<lparr>m_buf := buf, m_txLossPkts := m_txLossPkts m + 1\<rparr>,
                    x)) (send fr x))))"

text \<open>
  The loop over the packets. Before packet \<open>k\<close> the goroutine sleeps, the others move on, which
  \<open>world k\<close> does to the socket, and \<open>stopped k\<close> says whether the channel or the context is done then.
  The frames given to \<open>send\<close> are collected.
\<close>

fun play_loop ::
  "(bytes \<Rightarrow> u16) \<Rightarrow> (bytes \<Rightarrow> 'x \<Rightarrow> (blocked, bool \<times> 'x) res) \<Rightarrow> (nat \<Rightarrow> bool) \<Rightarrow> (nat \<Rightarrow> 'x \<Rightarrow> 'x) \<Rightarrow> nat \<Rightarrow>
   Packet list \<Rightarrow> media \<Rightarrow> 'x \<Rightarrow> (blocked, bytes list \<times> media \<times> 'x) res" where
  "play_loop csum send stopped world k [] m x = Ok ([], m, x)"
| "play_loop csum send stopped world k (pkt # pkts) m x =
     (if stopped k then Ok ([], m, x)
      else bind_res (play_packet csum send pkt m (world k x)) (\<lambda>(fr, m, x).
        map_ok (\<lambda>(frs, m, x). (fr # frs, m, x)) (play_loop csum send stopped world (k + 1) pkts m x)))"

text \<open>How long the goroutine sleeps before each packet, in microseconds.\<close>

fun play_delays :: "int \<Rightarrow> Packet list \<Rightarrow> int list" where
  "play_delays t [] = []"
| "play_delays t (pkt # pkts) = (GetTs pkt - t) # play_delays (GetTs pkt) pkts"

text \<open>\<open>SendMsg\<close> of the AF_XDP socket in this form.\<close>

definition xdp_send :: "bytes \<Rightarrow> Socket \<Rightarrow> (blocked, bool \<times> Socket) res" where
  "xdp_send data xsk =
     bind_res (no_err Blocked (SendMsg_prepare data xsk)) (\<lambda>(desc, xsk).
       case desc of
         None \<Rightarrow> Ok (False, xsk)
       | Some d \<Rightarrow> map_ok (\<lambda>xsk. (True, xsk)) (SendMsg_send d xsk))"

subsection \<open>What a sender promises\<close>

text \<open>
  A sender that is ready takes every frame of the buffer's size, and \<open>sent\<close> sees it go out.
\<close>

locale packet_sender =
  fixes send :: "bytes \<Rightarrow> 'x \<Rightarrow> (blocked, bool \<times> 'x) res"
    and ready :: "'x \<Rightarrow> bool"
    and sent :: "'x \<Rightarrow> bytes list"
  assumes send_ready: "ready x \<Longrightarrow> length data \<le> 1600 \<Longrightarrow> \<exists>x'. send data x = Ok (True, x') \<and> sent x' = sent x @ [data]"
begin

lemma play_packet_sends:
  assumes "endpoints_ok e" "m_buf m = headers e l c n @ rest" "length rest = 1558"
    "length (GetPayload pkt) \<le> 1558" "ready x"
  shows "\<exists>m' x' l' c' n' rest'. play_packet csum send pkt m x = Ok (frame csum e (GetPayload pkt), m', x')
    \<and> sent x' = sent x @ [frame csum e (GetPayload pkt)] \<and> m_buf m' = headers e l' c' n' @ rest' \<and> length rest' = 1558
    \<and> m_txPkts m' = m_txPkts m + 1 \<and> m_txLossPkts m' = m_txLossPkts m
    \<and> m_txBytes m' = m_txBytes m + word_of_nat (length (GetPayload pkt) + 8)"
proof -
  let ?data = "GetPayload pkt"
  let ?rest = "?data @ drop (length ?data) rest"
  have copied: "copy_at 42 ?data (m_buf m) = headers e l c n @ ?rest"
    using assms(2-4) length_headers [OF assms(1)] by (simp add: copy_at_def)
  define h where "h = headers e (word_of_nat (length ?data + 28))
      (csum (ip_header (src_ip e) (dst_ip e) (word_of_nat (length ?data + 28)) 0)) (word_of_nat (length ?data + 8))"
  have h: "length h = 42" unfolding h_def by (rule length_headers [OF assms(1)])
  have sum: "pktChecksum csum (headers e l c n @ ?rest) (length ?data) = Ok (h @ ?rest)"
    unfolding h_def by (rule pktChecksum_headers [OF assms(1)])
  have fr: "take (42 + length ?data) (h @ ?rest) = frame csum e ?data"
    unfolding frame_def h_def [symmetric] using h by simp
  have "length (frame csum e ?data) \<le> 1600"
    unfolding frame_def h_def [symmetric] using h assms(4) by simp
  from send_ready [OF assms(5) this]
  obtain x' where x': "send (frame csum e ?data) x = Ok (True, x')" "sent x' = sent x @ [frame csum e ?data]" by blast
  have len: "\<not> length (h @ ?rest) < 42 + length ?data" "length ?rest = 1558" using h assms(3,4) by simp_all
  have "play_packet csum send pkt m x = Ok (frame csum e ?data,
      m\<lparr>m_buf := h @ ?rest, m_txPkts := m_txPkts m + 1, m_txBytes := m_txBytes m + word_of_nat (length ?data + 8)\<rparr>, x')"
    unfolding play_packet_def Let_def copied sum
    using len(1) by (simp only: no_err.simps bind_res.simps if_False fr x'(1) map_ok.simps prod.case if_True)
  then show ?thesis using len(2) x'(2) unfolding h_def
    by (intro exI conjI) (assumption | simp)+
qed

text \<open>Undisturbed, every packet becomes the frame of its payload, and the counters tell.\<close>

lemma play_loop_sends:
  assumes "endpoints_ok e" "\<forall>k x. ready (world k x) \<and> sent (world k x) = sent x" "\<forall>k. \<not> stopped k"
  shows "m_buf m = headers e l c n @ rest \<Longrightarrow> length rest = 1558 \<Longrightarrow>
    \<forall>pkt \<in> set pkts. length (GetPayload pkt) \<le> 1558 \<Longrightarrow>
    \<exists>m' x'. play_loop csum send stopped world k pkts m x = Ok (map (\<lambda>pkt. frame csum e (GetPayload pkt)) pkts, m', x')
    \<and> sent x' = sent x @ map (\<lambda>pkt. frame csum e (GetPayload pkt)) pkts
    \<and> m_txPkts m' = m_txPkts m + word_of_nat (length pkts) \<and> m_txLossPkts m' = m_txLossPkts m
    \<and> m_txBytes m' = m_txBytes m + word_of_nat (sum_list (map (\<lambda>pkt. length (GetPayload pkt) + 8) pkts))"
proof (induction pkts arbitrary: k m x l c n rest)
  case Nil
  then show ?case by simp
next
  case (Cons pkt pkts)
  have len: "length (GetPayload pkt) \<le> 1558" and rdy: "ready (world k x)" "sent (world k x) = sent x"
    using Cons.prems(3) assms(2) by simp_all
  from play_packet_sends [OF assms(1) Cons.prems(1,2) len rdy(1), of csum]
  obtain m1 x1 l1 c1 n1 rest1 where p: "play_packet csum send pkt m (world k x) = Ok (frame csum e (GetPayload pkt), m1, x1)"
      "sent x1 = sent x @ [frame csum e (GetPayload pkt)]" "m_buf m1 = headers e l1 c1 n1 @ rest1" "length rest1 = 1558" "m_txPkts m1 = m_txPkts m + 1"
      "m_txLossPkts m1 = m_txLossPkts m" "m_txBytes m1 = m_txBytes m + word_of_nat (length (GetPayload pkt) + 8)"
    using rdy(2) by auto
  from Cons.IH [OF p(3,4), of "k + 1" x1] Cons.prems(3)
  obtain m2 x2 where "play_loop csum send stopped world (k + 1) pkts m1 x1 = Ok (map (\<lambda>pkt. frame csum e (GetPayload pkt)) pkts, m2, x2)"
      "sent x2 = sent x1 @ map (\<lambda>pkt. frame csum e (GetPayload pkt)) pkts" "m_txPkts m2 = m_txPkts m1 + word_of_nat (length pkts)" "m_txLossPkts m2 = m_txLossPkts m1"
      "m_txBytes m2 = m_txBytes m1 + word_of_nat (sum_list (map (\<lambda>pkt. length (GetPayload pkt) + 8) pkts))"
    by auto
  then show ?case using p assms(3) [rule_format, of k] by (simp add: algebra_simps)
qed

end

text \<open>A socket is ready when its channel is open and has room.\<close>

definition xdp_ready :: "Socket \<Rightarrow> bool" where
  "xdp_ready xsk \<longleftrightarrow> sock_wf xsk \<and> tx_fits (options xsk)
     \<and> (\<exists>c. txChan xsk = Some c \<and> \<not> ch_closed c \<and> length (ch_buf c) < ch_cap c)"

text \<open>
  The AF_XDP socket with a list of what goes out, which is no part of the code: the bytes of the umem
  that the descriptor names when it is put into the channel.
\<close>

definition wire_send :: "bytes \<Rightarrow> Socket \<times> bytes list \<Rightarrow> (blocked, bool \<times> Socket \<times> bytes list) res" where
  "wire_send data x =
     map_ok (\<lambda>(ok, xsk).
       (ok, xsk, if ok then snd x @ [desc_bytes xsk (last (ch_buf (the (txChan xsk))))] else snd x))
       (xdp_send data (fst x))"

lemma xdp_send_ready:
  assumes "xdp_ready xsk" "length data \<le> FrameSize (options xsk)"
  shows "\<exists>xsk'. xdp_send data xsk = Ok (True, xsk') \<and> desc_bytes xsk' (last (ch_buf (the (txChan xsk')))) = data"
proof -
  from SendMsg_prepare_desc [of xsk data] assms
  obtain d xsk1 where d: "SendMsg_prepare data xsk = Ok (Some d, xsk1)" "txChan xsk1 = txChan xsk" "desc_bytes xsk1 d = data"
    unfolding xdp_ready_def by blast
  obtain c where c: "txChan xsk = Some c" "\<not> ch_closed c" "length (ch_buf c) < ch_cap c"
    using assms(1) by (auto simp: xdp_ready_def)
  let ?xsk = "xsk1\<lparr>txChan := Some (c\<lparr>ch_buf := ch_buf c @ [d]\<rparr>)\<rparr>"
  have "xdp_send data xsk = Ok (True, ?xsk)"
    using c by (simp add: xdp_send_def d(1,2) SendMsg_send_def chan_send_def)
  moreover have "desc_bytes ?xsk d = data" using d(3) by (simp add: desc_bytes_def)
  ultimately show ?thesis by simp
qed

definition wire_ready :: "Socket \<times> bytes list \<Rightarrow> bool" where
  "wire_ready x \<longleftrightarrow> xdp_ready (fst x) \<and> 1600 \<le> FrameSize (options (fst x))"

interpretation xdp: packet_sender wire_send wire_ready snd
proof unfold_locales
  fix x :: "Socket \<times> bytes list" and data :: bytes
  assume "wire_ready x" "length data \<le> 1600"
  then have "xdp_ready (fst x)" "length data \<le> FrameSize (options (fst x))" by (simp_all add: wire_ready_def)
  from xdp_send_ready [OF this]
  show "\<exists>x'. wire_send data x = Ok (True, x') \<and> snd x' = snd x @ [data]" by (auto simp: wire_send_def)
qed

subsection \<open>From the flag to the receiver's counters\<close>

lemma endpoints_made:
  "length remoteMac = 6 \<Longrightarrow> length localMac = 6 \<Longrightarrow> endpoints_ok (make_endpoints remoteMac localMac remote local)"
  by (simp add: endpoints_ok_def make_endpoints_def)

text \<open>What a successful \<open>newMedia\<close> returns, and when it succeeds.\<close>

lemma newMedia_Ok:
  assumes "newMedia rtr arp remote local u = (Ok m, u')"
  shows "\<exists>e i. m = fresh_media i remote (headers e 0 0 0 @ replicate 1558 0) \<and> endpoints_ok e
    \<and> src_port e = word_of_int (mport local) \<and> dst_port e = word_of_int (mport remote)
    \<and> src_ip e = ip4_field (addr local) \<and> dst_ip e = ip4_field (addr remote)
    \<and> i \<in> set (resources (xdpSocketsLB u))"
proof -
  obtain r where r: "routing_Route rtr (ParseIP (addr remote)) = Ok r"
    using assms by (cases "routing_Route rtr (ParseIP (addr remote))") (simp_all add: newMedia_def)
  obtain iface gateway src where r3: "r = (iface, gateway, src)" by (cases r)
  let ?hop = "case gateway of None \<Rightarrow> addr remote | Some g \<Rightarrow> ip_String g"
  obtain dstMac where mac: "arp_Get arp ?hop = Some dstMac"
    using assms by (cases "arp_Get arp ?hop") (simp_all add: newMedia_def r r3 Let_def)
  obtain n where n: "rr_Next (xdpSocketsLB u) = Ok n"
    using assms by (cases "rr_Next (xdpSocketsLB u)") (simp_all add: newMedia_def r r3 mac Let_def)
  obtain i lb where n2: "n = (i, lb)" by (cases n)
  note lb = n [unfolded n2]
  obtain f where f: "iface = Some f"
    using assms by (cases iface) (simp_all add: newMedia_def r r3 mac lb Let_def)
  have ser: "map_ok (fresh_media i remote) (pktSerialize (replicate 1600 0) dstMac (HardwareAddr f) remote local) = Ok m"
    using assms by (simp add: newMedia_def r r3 mac lb f Let_def)
  from ser obtain buf where buf: "pktSerialize (replicate 1600 0) dstMac (HardwareAddr f) remote local = Ok buf"
      "m = fresh_media i remote buf"
    by (auto simp: map_ok_Ok_iff)
  then have macs: "length dstMac = 6" "length (HardwareAddr f) = 6"
    by (auto simp: pktSerialize_def split: if_splits)
  have zeros: "replicate 1600 (0 :: u8) = replicate 42 0 @ replicate 1558 0"
    by (simp only: replicate_add [symmetric]) simp
  let ?e = "make_endpoints dstMac (HardwareAddr f) remote local"
  have "buf = headers ?e 0 0 0 @ replicate 1558 0"
    using buf(1) unfolding zeros pktSerialize_headers [OF macs] by simp
  moreover have "i \<in> set (resources (xdpSocketsLB u))"
    using lb by (auto simp: rr_Next_def Let_def map_ok_Ok_iff index_slice_def split: if_splits)
  ultimately show ?thesis
    using buf(2) endpoints_made [OF macs, of remote local]
    by (intro exI [of _ ?e] exI [of _ i]) (simp add: make_endpoints_def)
qed

lemma newMedia_succeeds:
  assumes "routing_Route rtr (ParseIP (addr remote)) = Ok (Some f, gateway, src)" "length (HardwareAddr f) = 6"
    and "arp_Get arp (case gateway of None \<Rightarrow> addr remote | Some g \<Rightarrow> ip_String g) = Some mac" "length mac = 6"
    and "rr_wf (xdpSocketsLB u)"
  shows "\<exists>m u'. newMedia rtr arp remote local u = (Ok m, u')"
proof -
  have zeros: "replicate 1600 (0 :: u8) = replicate 42 0 @ replicate 1558 0"
    by (simp only: replicate_add [symmetric]) simp
  from rr_Next_eq [OF assms(5)] obtain i lb where "rr_Next (xdpSocketsLB u) = Ok (i, lb)" by blast
  then show ?thesis
    using assms(1-4) by (simp add: newMedia_def zeros pktSerialize_headers)
qed

lemma frame_counted:
  assumes "endpoints_ok e" "length data \<le> 1558"
  shows "counted (dst_port e) (frame csum e data)" "udp_len (frame csum e data) = length data + 8"
    "drop 42 (frame csum e data) = data"
proof -
  let ?c = "csum (ip_header (src_ip e) (dst_ip e) (word_of_nat (length data + 28)) 0)"
  let ?h = "headers e (word_of_nat (length data + 28)) ?c (word_of_nat (length data + 8))"
  have len: "length ?h = 42" by (rule length_headers [OF assms(1)])
  have nth: "frame csum e data ! i = ?h ! i" if "i < 42" for i
    unfolding frame_def using len that by (simp add: nth_append)
  note h = headers_nth [OF assms(1)]
  have be: "get_be16 k (frame csum e data) = get_be16 k ?h" if "k + 1 < 42" for k
    using nth [of k] nth [of "k + 1"] that by (simp add: get_be16_def)
  have "get_be16 12 (frame csum e data) = 0x0800"
    using be [of 12] h(1,2) by (simp add: get_be16_def be16_def)
  moreover have "length (frame csum e data) \<ge> 42" unfolding frame_def using len by simp
  ultimately show "counted (dst_port e) (frame csum e data)"
    using nth [of 14] nth [of 22] nth [of 23] h be [of 36] by (simp add: counted_def)
  have "get_be16 38 (frame csum e data) = word_of_nat (length data + 8)" using be [of 38] h(7) by simp
  then show "udp_len (frame csum e data) = length data + 8"
    using assms(2) by (simp add: udp_len_def unsigned_of_nat take_bit_nat_eq_self del: of_nat_add)
  show "drop 42 (frame csum e data) = data" unfolding frame_def using len by simp
qed

lemma frame_checksum:
  assumes "endpoints_ok e" "csum = internet_checksum"
  shows "checksum_valid (take 20 (drop 14 (frame csum e data)))"
proof -
  have "take 20 (drop 14 (frame csum e data)) =
      ip_header (src_ip e) (dst_ip e) (word_of_nat (length data + 28))
        (csum (ip_header (src_ip e) (dst_ip e) (word_of_nat (length data + 28)) 0))"
    using assms(1) by (simp add: frame_def headers_def endpoints_ok_def ip_header_def)
  then show ?thesis
    using ip_header_valid assms by (simp add: endpoints_ok_def)
qed

text \<open>
  C15. The statistics of both ends agree. A media that \<open>newMedia\<close> has made plays packets of payloads of
  at most 1558 bytes, which is what its buffer holds, is not stopped, and finds before every packet a
  socket whose channel has room and whose frames take 1600 bytes. (Without room \<open>SendMsg\<close> waits.) Then
  every packet becomes one frame with its payload behind the headers and an IPv4 checksum that a
  receiver accepts, these frames are what the descriptors name in the umem when they are put into the
  channel, and when the XDP program of a receiver, which has registered the destination port, runs over
  them, its counter for the port has exactly the packets and bytes that the sender has counted, headers
  of UDP included. (The checksum library is taken to compute the Internet checksum.)
\<close>

theorem media_stats_match:
  assumes "\<forall>bs. csum bs = internet_checksum bs"
    and "newMedia rtr arp remote local u = (Ok m, u')"
    and "\<forall>k xsk. xdp_ready (world k xsk) \<and> 1600 \<le> FrameSize (options (world k xsk))" and "\<forall>k. \<not> stopped k"
    and "\<forall>pkt \<in> set pkts. length (GetPayload pkt) \<le> 1558"
    and "rules_map ops" and "ebpf_Update ops ps s = (None, s')" and "word_of_int (mport remote) \<in> set ps"
  shows "\<exists>frames m' xsk'. play_loop csum wire_send stopped (\<lambda>k. apfst (world k)) 0 pkts m (xsk, []) = Ok (frames, m', xsk', frames)
    \<and> map (drop 42) frames = map GetPayload pkts
    \<and> (\<forall>fr \<in> set frames. checksum_valid (take 20 (drop 14 fr)))
    \<and> m_txPkts m' = word_of_nat (length pkts) \<and> m_txLossPkts m' = 0
    \<and> m_txBytes m' = word_of_nat (sum_list (map (\<lambda>pkt. length (GetPayload pkt) + 8) pkts))
    \<and> op_elem ops (xdp_run ops frames s') (port_key (word_of_int (mport remote))) =
        Some \<lparr>info_bytes = m_txBytes m', info_pkts = m_txPkts m'\<rparr>"
proof -
  obtain e i where e: "m = fresh_media i remote (headers e 0 0 0 @ replicate 1558 0)" "endpoints_ok e"
      "dst_port e = word_of_int (mport remote)"
    using newMedia_Ok [OF assms(2)] by blast
  have csum: "csum = internet_checksum" using assms(1) by blast
  have buf: "m_buf m = headers e 0 0 0 @ replicate 1558 0" by (simp add: e(1) fresh_media_def)
  have ready: "\<forall>k x. wire_ready (apfst (world k) x) \<and> snd (apfst (world k) x) = snd x"
    using assms(3) by (simp add: wire_ready_def)
  let ?fr = "\<lambda>pkt. frame csum e (GetPayload pkt)"
  obtain m' x' where run: "play_loop csum wire_send stopped (\<lambda>k. apfst (world k)) 0 pkts m (xsk, []) = Ok (map ?fr pkts, m', x')"
      "snd x' = map ?fr pkts" "m_txPkts m' = word_of_nat (length pkts)" "m_txLossPkts m' = 0"
      "m_txBytes m' = word_of_nat (sum_list (map (\<lambda>pkt. length (GetPayload pkt) + 8) pkts))"
    using xdp.play_loop_sends [OF e(2) ready assms(4) buf length_replicate assms(5), of csum 0 "(xsk, [])"]
    by (auto simp: e(1) fresh_media_def)
  obtain xsk' where x': "x' = (xsk', map ?fr pkts)" using run(2) by (cases x') simp
  have ok: "counted (dst_port e) (?fr pkt)" "udp_len (?fr pkt) = length (GetPayload pkt) + 8" "drop 42 (?fr pkt) = GetPayload pkt"
    if "pkt \<in> set pkts" for pkt
    using frame_counted [OF e(2)] assms(5) that by blast+
  have "filter (counted (dst_port e)) (map ?fr pkts) = map ?fr pkts"
    using ok(1) by (auto simp: filter_id_conv)
  moreover have "map udp_len (map ?fr pkts) = map (\<lambda>pkt. length (GetPayload pkt) + 8) pkts"
    using ok(2) by simp
  ultimately have "totals (dst_port e) (map ?fr pkts) = \<lparr>info_bytes = m_txBytes m', info_pkts = m_txPkts m'\<rparr>"
    by (simp only: totals_def Let_def run(3,5) length_map)
  then have "op_elem ops (xdp_run ops (map ?fr pkts) s') (port_key (dst_port e)) =
      Some \<lparr>info_bytes = m_txBytes m', info_pkts = m_txPkts m'\<rparr>"
    using rules_map.xdp_run_elem [OF assms(6), of "map ?fr pkts" s' "dst_port e"]
      rules_map.Update_elem [OF assms(6,7), of "dst_port e"] assms(8) e(3) by simp
  moreover have "map (drop 42) (map ?fr pkts) = map GetPayload pkts" using ok(3) by simp
  moreover have "\<forall>fr \<in> set (map ?fr pkts). checksum_valid (take 20 (drop 14 fr))"
    using frame_checksum [OF e(2) csum] by auto
  ultimately show ?thesis using run(1,3-5) e(3) unfolding x' by metis
qed

definition sample_router :: router where
  "sample_router =
     \<lparr>ifaces = [2 \<mapsto> \<lparr>if_Index = 2, HardwareAddr = [2, 0, 0, 0, 0, 1]\<rparr>], if_order = [2], addrs = Map.empty,
      v4 = [\<lparr>rt_Src = None, rt_Dst = None, Gateway = None, PrefSrc = None, InputIface = 0, OutputIface = 2, Priority = 0\<rparr>]\<rparr>"

definition sample_remote :: mediaInfo where
  "sample_remote = \<lparr>addr = show_ipv4 [10, 0, 0, 2], mport = 5000\<rparr>"

definition sample_local :: mediaInfo where
  "sample_local = \<lparr>addr = show_ipv4 [10, 0, 0, 1], mport = 20000\<rparr>"

definition sample_arp :: arp_table where
  "sample_arp = [show_ipv4 [10, 0, 0, 2] \<mapsto> [2, 0, 0, 0, 0, 2]]"

definition sample_ua :: "unit baseUa" where
  "sample_ua = (blank_ua sample_config)\<lparr>sockets := [sample_socket], xdpSocketsLB := NewRoundRobin [0]\<rparr>"

lemma sample_media: "\<exists>m u'. newMedia (Some sample_router) sample_arp sample_remote sample_local sample_ua = (Ok m, u')"
proof (rule newMedia_succeeds)
  have "ParseIP (addr sample_remote) = v4_in_v6 @ [10, 0, 0, 2]"
    unfolding sample_remote_def mediaInfo.simps by (rule ParseIP_show) simp
  then have "To4 (ParseIP (addr sample_remote)) \<noteq> None" by (simp add: To4_def v4_in_v6_def)
  then show "routing_Route (Some sample_router) (ParseIP (addr sample_remote)) =
      Ok (Some \<lparr>if_Index = 2, HardwareAddr = [2, 0, 0, 0, 0, 1]\<rparr>, None, None)"
    by (simp add: routing_Route_def Route_def RouteWithSrc_def route_def sample_router_def)
  show "rr_wf (xdpSocketsLB sample_ua)" by (simp add: sample_ua_def rr_wf_def NewRoundRobin_def)
  show "arp_Get sample_arp (case None of None \<Rightarrow> addr sample_remote | Some g \<Rightarrow> ip_String g) = Some [2, 0, 0, 0, 0, 2]"
    by (simp add: sample_arp_def sample_remote_def arp_Get_def)
qed simp_all

text \<open>A socket of the agents' options, with frames of 2048 bytes and room, whatever happened before.\<close>

definition roomy :: Socket where
  "roomy = ua_socket 2 16 5"

lemma roomy_ready: "xdp_ready roomy" "FrameSize (options roomy) = 2048"
proof -
  have "sock_wf roomy" "options roomy = ua_socket_options 16"
    using ua_socket_wf [of 4 2 5] by (simp_all add: roomy_def)
  moreover have "tx_fits (ua_socket_options 16)" using ua_options_ok(2) [of 4] by simp
  moreover have "txChan roomy = Some (make_chan 4)"
    by (simp add: roomy_def ua_socket_def mapped_socket_def blank_socket_def ua_socket_options_def Let_def)
  ultimately show "xdp_ready roomy" "FrameSize (options roomy) = 2048"
    by (simp_all add: xdp_ready_def make_chan_def ua_socket_options_def)
qed

theorem media_stats_match_witness:
  "\<exists>m frames m' xsk'. play_loop internet_checksum wire_send (\<lambda>k. False) (\<lambda>k. apfst (\<lambda>x. roomy)) 0
       [\<lparr>ts = 0, payload = [1, 2, 3]\<rparr>, \<lparr>ts = 20000, payload = []\<rparr>] m (roomy, []) = Ok (frames, m', xsk', frames)
     \<and> map (drop 42) frames = [[1, 2, 3], []] \<and> m_txPkts m' = 2 \<and> m_txBytes m' = 19
     \<and> op_elem hash_ops (xdp_run hash_ops frames (snd (ebpf_Update hash_ops [5000] []))) (port_key 5000) =
         Some \<lparr>info_bytes = 19, info_pkts = 2\<rparr>"
proof -
  obtain m u' where m: "newMedia (Some sample_router) sample_arp sample_remote sample_local sample_ua = (Ok m, u')"
    using sample_media by blast
  let ?pkts = "[\<lparr>ts = 0, payload = [1, 2, 3]\<rparr>, \<lparr>ts = 20000, payload = []\<rparr>]"
  have small: "\<forall>pkt \<in> set ?pkts. length (GetPayload pkt) \<le> 1558" by (simp add: GetPayload_def)
  have upd: "ebpf_Update hash_ops [5000] [] = (None, snd (ebpf_Update hash_ops [5000] []))"
    by (simp add: ebpf_Update_def hash_ops_def max_entries_def)
  have port: "(word_of_int (mport sample_remote) :: u16) = 5000" by (simp add: sample_remote_def)
  then have mem: "word_of_int (mport sample_remote) \<in> set [5000 :: u16]" by simp
  from media_stats_match [OF _ m _ _ small hash.rules_map_axioms upd mem,
      of internet_checksum "\<lambda>k x. roomy" "\<lambda>k. False" roomy] roomy_ready
  obtain frames m' xsk' where
      "play_loop internet_checksum wire_send (\<lambda>k. False) (\<lambda>k. apfst (\<lambda>x. roomy)) 0 ?pkts m (roomy, []) = Ok (frames, m', xsk', frames)"
      "map (drop 42) frames = map GetPayload ?pkts" "m_txPkts m' = word_of_nat (length ?pkts)"
      "m_txBytes m' = word_of_nat (sum_list (map (\<lambda>pkt. length (GetPayload pkt) + 8) ?pkts))"
      "op_elem hash_ops (xdp_run hash_ops frames (snd (ebpf_Update hash_ops [5000] []))) (port_key 5000) =
         Some \<lparr>info_bytes = m_txBytes m', info_pkts = m_txPkts m'\<rparr>"
    unfolding port by auto
  moreover have "map GetPayload ?pkts = [[1, 2, 3], []]" "(word_of_nat (length ?pkts) :: u64) = 2"
      "(word_of_nat (sum_list (map (\<lambda>pkt. length (GetPayload pkt) + 8) ?pkts)) :: u64) = 19"
    by (simp_all add: GetPayload_def)
  ultimately show ?thesis by metis
qed

subsection \<open>Any sequence of operations\<close>

datatype media_op = Op_playback "Packet list" | Op_stop | Op_close

fun media_run :: "media_op list \<Rightarrow> media option \<Rightarrow> (unit, media option) res" where
  "media_run [] om = Ok om"
| "media_run (Op_playback pkts # ops) om = bind_res (playback pkts om) (media_run ops)"
| "media_run (Op_stop # ops) om = bind_res (stop om) (media_run ops)"
| "media_run (Op_close # ops) om = bind_res (media_Close om) (media_run ops)"

text \<open>One channel is open while something plays, the current one, and none otherwise.\<close>

definition media_inv :: "media \<Rightarrow> bool" where
  "media_inv m \<longleftrightarrow>
     (if m_playing m
      then m_chans m \<noteq> [] \<and> m_done m = Some (length (m_chans m) - 1)
        \<and> m_chans m = replicate (length (m_chans m) - 1) True @ [False]
      else m_chans m = replicate (length (m_chans m)) True)
     \<and> length (m_jobs m) = length (m_chans m)"

lemma close_done_last:
  assumes "m_done m = Some k" "m_chans m = replicate k True @ [False]"
  shows "close_done m = Ok (m\<lparr>m_chans := replicate (length (m_chans m)) True\<rparr>)"
proof -
  have "(m_chans m)[k := True] = replicate (length (m_chans m)) True"
    using assms(2) by (simp add: list_update_append replicate_append_same)
  then show ?thesis using assms by (simp add: close_done_def nth_append)
qed

lemma media_inv_playing:
  assumes "media_inv m" "m_playing m"
  obtains k where "m_done m = Some k" "m_chans m = replicate k True @ [False]"
  using assms by (auto simp: media_inv_def)

lemma playback_inv:
  assumes "media_inv m"
  shows "\<exists>m'. playback pkts (Some m) = Ok (Some m') \<and> media_inv m'
    \<and> m_jobs m' = m_jobs m @ (if pkts = [] then [] else [pkts]) \<and> m_buf m' = m_buf m"
proof (cases "pkts = []")
  case True
  then show ?thesis using assms by (simp add: playback_def)
next
  case False
  have len: "length (m_jobs m) = length (m_chans m)" using assms by (simp add: media_inv_def)
  show ?thesis
  proof (cases "m_playing m")
    case True
    then obtain k where k: "m_done m = Some k" "m_chans m = replicate k True @ [False]"
      using media_inv_playing [OF assms] by blast
    show ?thesis
      using False True close_done_last [OF k] len by (simp add: playback_def media_inv_def)
  next
    case idle: False
    then have "m_chans m = replicate (length (m_chans m)) True" using assms by (simp add: media_inv_def)
    then show ?thesis using False idle len by (simp add: playback_def media_inv_def)
  qed
qed

lemma stop_inv:
  assumes "media_inv m"
  shows "\<exists>m'. stop (Some m) = Ok (Some m') \<and> media_inv m' \<and> m_jobs m' = m_jobs m \<and> \<not> m_playing m'"
proof (cases "m_playing m")
  case False
  then show ?thesis using assms by (simp add: stop_def)
next
  case True
  then obtain k where k: "m_done m = Some k" "m_chans m = replicate k True @ [False]"
    using media_inv_playing [OF assms] by blast
  then have "close_done (m\<lparr>m_playing := False\<rparr>) =
      Ok (m\<lparr>m_playing := False, m_chans := replicate (length (m_chans m)) True\<rparr>)"
    using close_done_last [of "m\<lparr>m_playing := False\<rparr>" k] by simp
  moreover have "length (m_jobs m) = length (m_chans m)" using assms by (simp add: media_inv_def)
  ultimately show ?thesis using True k(1) by (simp add: stop_def media_inv_def)
qed

fun op_jobs :: "media_op list \<Rightarrow> Packet list list" where
  "op_jobs [] = []"
| "op_jobs (Op_playback pkts # ops) = (if pkts = [] then [] else [pkts]) @ op_jobs ops"
| "op_jobs (op # ops) = op_jobs ops"

lemma media_run_inv:
  "media_inv m \<Longrightarrow> \<exists>m'. media_run ops (Some m) = Ok (Some m') \<and> media_inv m' \<and> m_jobs m' = m_jobs m @ op_jobs ops"
proof (induction ops arbitrary: m)
  case Nil
  then show ?case by simp
next
  case (Cons op ops)
  show ?case
  proof (cases op)
    case (Op_playback pkts)
    obtain m1 where "playback pkts (Some m) = Ok (Some m1)" "media_inv m1"
        "m_jobs m1 = m_jobs m @ (if pkts = [] then [] else [pkts])"
      using playback_inv [OF Cons.prems] by blast
    then show ?thesis using Cons.IH [of m1] Op_playback by auto
  next
    case Op_stop
    then show ?thesis using stop_inv [OF Cons.prems] Cons.IH by fastforce
  next
    case Op_close
    then show ?thesis using stop_inv [OF Cons.prems] Cons.IH by (fastforce simp: media_Close_def)
  qed
qed

text \<open>
  C22. Whatever sequence of \<open>playback\<close>, \<open>stop\<close> and \<open>Close\<close> a dialog makes, no channel is closed twice
  and none is nil when it is closed: no operation panics. Each non-empty \<open>playback\<close> starts one
  goroutine, in their order; at most one of their channels is open, the last, and none when the media
  does not play, in particular after \<open>Close\<close>.
\<close>

theorem media_ops_safe:
  fixes ops :: "media_op list"
  shows "\<exists>m'. media_run ops (Some (fresh_media i remote buf)) = Ok (Some m')
    \<and> m_jobs m' = op_jobs ops \<and> length (m_chans m') = length (op_jobs ops)
    \<and> filter Not (m_chans m') = (if m_playing m' then [False] else [])
    \<and> (\<exists>m''. media_Close (Some m') = Ok (Some m'') \<and> \<not> m_playing m'' \<and> filter Not (m_chans m'') = [])"
proof -
  have "media_inv (fresh_media i remote buf)" by (simp add: media_inv_def fresh_media_def)
  then obtain m' where m': "media_run ops (Some (fresh_media i remote buf)) = Ok (Some m')" "media_inv m'"
      "m_jobs m' = op_jobs ops"
    using media_run_inv [of "fresh_media i remote buf" ops] by (auto simp: fresh_media_def)
  have open_chans: "filter Not (m_chans m) = (if m_playing m then [False] else [])" if inv: "media_inv m" for m
  proof (cases "m_playing m")
    case True
    then obtain k where "m_chans m = replicate k True @ [False]" using inv by (auto simp: media_inv_def)
    then show ?thesis using True by simp
  next
    case False
    then obtain k where "m_chans m = replicate k True" using inv by (auto simp: media_inv_def)
    then show ?thesis using False by simp
  qed
  obtain m'' where "stop (Some m') = Ok (Some m'')" "media_inv m''" "\<not> m_playing m''"
    using stop_inv [OF m'(2)] by blast
  moreover have "length (m_chans m') = length (op_jobs ops)"
    using m'(2,3) by (simp add: media_inv_def)
  ultimately show ?thesis
    using m' open_chans [OF m'(2)] open_chans [of m''] by (auto simp: media_Close_def)
qed

end
