(* ===== verification/Other_Calls.thy ===== *)
theory Other_Calls
  imports Media
begin

section \<open>What other calls do meanwhile\<close>

text \<open>
  The calls of an agent run in goroutines of their own on the agent's state and on the kernel's map.
  Seen from one call, the others take and free ports, enter and leave the table of dialogs, register
  and collect counters, draw durations and sockets. This theory has these operations as steps, and
  what they leave alone.
\<close>

subsection \<open>Steps\<close>

text \<open>
  The shared state is the agent and the kernel's map. With it goes a view of the agent without the
  call: its ports are those that the others hold, its dialogs and numbers are theirs. It is there for
  the proofs only, no operation depends on it.
\<close>

type_synonym 's shared = "nat baseUa \<times> 's \<times> nat baseUa"

definition enter_ua :: "string \<Rightarrow> nat \<Rightarrow> nat baseUa \<Rightarrow> nat baseUa" where
  "enter_ua callId d u =
     u\<lparr>dialogs := (dialogs u)(callId \<mapsto> d), metricsCurrentDialogs := wrap64 (metricsCurrentDialogs u + 1),
       metricsDialogs := metricsDialogs u + 1\<rparr>"

definition leave_ua :: "string \<Rightarrow> nat baseUa \<Rightarrow> nat baseUa" where
  "leave_ua callId u =
     u\<lparr>dialogs := (dialogs u)(callId := None), metricsCurrentDialogs := wrap64 (metricsCurrentDialogs u - 1)\<rparr>"

text \<open>
  Others free ports that they hold. They may collect the counters of any port: a dialog frees its
  ports before it collects their counters, so that the port may have another owner by then.
\<close>

inductive other_op :: "'s map_ops \<Rightarrow> string \<Rightarrow> 's shared \<Rightarrow> 's shared \<Rightarrow> bool" for ops callId where
  take: "getPort u = Some (Ok (p, u')) \<Longrightarrow>
    other_op ops callId (u, s, v) (u', s, v\<lparr>ports := insert p (ports v)\<rparr>)"
| free: "distinct ps \<Longrightarrow> set ps \<subseteq> ports v \<Longrightarrow>
    other_op ops callId (u, s, v) (freePort ps u, s, v\<lparr>ports := ports v - set ps\<rparr>)"
| enter: "c \<noteq> callId \<Longrightarrow> other_op ops callId (u, s, v) (enter_ua c d u, s, enter_ua c d v)"
| leave: "c \<noteq> callId \<Longrightarrow> other_op ops callId (u, s, v) (leave_ua c u, s, leave_ua c v)"
| register: "other_op ops callId (u, s, v) (u, snd (ebpf_Update ops ps s), v)"
| collect: "other_op ops callId (u, s, v) (u, snd (snd (LookupAndDelete ops ps s)), v)"
| ringing: "tr_Get r (ringingTimeRange u) = Ok (dur, t) \<Longrightarrow>
    other_op ops callId (u, s, v) (u\<lparr>ringingTimeRange := t\<rparr>, s, v)"
| answering: "tr_Get r (answerTimeRange u) = Ok (dur, t) \<Longrightarrow>
    other_op ops callId (u, s, v) (u\<lparr>answerTimeRange := t\<rparr>, s, v)"
| socket: "rr_Next (xdpSocketsLB u) = Ok (i, lb) \<Longrightarrow> other_op ops callId (u, s, v) (u\<lparr>xdpSocketsLB := lb\<rparr>, s, v)"
| shutdown: "other_op ops callId (u, s, v) (u\<lparr>cancelled := True\<rparr>, s, v)"

abbreviation other_ops :: "'s map_ops \<Rightarrow> string \<Rightarrow> 's shared \<Rightarrow> 's shared \<Rightarrow> bool" where
  "other_ops ops callId \<equiv> (other_op ops callId)\<^sup>*\<^sup>*"

subsection \<open>What they leave alone\<close>

text \<open>The call holds the ports \<open>ps\<close>, is entered as \<open>d\<close>, and everything else is of the others.\<close>

definition shared_inv :: "string \<Rightarrow> nat \<Rightarrow> u16 list \<Rightarrow> 's shared \<Rightarrow> bool" where
  "shared_inv callId d ps x \<longleftrightarrow>
     (case x of (u, s, v) \<Rightarrow>
        pool.owned_since v ps u \<and> dialogs u = (dialogs v)(callId \<mapsto> d)
        \<and> metricsCurrentDialogs u = wrap64 (metricsCurrentDialogs v + 1)
        \<and> metricsDialogs u = metricsDialogs v + 1 \<and> in_int64 (metricsCurrentDialogs v))"

lemma getPort_more:
  assumes "pool_wf (u :: nat baseUa)" "getPort u = Some (Ok (p, u'))"
  shows "port_pool.more u' = port_pool.more u"
  using getPort_wf_cases [OF assms(1)] assms(2) by auto

lemma baseUa_more:
  assumes "port_pool.more (u' :: nat baseUa) = port_pool.more u"
  shows "dialogs u' = dialogs u" "metricsCurrentDialogs u' = metricsCurrentDialogs u" "metricsDialogs u' = metricsDialogs u"
    "ringingTimeRange u' = ringingTimeRange u" "answerTimeRange u' = answerTimeRange u"
    "xdpSocketsLB u' = xdpSocketsLB u" "EarlyMedia u' = EarlyMedia u" "AnswerMedia u' = AnswerMedia u"
  using assms by (cases u; cases u'; simp)+

lemma wrap64_shift: "wrap64 (wrap64 (x + a) + b) = wrap64 (wrap64 (x + b) + a)"
  unfolding wrap64_def by (simp add: mod_simps algebra_simps)

lemma other_op_inv:
  assumes "other_op ops callId x y" "shared_inv callId d ps x"
  shows "shared_inv callId d ps y"
  using assms(1)
proof cases
  case (take u p u' s v)
  have inv: "pool.owned_since v ps u" using assms(2) take by (simp add: shared_inv_def)
  then have wf: "pool_wf u" by (simp add: pool.owned_since_def)
  have "pool.owned_since (v\<lparr>ports := insert p (ports v)\<rparr>) ps u'"
    using inv getPort_wf_cases [OF wf] take(3) by (auto simp: pool.owned_since_def)
  then show ?thesis
    using assms(2) take baseUa_more(1-3) [OF getPort_more [OF wf take(3)]] by (simp add: shared_inv_def)
next
  case (free qs v u s)
  have inv: "pool.owned_since v ps u" using assms(2) free by (simp add: shared_inv_def)
  then have "pool_wf u" "set qs \<subseteq> ports u" using free(4) by (auto simp: pool.owned_since_def)
  note freed = freePort_wf [OF this(1) free(3) this(2)]
  have "pool.owned_since (v\<lparr>ports := ports v - set qs\<rparr>) ps (freePort qs u)"
    using inv freed free(4) by (auto simp: pool.owned_since_def)
  moreover have "dialogs (freePort qs u) = dialogs u" "metricsCurrentDialogs (freePort qs u) = metricsCurrentDialogs u"
      "metricsDialogs (freePort qs u) = metricsDialogs u" by (simp_all add: freePort_def)
  ultimately show ?thesis using assms(2) free by (simp add: shared_inv_def)
next
  case (enter c u s v e)
  then show ?thesis
    using assms(2)
    by (auto simp: shared_inv_def enter_ua_def pool.owned_since_def pool_wf_def fun_upd_twist)
next
  case (leave c u s v)
  then show ?thesis
    using assms(2) wrap64_shift [of "metricsCurrentDialogs v" 1 "-1"]
    by (auto simp: shared_inv_def leave_ua_def pool.owned_since_def pool_wf_def)
qed (use assms(2) in \<open>auto simp: shared_inv_def pool.owned_since_def pool_wf_def\<close>)

lemma other_ops_inv:
  assumes "other_ops ops callId x y" "shared_inv callId d ps x"
  shows "shared_inv callId d ps y"
  using assms by (induction rule: rtranclp_induct) (auto intro: other_op_inv)

text \<open>The operations of the call itself.\<close>

lemma enter_shared:
  assumes "pool_wf u" "in_int64 (metricsCurrentDialogs u)"
  shows "shared_inv callId d [] (enter_ua callId d u, s, u)"
  using assms by (simp add: shared_inv_def enter_ua_def pool.owned_since_def pool_wf_def)

lemma getPort_shared:
  assumes "shared_inv callId d ps (u, s, v)" "getPort u = Some (Ok (p, u'))"
  shows "shared_inv callId d (ps @ [p]) (u', s, v)" "p \<notin> ports v"
proof -
  have owned: "pool.owned_since v ps u" and wf: "pool_wf u"
    using assms(1) by (simp_all add: shared_inv_def pool.owned_since_def)
  note got = pool.owned_get [OF owned assms(2)]
  then show "shared_inv callId d (ps @ [p]) (u', s, v)"
    using assms baseUa_more(1-3) [OF getPort_more [OF wf assms(2)]] by (simp add: shared_inv_def)
  show "p \<notin> ports v" using got by (auto simp: pool.owned_since_def)
qed

lemma freePort_shared:
  assumes "shared_inv callId d ps (u, s, v)"
  shows "shared_inv callId d [] (freePort ps u, s, v)"
proof -
  have "pool.owned_since v ps u" using assms by (simp add: shared_inv_def)
  from pool.owned_free [OF this] have "pool.owned_since v [] (freePort ps u)" by (simp add: pool.owned_since_def)
  moreover have "dialogs (freePort ps u) = dialogs u" "metricsCurrentDialogs (freePort ps u) = metricsCurrentDialogs u"
    "metricsDialogs (freePort ps u) = metricsDialogs u" by (simp_all add: freePort_def)
  ultimately show ?thesis using assms by (simp add: shared_inv_def)
qed

lemma wrap64_inc_dec: "in_int64 x \<Longrightarrow> wrap64 (wrap64 (x + 1) - 1) = x"
proof -
  assume x: "in_int64 x"
  have "wrap64 (wrap64 (x + 1) - 1) = wrap64 x" unfolding wrap64_def by (simp add: mod_simps algebra_simps)
  then show ?thesis using x by simp
qed

lemma leave_shared:
  assumes "shared_inv callId d [] (u, s, v)"
  shows "pool_wf (leave_ua callId u) \<and> ports (leave_ua callId u) = ports v
    \<and> dialogs (leave_ua callId u) = (dialogs v)(callId := None)
    \<and> metricsCurrentDialogs (leave_ua callId u) = metricsCurrentDialogs v
    \<and> metricsDialogs (leave_ua callId u) = metricsDialogs v + 1"
  using assms
  by (auto simp: shared_inv_def leave_ua_def pool.owned_since_def pool_wf_def wrap64_inc_dec)

subsection \<open>What a call needs from the agent\<close>

text \<open>A flag that was read without an error gives durations for ever, and the sockets are shared fairly.\<close>

definition range_fine :: "TimeRange \<Rightarrow> bool" where
  "range_fine t \<longleftrightarrow> (\<exists>specs. tr_from specs t \<and> (\<forall>s \<in> set specs. spec_fits s))"

lemma range_fine_Get: "range_fine t \<Longrightarrow> \<exists>d t'. tr_Get u t = Ok (d, t') \<and> range_fine t'"
  using tr_Get_from [of _ t u] unfolding range_fine_def by blast

lemma range_fine_next: "range_fine t \<Longrightarrow> tr_Get u t = Ok (d, t') \<Longrightarrow> range_fine t'"
  using range_fine_Get [of t u] by auto

definition well_equipped :: "'d baseUa \<Rightarrow> bool" where
  "well_equipped u \<longleftrightarrow>
     range_fine (ringingTimeRange u) \<and> range_fine (answerTimeRange u) \<and> rr_wf (xdpSocketsLB u)"

text \<open>The others keep it, and do not touch the settings.\<close>

definition same_settings :: "nat baseUa \<Rightarrow> nat baseUa \<Rightarrow> bool" where
  "same_settings u u' \<longleftrightarrow>
     EarlyMedia u' = EarlyMedia u \<and> AnswerMedia u' = AnswerMedia u \<and> RtpPortMin u' = RtpPortMin u
     \<and> (well_equipped u \<longrightarrow> well_equipped u')"

lemma other_op_settings:
  assumes "other_op ops callId x y" "shared_inv callId d ps x"
  shows "same_settings (fst x) (fst y)"
  using assms(1)
proof cases
  case (take u p u' s v)
  then have wf: "pool_wf u" using assms(2) by (simp add: shared_inv_def pool.owned_since_def)
  have "RtpPortMin u' = RtpPortMin u" using getPort_wf_cases [OF wf] take(3) by auto
  then show ?thesis
    using take baseUa_more [OF getPort_more [OF wf take(3)]] by (simp add: same_settings_def well_equipped_def)
next
  case (socket u i lb s v)
  then show ?thesis
    using rr_Next_eq [of "xdpSocketsLB u"] by (auto simp: same_settings_def well_equipped_def rr_wf_def)
qed (auto simp: same_settings_def well_equipped_def freePort_def enter_ua_def leave_ua_def intro: range_fine_next)

lemma other_ops_settings:
  assumes "other_ops ops callId x y" "shared_inv callId d ps x"
  shows "same_settings (fst x) (fst y)"
  using assms(1)
proof (induction rule: rtranclp_induct)
  case base
  then show ?case by (simp add: same_settings_def)
next
  case (step y z)
  have "shared_inv callId d ps y" using other_ops_inv [OF step(1) assms(2)] .
  from other_op_settings [OF step(2) this] step(3) show ?case by (simp add: same_settings_def)
qed

end
