(* ===== verification/Go_Proc.thy ===== *)
theory Go_Proc
  imports Prelude
begin

section \<open>Procedures with state\<close>

text \<open>
  The handlers of the user agents change shared state and may end early, so they are functions from
  the state to an outcome and the state afterwards, whatever the outcome; \<open>None\<close> is a call that never
  returns. \<open>wp m Q s\<close> says that \<open>m\<close> started in \<open>s\<close> returns and that the outcome and the state then
  satisfy \<open>Q\<close>; its equations compute it from the text of the procedure.
\<close>

type_synonym ('s, 'e, 'a) go = "'s \<Rightarrow> (('e, 'a) res \<times> 's) option"

subsection \<open>Statements\<close>

definition go_return :: "'a \<Rightarrow> ('s, 'e, 'a) go" where
  "go_return x = (\<lambda>s. Some (Ok x, s))"

definition go_fail :: "'e \<Rightarrow> ('s, 'e, 'a) go" where
  "go_fail e = (\<lambda>s. Some (Err e, s))"

definition go_panic :: "panic \<Rightarrow> ('s, 'e, 'a) go" where
  "go_panic p = (\<lambda>s. Some (Panic p, s))"

definition go_bind :: "('s, 'e, 'a) go \<Rightarrow> ('a \<Rightarrow> ('s, 'e, 'b) go) \<Rightarrow> ('s, 'e, 'b) go" where
  "go_bind m f =
     (\<lambda>s. case m s of
        None \<Rightarrow> None
      | Some (Ok x, s') \<Rightarrow> f x s'
      | Some (Err e, s') \<Rightarrow> Some (Err e, s')
      | Some (Panic p, s') \<Rightarrow> Some (Panic p, s'))"

definition go_then :: "('s, 'e, 'a) go \<Rightarrow> ('s, 'e, 'b) go \<Rightarrow> ('s, 'e, 'b) go" where
  "go_then m n = go_bind m (\<lambda>_. n)"

definition go_get :: "('s \<Rightarrow> 'a) \<Rightarrow> ('s, 'e, 'a) go" where
  "go_get f = (\<lambda>s. Some (Ok (f s), s))"

definition go_modify :: "('s \<Rightarrow> 's) \<Rightarrow> ('s, 'e, unit) go" where
  "go_modify f = (\<lambda>s. Some (Ok (), f s))"

text \<open>A computation without effect on the state.\<close>

definition go_lift :: "('e, 'a) res \<Rightarrow> ('s, 'e, 'a) go" where
  "go_lift r = (\<lambda>s. Some (r, s))"

text \<open>An error is handled by a statement of its own instead of the rest.\<close>

definition go_try ::
  "('s, 'e, 'a) go \<Rightarrow> ('a \<Rightarrow> ('s, 'e, 'b) go) \<Rightarrow> ('e \<Rightarrow> ('s, 'e, 'b) go) \<Rightarrow> ('s, 'e, 'b) go" where
  "go_try m f h =
     (\<lambda>s. case m s of
        None \<Rightarrow> None
      | Some (Ok x, s') \<Rightarrow> f x s'
      | Some (Err e, s') \<Rightarrow> h e s'
      | Some (Panic p, s') \<Rightarrow> Some (Panic p, s'))"

text \<open>The error of a call is only logged.\<close>

definition go_ignore :: "('s, 'e, unit) go \<Rightarrow> ('s, 'e, unit) go" where
  "go_ignore m =
     (\<lambda>s. case m s of Some (Err e, s') \<Rightarrow> Some (Ok (), s') | r \<Rightarrow> r)"

text \<open>\<open>defer\<close>: the deferred call runs on every outcome; its own panic replaces it.\<close>

definition go_defer :: "('s, 'e, unit) go \<Rightarrow> ('s, 'e, 'a) go \<Rightarrow> ('s, 'e, 'a) go" where
  "go_defer d m =
     (\<lambda>s. case m s of
        None \<Rightarrow> None
      | Some (r, s') \<Rightarrow>
          (case d s' of
             None \<Rightarrow> None
           | Some (Panic p, s'') \<Rightarrow> Some (Panic p, s'')
           | Some (_, s'') \<Rightarrow> Some (r, s'')))"

lemma go_bind_assoc: "go_bind (go_bind m f) g = go_bind m (\<lambda>x. go_bind (f x) g)"
  by (auto simp: go_bind_def fun_eq_iff split: option.split res.split prod.split)

subsection \<open>Weakest preconditions\<close>

named_theorems wp_simps

definition wp :: "('s, 'e, 'a) go \<Rightarrow> (('e, 'a) res \<Rightarrow> 's \<Rightarrow> bool) \<Rightarrow> 's \<Rightarrow> bool" where
  "wp m Q s \<longleftrightarrow> (\<exists>r s'. m s = Some (r, s') \<and> Q r s')"

lemma wp_return [wp_simps]: "wp (go_return x) Q s \<longleftrightarrow> Q (Ok x) s"
  by (simp add: wp_def go_return_def)

lemma wp_fail [wp_simps]: "wp (go_fail e) Q s \<longleftrightarrow> Q (Err e) s"
  by (simp add: wp_def go_fail_def)

lemma wp_panic [wp_simps]: "wp (go_panic p) Q s \<longleftrightarrow> Q (Panic p) s"
  by (simp add: wp_def go_panic_def)

lemma wp_get [wp_simps]: "wp (go_get f) Q s \<longleftrightarrow> Q (Ok (f s)) s"
  by (simp add: wp_def go_get_def)

lemma wp_modify [wp_simps]: "wp (go_modify f) Q s \<longleftrightarrow> Q (Ok ()) (f s)"
  by (simp add: wp_def go_modify_def)

lemma wp_lift [wp_simps]: "wp (go_lift r) Q s \<longleftrightarrow> Q r s"
  by (simp add: wp_def go_lift_def)

lemma wp_bind [wp_simps]:
  "wp (go_bind m f) Q s \<longleftrightarrow>
   wp m (\<lambda>r s'. case r of Ok x \<Rightarrow> wp (f x) Q s' | Err e \<Rightarrow> Q (Err e) s' | Panic p \<Rightarrow> Q (Panic p) s') s"
  by (auto simp: wp_def go_bind_def split: option.splits res.splits prod.splits)

lemma wp_try [wp_simps]:
  "wp (go_try m f h) Q s \<longleftrightarrow>
   wp m (\<lambda>r s'. case r of Ok x \<Rightarrow> wp (f x) Q s' | Err e \<Rightarrow> wp (h e) Q s' | Panic p \<Rightarrow> Q (Panic p) s') s"
  by (auto simp: wp_def go_try_def split: option.splits res.splits prod.splits)

lemma wp_then [wp_simps]:
  "wp (go_then m n) Q s \<longleftrightarrow>
   wp m (\<lambda>r s'. case r of Ok x \<Rightarrow> wp n Q s' | Err e \<Rightarrow> Q (Err e) s' | Panic p \<Rightarrow> Q (Panic p) s') s"
  by (simp add: go_then_def wp_bind)

lemma wp_ignore [wp_simps]:
  "wp (go_ignore m) Q s \<longleftrightarrow> wp m (\<lambda>r s'. case r of Err e \<Rightarrow> Q (Ok ()) s' | _ \<Rightarrow> Q r s') s"
  by (auto simp: wp_def go_ignore_def split: option.splits res.splits prod.splits)

lemma wp_defer [wp_simps]:
  "wp (go_defer d m) Q s \<longleftrightarrow>
   wp m (\<lambda>r s'. wp d (\<lambda>r' s''. case r' of Panic p \<Rightarrow> Q (Panic p) s'' | _ \<Rightarrow> Q r s'') s') s"
  by (auto simp: wp_def go_defer_def split: option.splits res.splits prod.splits)

lemma wp_mono: "wp m Q s \<Longrightarrow> (\<And>r s'. Q r s' \<Longrightarrow> Q' r s') \<Longrightarrow> wp m Q' s"
  by (auto simp: wp_def)

lemma wp_conj: "wp m Q s \<Longrightarrow> wp m R s \<Longrightarrow> wp m (\<lambda>r s'. Q r s' \<and> R r s') s"
  by (auto simp: wp_def)

lemma wp_returns: "wp m Q s \<Longrightarrow> \<exists>r s'. m s = Some (r, s') \<and> Q r s'"
  by (simp add: wp_def)

subsection \<open>What every statement keeps\<close>

definition preserves :: "('s \<Rightarrow> bool) \<Rightarrow> ('s, 'e, 'a) go \<Rightarrow> bool" where
  "preserves I m \<longleftrightarrow> (\<forall>s. I s \<longrightarrow> wp m (\<lambda>r s'. I s') s)"

named_theorems preserves_intros

lemma preservesI: "(\<And>s. I s \<Longrightarrow> wp m (\<lambda>r s'. I s') s) \<Longrightarrow> preserves I m"
  by (simp add: preserves_def)

lemma preservesD: "preserves I m \<Longrightarrow> I s \<Longrightarrow> wp m (\<lambda>r s'. I s') s"
  by (simp add: preserves_def)

lemma preserves_pure [preserves_intros]:
  "preserves I (go_return x)" "preserves I (go_fail e)" "preserves I (go_panic p)" "preserves I (go_get f)"
  "preserves I (go_lift r)"
  by (simp_all add: preserves_def wp_simps)

lemma preserves_bind [preserves_intros]:
  "preserves I m \<Longrightarrow> (\<And>x. preserves I (f x)) \<Longrightarrow> preserves I (go_bind m f)"
  unfolding preserves_def wp_bind by (auto elim!: wp_mono split: res.split)

lemma preserves_then [preserves_intros]:
  "preserves I m \<Longrightarrow> preserves I n \<Longrightarrow> preserves I (go_then m n)"
  unfolding go_then_def by (rule preserves_bind)

lemma preserves_try [preserves_intros]:
  "preserves I m \<Longrightarrow> (\<And>x. preserves I (f x)) \<Longrightarrow> (\<And>e. preserves I (h e)) \<Longrightarrow> preserves I (go_try m f h)"
  unfolding preserves_def wp_try by (auto elim!: wp_mono split: res.split)

lemma preserves_ignore [preserves_intros]: "preserves I m \<Longrightarrow> preserves I (go_ignore m)"
  unfolding preserves_def wp_ignore by (auto elim!: wp_mono split: res.split)

lemma preserves_defer [preserves_intros]:
  "preserves I d \<Longrightarrow> preserves I m \<Longrightarrow> preserves I (go_defer d m)"
  unfolding preserves_def wp_defer by (auto elim!: wp_mono split: res.split)

lemma preserves_if [preserves_intros]:
  "(b \<Longrightarrow> preserves I m) \<Longrightarrow> (\<not> b \<Longrightarrow> preserves I n) \<Longrightarrow> preserves I (if b then m else n)"
  by simp

lemma preserves_modify: "(\<And>s. I s \<Longrightarrow> I (f s)) \<Longrightarrow> preserves I (go_modify f)"
  by (simp add: preserves_def wp_simps)

lemma preserves_case_res [preserves_intros]:
  "(\<And>x. r = Ok x \<Longrightarrow> preserves I (f x)) \<Longrightarrow> (\<And>e. r = Err e \<Longrightarrow> preserves I (g e)) \<Longrightarrow>
   (\<And>p. r = Panic p \<Longrightarrow> preserves I (h p)) \<Longrightarrow>
   preserves I (case r of Ok x \<Rightarrow> f x | Err e \<Rightarrow> g e | Panic p \<Rightarrow> h p)"
  by (cases r) auto

lemma preserves_case_option [preserves_intros]:
  "(r = None \<Longrightarrow> preserves I m) \<Longrightarrow> (\<And>x. r = Some x \<Longrightarrow> preserves I (f x)) \<Longrightarrow>
   preserves I (case r of None \<Rightarrow> m | Some x \<Rightarrow> f x)"
  by (cases r) auto

lemma preserves_case_prod [preserves_intros]:
  "(\<And>x y. r = (x, y) \<Longrightarrow> preserves I (f x y)) \<Longrightarrow> preserves I (case r of (x, y) \<Rightarrow> f x y)"
  by (cases r) auto

text \<open>A call that keeps an assertion, followed by something else.\<close>

lemma wp_bind_keep:
  assumes "preserves I m" and "I s" and "\<And>x s'. I s' \<Longrightarrow> wp (f x) Q s'"
    and "\<And>e s'. I s' \<Longrightarrow> Q (Err e) s'" and "\<And>p s'. I s' \<Longrightarrow> Q (Panic p) s'"
  shows "wp (go_bind m f) Q s"
  unfolding wp_bind by (rule wp_mono [OF preservesD [OF assms(1,2)]]) (auto intro: assms(3-5) split: res.split)

lemma wp_then_keep:
  assumes "preserves I m" and "I s" and "\<And>s'. I s' \<Longrightarrow> wp n Q s'"
    and "\<And>e s'. I s' \<Longrightarrow> Q (Err e) s'" and "\<And>p s'. I s' \<Longrightarrow> Q (Panic p) s'"
  shows "wp (go_then m n) Q s"
  unfolding go_then_def by (rule wp_bind_keep [OF assms(1,2)]) (auto intro: assms(3-5))

lemma wp_defer_keep:
  assumes "wp m Q s" and "\<And>r s'. Q r s' \<Longrightarrow> wp d (\<lambda>r' s''. (\<nexists>p. r' = Panic p) \<and> Q r s'') s'"
  shows "wp (go_defer d m) Q s"
  unfolding wp_defer
proof (rule wp_mono [OF assms(1)])
  fix r s'
  assume "Q r s'"
  from assms(2) [OF this]
  show "wp d (\<lambda>r' s''. case r' of Panic p \<Rightarrow> Q (Panic p) s'' | _ \<Rightarrow> Q r s'') s'"
    by (rule wp_mono) (auto split: res.split)
qed

text \<open>A procedure that opens something, defers closing it, and logs the error of what is done with it.\<close>

lemma opened_and_closed:
  fixes new cl :: "('s, 'e, unit) go"
  assumes new: "wp new (\<lambda>r s'. r = Ok () \<and> start s') s"
    and body: "\<And>s'. start s' \<Longrightarrow> wp m (\<lambda>r. J) s'"
    and close: "\<And>s1. J s1 \<Longrightarrow> wp cl (\<lambda>r s2. r = Ok () \<and> F s2) s1"
  shows "\<exists>r s'. go_then new (go_defer cl (go_ignore m)) s = Some (r, s') \<and> F s'"
proof -
  have run: "wp (go_defer cl (go_ignore m)) (\<lambda>r. F) s'" if "start s'" for s'
  proof -
    have "wp (go_ignore m) (\<lambda>r. J) s'"
      unfolding wp_ignore by (rule wp_mono [OF body [OF that]]) (simp split: res.split)
    then show ?thesis
      unfolding wp_defer by (rule wp_mono) (rule wp_mono [OF close], assumption, simp split: res.split)
  qed
  have "wp (go_then new (go_defer cl (go_ignore m))) (\<lambda>r. F) s"
    unfolding wp_then by (rule wp_mono [OF new]) (use run in auto)
  from wp_returns [OF this] show ?thesis .
qed

end
