(* ===== verification/Dialog.thy ===== *)
theory Dialog
  imports Other_Calls Go_Proc
begin

section \<open>What the dialogs of both user agents share (\<open>dialog.go\<close>)\<close>

text \<open>
  A dialog runs in a goroutine of its own: it takes ports, registers them with the packet counters,
  makes a media, sends messages, waits, and at the end gives everything back. This theory has the
  state such a goroutine works on, the calls that both kinds of dialogs make, and the invariant that
  accounts for the resources. What the peer, the SIP library and the clock do is in \<open>dialog_env\<close>.
\<close>

subsection \<open>State and environment\<close>

datatype sip_msg =
    Trying
  | Progress string
  | Answer string
  | Busy
  | Server_Error
  | Invite string
  | Ack
  | Bye

text \<open>What \<open>Close\<close> writes to the log.\<close>

record dialog_stats =
  st_rx :: "rtp_info list"
  st_txPkts :: u64
  st_txLossPkts :: u64
  st_txBytes :: u64

text \<open>
  \<open>w_ua\<close> is the user agent and \<open>w_rules\<close> the kernel's map, both shared with the other calls, and
  \<open>w_others\<close> the view of the agent without this call; \<open>w_turns\<close> counts how often the others had a
  turn. The remaining fields are those of the dialog: \<open>w_done\<close> says that its channel \<open>done\<close> is closed, \<open>w_cancelled\<close> that the context of its
  media is. \<open>w_sent\<close> are the messages it has asked the SIP library to send, with whether that
  succeeded, and \<open>w_waits\<close> counts its waits. A dialog is stored under its Call-ID by its number.
\<close>

record 's dialog_world =
  w_ua :: "nat baseUa"
  w_rules :: 's
  w_others :: "nat baseUa"
  w_turns :: nat
  w_media :: "media option"
  w_done :: bool
  w_cancelled :: bool
  w_sent :: "(sip_msg \<times> bool) list"
  w_waits :: nat
  w_stats :: "dialog_stats option"

datatype dialog_error =
    D_Send sip_msg
  | D_No_Port
  | D_Rules
  | D_Media media_error
  | D_Sdp sdp_error
  | D_Mime
  | D_Content_Type
  | D_Answer

text \<open>
  \<open>e_send n\<close> is whether the \<open>n\<close>-th message can be sent. At the \<open>n\<close>-th wait \<open>e_hangup n\<close> says that the
  dialog ended before the timer, \<open>e_rand n\<close> is the random number for the timer and \<open>e_count n\<close> what
  the media's goroutine has counted until then (packets, losses, bytes). \<open>e_others n\<close> is what the other
  calls do in their \<open>n\<close>-th turn, and \<open>e_tables n\<close> are the routing and the ARP table before it, since
  the refresh timer may replace them at any time. \<open>e_mime\<close> is \<open>mime.ParseMediaType\<close>, its result reduced
  to the type and the boundary.
\<close>

record 's dialog_env =
  e_ops :: "'s map_ops"
  e_others :: "nat \<Rightarrow> 's shared \<Rightarrow> 's shared"
  e_tables :: "nat \<Rightarrow> router option \<times> arp_table"
  e_unmarshal :: "bytes \<Rightarrow> session_description option"
  e_parts :: "bytes \<Rightarrow> string \<Rightarrow> (string \<times> bytes option) list"
  e_mime :: "string \<Rightarrow> (string \<times> string) option"
  e_addr :: string
  e_send :: "nat \<Rightarrow> bool"
  e_hangup :: "nat \<Rightarrow> bool"
  e_rand :: "nat \<Rightarrow> nat"
  e_count :: "nat \<Rightarrow> u64 \<times> u64 \<times> u64"

type_synonym ('s, 'z, 'a) dgo = "(('s, 'z) dialog_world_scheme, dialog_error, 'a) go"

subsection \<open>Calls\<close>

text \<open>
  A turn of the others. It comes before each operation on the shared state and during each wait;
  between two turns the call changes the shared state by one operation only.
\<close>

definition go_others :: "'s dialog_env \<Rightarrow> ('s, 'z, unit) dgo" where
  "go_others env =
     (\<lambda>w. case e_others env (w_turns w) (w_ua w, w_rules w, w_others w) of
        (u, s, v) \<Rightarrow> Some (Ok (), w\<lparr>w_ua := u, w_rules := s, w_others := v, w_turns := w_turns w + 1\<rparr>))"

definition shared :: "'s dialog_env \<Rightarrow> ('s, 'z, 'a) dgo \<Rightarrow> ('s, 'z, 'a) dgo" where
  "shared env m = go_then (go_others env) m"

text \<open>Sending a message.\<close>

definition go_send :: "'s dialog_env \<Rightarrow> sip_msg \<Rightarrow> ('s, 'z, unit) dgo" where
  "go_send env msg =
     (\<lambda>w. let ok = e_send env (length (w_sent w))
          in Some (if ok then Ok () else Err (D_Send msg), w\<lparr>w_sent := w_sent w @ [(msg, ok)]\<rparr>))"

text \<open>Most errors are answered by a 500, whose own error is only logged, and then returned.\<close>

definition or_500 :: "'s dialog_env \<Rightarrow> ('s, 'z, 'a) dgo \<Rightarrow> ('s, 'z, 'a) dgo" where
  "or_500 env m =
     (\<lambda>w. case m w of
        Some (Err e, w') \<Rightarrow> go_then (go_ignore (go_send env Server_Error)) (go_fail e) w'
      | r \<Rightarrow> r)"

text \<open>\<open>getPort\<close> on the user agent; it may not return.\<close>

definition go_getPort :: "('s, 'z, u16) dgo" where
  "go_getPort =
     (\<lambda>w. case getPort (w_ua w) of
        None \<Rightarrow> None
      | Some (Ok (p, u)) \<Rightarrow> Some (Ok p, w\<lparr>w_ua := u\<rparr>)
      | Some (Err e) \<Rightarrow> Some (Err D_No_Port, w)
      | Some (Panic x) \<Rightarrow> Some (Panic x, w))"

definition go_update :: "'s dialog_env \<Rightarrow> u16 list \<Rightarrow> ('s, 'z, unit) dgo" where
  "go_update env ps =
     (\<lambda>w. case ebpf_Update (e_ops env) ps (w_rules w) of
        (None, s) \<Rightarrow> Some (Ok (), w\<lparr>w_rules := s\<rparr>)
      | (Some e, s) \<Rightarrow> Some (Err D_Rules, w\<lparr>w_rules := s\<rparr>))"

text \<open>\<open>d.media, err = newMedia(...)\<close>: the field is set to nil with an error.\<close>

definition go_newMedia :: "'s dialog_env \<Rightarrow> mediaInfo \<Rightarrow> mediaInfo \<Rightarrow> ('s, 'z, unit) dgo" where
  "go_newMedia env remote local =
     (\<lambda>w. case newMedia (fst (e_tables env (w_turns w))) (snd (e_tables env (w_turns w))) remote local (w_ua w) of
        (Ok m, u) \<Rightarrow> Some (Ok (), w\<lparr>w_ua := u, w_media := Some m\<rparr>)
      | (Err e, u) \<Rightarrow> Some (Err (D_Media e), w\<lparr>w_ua := u, w_media := None\<rparr>)
      | (Panic p, u) \<Rightarrow> Some (Panic p, w\<lparr>w_ua := u\<rparr>))"

definition on_media :: "(media option \<Rightarrow> (unit, media option) res) \<Rightarrow> ('s, 'z, unit) dgo" where
  "on_media f =
     (\<lambda>w. case f (w_media w) of
        Ok m \<Rightarrow> Some (Ok (), w\<lparr>w_media := m\<rparr>)
      | Err u \<Rightarrow> Some (Ok (), w)
      | Panic p \<Rightarrow> Some (Panic p, w))"

text \<open>
  \<open>handleState\<close>: the library reports a change of the dialog's state; on the end the channel is
  closed, which panics the second time.
\<close>

datatype dialog_state = DialogStateEnded | DialogStateOther

definition handleState :: "dialog_state \<Rightarrow> ('s, 'z, unit) dgo" where
  "handleState s =
     (case s of
        DialogStateEnded \<Rightarrow>
          (\<lambda>w. if w_done w then Some (Panic Close_Closed_Channel, w) else Some (Ok (), w\<lparr>w_done := True\<rparr>))
      | DialogStateOther \<Rightarrow> go_return ())"

text \<open>
  The \<open>select\<close> between \<open>done\<close> and a timer: the timer's duration is drawn first, which may panic.
  Either the dialog has ended already, or it ends now, or the timer is first.
  While the goroutine waits, the media counts. The result is whether the dialog has ended.
\<close>

definition set_counts :: "u64 \<times> u64 \<times> u64 \<Rightarrow> media \<Rightarrow> media" where
  "set_counts c m =
     m\<lparr>m_txPkts := fst c, m_txLossPkts := fst (snd c), m_txBytes := snd (snd c)\<rparr>"

definition go_draw ::
  "nat \<Rightarrow> (nat baseUa \<Rightarrow> TimeRange) \<Rightarrow> (TimeRange \<Rightarrow> nat baseUa \<Rightarrow> nat baseUa) \<Rightarrow> ('s, 'z, unit) dgo" where
  "go_draw r rng set_range =
     (\<lambda>w. case tr_Get r (rng (w_ua w)) of
        Panic p \<Rightarrow> Some (Panic p, w)
      | Err u \<Rightarrow> Some (Panic Explicit_Panic, w)
      | Ok (dur, t) \<Rightarrow> Some (Ok (), w\<lparr>w_ua := set_range t (w_ua w)\<rparr>))"

definition go_wait ::
  "'s dialog_env \<Rightarrow> (nat baseUa \<Rightarrow> TimeRange) \<Rightarrow> (TimeRange \<Rightarrow> nat baseUa \<Rightarrow> nat baseUa) \<Rightarrow> ('s, 'z, bool) dgo" where
  "go_wait env rng set_range =
     go_bind (go_get w_waits) (\<lambda>n.
     go_then (shared env (go_draw (e_rand env n) rng set_range))
     (shared env
       (go_then (go_modify (\<lambda>w. w\<lparr>w_waits := n + 1, w_media := map_option (set_counts (e_count env n)) (w_media w)\<rparr>))
          (if \<not> e_hangup env n then go_return False
           else go_bind (go_get w_done) (\<lambda>ended.
             go_then (if ended then go_return () else handleState DialogStateEnded) (go_return True))))))"

definition wait_ringing :: "'s dialog_env \<Rightarrow> ('s, 'z, bool) dgo" where
  "wait_ringing env = go_wait env ringingTimeRange (\<lambda>t u. u\<lparr>ringingTimeRange := t\<rparr>)"

definition wait_answer :: "'s dialog_env \<Rightarrow> ('s, 'z, bool) dgo" where
  "wait_answer env = go_wait env answerTimeRange (\<lambda>t u. u\<lparr>answerTimeRange := t\<rparr>)"

text \<open>
  The beginning of a dialog and what both \<open>Close\<close> functions end with: the entry of the Call-ID and
  the numbers of dialogs.
\<close>

definition enter_dialog :: "string \<Rightarrow> nat \<Rightarrow> ('s, 'z, unit) dgo" where
  "enter_dialog callId d = go_modify (\<lambda>w. w\<lparr>w_ua := enter_ua callId d (w_ua w)\<rparr>)"

definition leave_dialog :: "string \<Rightarrow> ('s, 'z, unit) dgo" where
  "leave_dialog callId = go_modify (\<lambda>w. w\<lparr>w_ua := leave_ua callId (w_ua w)\<rparr>)"

text \<open>\<open>freePort\<close> and \<open>LookupAndDelete\<close> on the dialog's ports.\<close>

definition go_freePort :: "u16 list \<Rightarrow> ('s, 'z, unit) dgo" where
  "go_freePort ps = go_modify (\<lambda>w. w\<lparr>w_ua := freePort ps (w_ua w)\<rparr>)"

definition go_lookup :: "'s dialog_env \<Rightarrow> u16 list \<Rightarrow> ('s, 'z, rtp_info list \<times> bool) dgo" where
  "go_lookup env ps =
     (\<lambda>w. case LookupAndDelete (e_ops env) ps (w_rules w) of
        (infos, e, s) \<Rightarrow> Some (Ok (infos, e = None), w\<lparr>w_rules := s\<rparr>))"

text \<open>The media's counters for the log, with or without the losses, and stopping it.\<close>

definition go_close_media :: "bool \<Rightarrow> rtp_info list \<Rightarrow> ('s, 'z, unit) dgo" where
  "go_close_media losses rx =
     go_bind (go_get w_media) (\<lambda>om.
       let st = (case om of
                   None \<Rightarrow> \<lparr>st_rx = rx, st_txPkts = 0, st_txLossPkts = 0, st_txBytes = 0\<rparr>
                 | Some m \<Rightarrow> \<lparr>st_rx = rx, st_txPkts = m_txPkts m,
                              st_txLossPkts = (if losses then m_txLossPkts m else 0), st_txBytes = m_txBytes m\<rparr>)
       in go_then (if om \<noteq> None then on_media media_Close else go_return ())
            (go_modify (\<lambda>w. w\<lparr>w_stats := Some st\<rparr>)))"

text \<open>The end that both \<open>Close\<close> functions have.\<close>

definition parting :: "'s dialog_env \<Rightarrow> bool \<Rightarrow> rtp_info list \<Rightarrow> string \<Rightarrow> ('s, 'z, unit) dgo" where
  "parting env losses rx callId = go_then (go_close_media losses rx) (shared env (leave_dialog callId))"

subsection \<open>What the calls do\<close>

lemma wp_send [wp_simps]:
  "wp (go_send env msg) Q w \<longleftrightarrow>
     Q (if e_send env (length (w_sent w)) then Ok () else Err (D_Send msg))
       (w\<lparr>w_sent := w_sent w @ [(msg, e_send env (length (w_sent w)))]\<rparr>)"
  by (simp add: wp_def go_send_def Let_def)

lemma wp_or_500 [wp_simps]:
  "wp (or_500 env m) Q w \<longleftrightarrow>
     wp m (\<lambda>r w'. case r of
       Err e \<Rightarrow> wp (go_then (go_ignore (go_send env Server_Error)) (go_fail e)) Q w' | _ \<Rightarrow> Q r w') w"
  by (auto simp: wp_def or_500_def split: option.splits res.splits prod.splits)

lemma wp_on_media [wp_simps]:
  "wp (on_media f) Q w \<longleftrightarrow>
     (case f (w_media w) of
        Ok m \<Rightarrow> Q (Ok ()) (w\<lparr>w_media := m\<rparr>) | Err u \<Rightarrow> Q (Ok ()) w | Panic p \<Rightarrow> Q (Panic p) w)"
  by (simp add: wp_def on_media_def split: res.split)

lemma wp_newMedia [wp_simps]:
  "wp (go_newMedia env remote local) Q w \<longleftrightarrow>
     (case newMedia (fst (e_tables env (w_turns w))) (snd (e_tables env (w_turns w))) remote local (w_ua w) of
        (Ok m, u) \<Rightarrow> Q (Ok ()) (w\<lparr>w_ua := u, w_media := Some m\<rparr>)
      | (Err e, u) \<Rightarrow> Q (Err (D_Media e)) (w\<lparr>w_ua := u, w_media := None\<rparr>)
      | (Panic p, u) \<Rightarrow> Q (Panic p) (w\<lparr>w_ua := u\<rparr>))"
  by (simp add: wp_def go_newMedia_def split: res.split prod.split)

lemma wp_update [wp_simps]:
  "wp (go_update env ps) Q w \<longleftrightarrow>
     (case ebpf_Update (e_ops env) ps (w_rules w) of
        (None, s) \<Rightarrow> Q (Ok ()) (w\<lparr>w_rules := s\<rparr>)
      | (Some e, s) \<Rightarrow> Q (Err D_Rules) (w\<lparr>w_rules := s\<rparr>))"
  by (auto simp: wp_def go_update_def split: option.split prod.split)

lemma wp_draw [wp_simps]:
  "wp (go_draw r rng set_range) Q w \<longleftrightarrow>
     (case tr_Get r (rng (w_ua w)) of
        Panic p \<Rightarrow> Q (Panic p) w
      | Err u \<Rightarrow> Q (Panic Explicit_Panic) w
      | Ok (dur, t) \<Rightarrow> Q (Ok ()) (w\<lparr>w_ua := set_range t (w_ua w)\<rparr>))"
  by (simp add: wp_def go_draw_def split: res.split prod.split)

lemma wp_others [wp_simps]:
  "wp (go_others env) Q w \<longleftrightarrow>
     (case e_others env (w_turns w) (w_ua w, w_rules w, w_others w) of
        (u, s, v) \<Rightarrow> Q (Ok ()) (w\<lparr>w_ua := u, w_rules := s, w_others := v, w_turns := w_turns w + 1\<rparr>))"
  by (simp add: wp_def go_others_def split: prod.split)

lemma wp_shared [wp_simps]:
  "wp (shared env m) Q w \<longleftrightarrow>
     (case e_others env (w_turns w) (w_ua w, w_rules w, w_others w) of
        (u, s, v) \<Rightarrow> wp m Q (w\<lparr>w_ua := u, w_rules := s, w_others := v, w_turns := w_turns w + 1\<rparr>))"
  by (simp add: shared_def wp_then wp_others split: prod.split)

text \<open>
  The turns of the others consist of operations of other calls. A statement is calm if the shared
  state moves by such operations only, that is, if it takes and gives back nothing for this call, and
  mute if it does not send anything, either. \<open>dialog_world.more\<close> are the fields that only one kind of
  dialog has.
\<close>

definition others_fair :: "'s dialog_env \<Rightarrow> string \<Rightarrow> bool" where
  "others_fair env callId \<longleftrightarrow> (\<forall>n x. other_ops (e_ops env) callId x (e_others env n x))"

definition world_view :: "('s, 'z) dialog_world_scheme \<Rightarrow> 's shared" where
  "world_view w = (w_ua w, w_rules w, w_others w)"

text \<open>Others that never touch the map, and no others at all.\<close>

definition leaves_rules :: "'s dialog_env \<Rightarrow> bool" where
  "leaves_rules env \<longleftrightarrow> (\<forall>n u s v. fst (snd (e_others env n (u, s, v))) = s)"

definition alone :: "'s dialog_env \<Rightarrow> bool" where
  "alone env \<longleftrightarrow> e_others env = (\<lambda>n x. x)"

definition kept :: "'s dialog_env \<Rightarrow> ('s, 'z) dialog_world_scheme \<Rightarrow> ('s, 'z) dialog_world_scheme \<Rightarrow> bool" where
  "kept env w w' \<longleftrightarrow>
     dialog_world.more w' = dialog_world.more w \<and> (leaves_rules env \<longrightarrow> w_rules w' = w_rules w)
     \<and> (alone env \<longrightarrow> w_others w' = w_others w)"

definition moved :: "'s dialog_env \<Rightarrow> string \<Rightarrow> ('s, 'z) dialog_world_scheme \<Rightarrow> ('s, 'z) dialog_world_scheme \<Rightarrow> bool" where
  "moved env callId w w' \<longleftrightarrow>
     other_ops (e_ops env) callId (world_view w) (world_view w') \<and> kept env w w'"

definition media_ok :: "('s, 'z) dialog_world_scheme \<Rightarrow> bool" where
  "media_ok w \<longleftrightarrow> (\<forall>m. w_media w = Some m \<longrightarrow> media_inv m)"

definition calm :: "'s dialog_env \<Rightarrow> string \<Rightarrow> ('s, 'z, 'a) dgo \<Rightarrow> bool" where
  "calm env callId m \<longleftrightarrow>
     (others_fair env callId \<longrightarrow> (\<forall>w0. preserves (\<lambda>w. media_ok w \<and> moved env callId w0 w) m))"

definition mute :: "'s dialog_env \<Rightarrow> string \<Rightarrow> ('s, 'z, 'a) dgo \<Rightarrow> bool" where
  "mute env callId m \<longleftrightarrow>
     (others_fair env callId \<longrightarrow>
       (\<forall>w0. preserves (\<lambda>w. media_ok w \<and> moved env callId w0 w \<and> w_sent w = w_sent w0) m))"

text \<open>A statement that only works on the call's own media and channels.\<close>

definition inward :: "('s, 'z, 'a) dgo \<Rightarrow> bool" where
  "inward m \<longleftrightarrow> (\<forall>w. media_ok w \<longrightarrow> wp m (\<lambda>r w'. media_ok w' \<and> w_sent w' = w_sent w
     \<and> dialog_world.more w' = dialog_world.more w \<and> world_view w' = world_view w) w)"

lemma kept_refl [simp]: "kept env w w"
  by (simp add: kept_def)

lemma kept_trans [trans]: "kept env w w1 \<Longrightarrow> kept env w1 w2 \<Longrightarrow> kept env w w2"
  by (simp add: kept_def)

lemma moved_refl [simp]: "moved env callId w w"
  by (simp add: moved_def)

lemma moved_trans [trans]: "moved env callId w w1 \<Longrightarrow> moved env callId w1 w2 \<Longrightarrow> moved env callId w w2"
  by (auto simp: moved_def intro: kept_trans)

lemma movedI:
  "world_view w' = world_view w \<Longrightarrow> dialog_world.more w' = dialog_world.more w \<Longrightarrow> moved env callId w w'"
  by (simp add: moved_def kept_def world_view_def)

lemma moved_step:
  "other_op (e_ops env) callId (world_view w) (world_view w') \<Longrightarrow> w_rules w' = w_rules w \<Longrightarrow> w_others w' = w_others w \<Longrightarrow>
   dialog_world.more w' = dialog_world.more w \<Longrightarrow> moved env callId w w'"
  by (simp add: moved_def kept_def r_into_rtranclp)

named_theorems calm_intros
named_theorems mute_intros

lemma calm_preserves:
  assumes "calm env callId m" and "others_fair env callId"
    and "\<And>w w'. I w \<Longrightarrow> media_ok w' \<Longrightarrow> moved env callId w w' \<Longrightarrow> I w'" and "\<And>w. I w \<Longrightarrow> media_ok w"
  shows "preserves I m"
proof (rule preservesI)
  fix w
  assume I: "I w"
  then have "wp m (\<lambda>r w'. media_ok w' \<and> moved env callId w w') w"
    using assms(1,2,4) by (intro preservesD [of "\<lambda>w'. media_ok w' \<and> moved env callId w w'"]) (simp_all add: calm_def)
  then show "wp m (\<lambda>r. I) w" by (rule wp_mono) (use assms(3) I in blast)
qed

lemma mute_preserves:
  assumes "mute env callId m" and "others_fair env callId"
    and "\<And>w w'. I w \<Longrightarrow> media_ok w' \<Longrightarrow> moved env callId w w' \<Longrightarrow> w_sent w' = w_sent w \<Longrightarrow> I w'"
    and "\<And>w. I w \<Longrightarrow> media_ok w"
  shows "preserves I m"
proof (rule preservesI)
  fix w
  assume I: "I w"
  then have "wp m (\<lambda>r w'. media_ok w' \<and> moved env callId w w' \<and> w_sent w' = w_sent w) w"
    using assms(1,2,4)
    by (intro preservesD [of "\<lambda>w'. media_ok w' \<and> moved env callId w w' \<and> w_sent w' = w_sent w"]) (simp_all add: mute_def)
  then show "wp m (\<lambda>r. I) w" by (rule wp_mono) (use assms(3) I in blast)
qed

lemma mute_calm: "mute env callId m \<Longrightarrow> calm env callId m"
  unfolding calm_def
proof (intro impI allI)
  fix w0 :: "('a, 'b) dialog_world_scheme"
  assume "mute env callId m" "others_fair env callId"
  then show "preserves (\<lambda>w. media_ok w \<and> moved env callId w0 w) m"
    by (rule mute_preserves) (auto elim: moved_trans)
qed

lemma mute_moves:
  assumes "\<And>w. others_fair env callId \<Longrightarrow> media_ok w \<Longrightarrow>
    wp m (\<lambda>r w'. media_ok w' \<and> w_sent w' = w_sent w \<and> moved env callId w w') w"
  shows "mute env callId m"
  unfolding mute_def
proof (intro impI allI preservesI, elim conjE)
  fix w0 w :: "('a, 'b) dialog_world_scheme"
  assume *: "others_fair env callId" "media_ok w" "moved env callId w0 w" "w_sent w = w_sent w0"
  from assms [OF *(1,2)] show "wp m (\<lambda>r w'. media_ok w' \<and> moved env callId w0 w' \<and> w_sent w' = w_sent w0) w"
    by (rule wp_mono) (use * in \<open>auto intro: moved_trans\<close>)
qed

lemma mute_one_step:
  assumes "\<And>w. media_ok w \<Longrightarrow> wp m (\<lambda>r w'. media_ok w' \<and> w_sent w' = w_sent w \<and> dialog_world.more w' = dialog_world.more w
    \<and> (world_view w' = world_view w \<or> other_op (e_ops env) callId (world_view w) (world_view w')
      \<and> w_rules w' = w_rules w \<and> w_others w' = w_others w)) w"
  shows "mute env callId m"
proof (rule mute_moves)
  fix w :: "('a, 'b) dialog_world_scheme"
  assume "media_ok w"
  from assms [OF this] show "wp m (\<lambda>r w'. media_ok w' \<and> w_sent w' = w_sent w \<and> moved env callId w w') w"
    by (rule wp_mono) (auto intro: movedI moved_step)
qed

lemma inward_mute: "inward m \<Longrightarrow> mute env callId m"
proof (rule mute_one_step)
  fix w :: "('a, 'b) dialog_world_scheme"
  assume "inward m" "media_ok w"
  then have "wp m (\<lambda>r w'. media_ok w' \<and> w_sent w' = w_sent w \<and> dialog_world.more w' = dialog_world.more w
    \<and> world_view w' = world_view w) w" by (simp add: inward_def)
  then show "wp m (\<lambda>r w'. media_ok w' \<and> w_sent w' = w_sent w \<and> dialog_world.more w' = dialog_world.more w
    \<and> (world_view w' = world_view w \<or> other_op (e_ops env) callId (world_view w) (world_view w')
      \<and> w_rules w' = w_rules w \<and> w_others w' = w_others w)) w"
    by (rule wp_mono) simp
qed

lemma calm_send [calm_intros]: "calm env callId (go_send env' msg)"
  by (auto simp: calm_def preserves_def wp_send media_ok_def moved_def kept_def world_view_def)

lemma mute_others [mute_intros]: "mute env callId (go_others env)"
proof (rule mute_moves)
  fix w :: "('a, 'b) dialog_world_scheme"
  assume fair: "others_fair env callId" and ok: "media_ok w"
  have "other_ops (e_ops env) callId (world_view w) (e_others env (w_turns w) (world_view w))"
    using fair unfolding others_fair_def by blast
  then show "wp (go_others env) (\<lambda>r w'. media_ok w' \<and> w_sent w' = w_sent w \<and> moved env callId w w') w"
    using ok
    by (auto simp: wp_others moved_def kept_def leaves_rules_def alone_def world_view_def media_ok_def split: prod.split)
      (metis fst_conv snd_conv)
qed

lemma newMedia_frame:
  "newMedia rtr arp remote local u = (r, u') \<Longrightarrow> \<exists>lb. u' = u\<lparr>xdpSocketsLB := lb\<rparr>"
proof -
  assume *: "newMedia rtr arp remote local u = (r, u')"
  have same: "\<exists>lb. u = u\<lparr>xdpSocketsLB := lb\<rparr>" by (intro exI [of _ "xdpSocketsLB u"]) simp
  show ?thesis
  proof (cases "u' = u")
    case True
    then show ?thesis using same by simp
  next
    case False
    with * show ?thesis
      by (auto simp: newMedia_def Let_def split: res.splits prod.splits option.splits)
  qed
qed

lemma newMedia_inv: "newMedia rtr arp remote local u = (Ok m, u') \<Longrightarrow> media_inv m"
  using newMedia_Ok [of rtr arp remote local u m u'] by (auto simp: fresh_media_def media_inv_def)

lemma newMedia_socket:
  "newMedia rtr arp remote local u = (r, u') \<Longrightarrow> u' = u \<or> (\<exists>i lb. rr_Next (xdpSocketsLB u) = Ok (i, lb) \<and> u' = u\<lparr>xdpSocketsLB := lb\<rparr>)"
  by (auto simp: newMedia_def Let_def split: res.splits prod.splits option.splits)

lemma mute_newMedia [mute_intros]: "mute env callId (go_newMedia env' remote local)"
proof (rule mute_one_step)
  fix w :: "('a, 'b) dialog_world_scheme"
  assume ok: "media_ok w"
  obtain r u where new: "newMedia (fst (e_tables env' (w_turns w))) (snd (e_tables env' (w_turns w))) remote local (w_ua w) = (r, u)" by (metis prod.exhaust)
  have view: "(u, w_rules w, w_others w) = world_view w \<or> other_op (e_ops env) callId (world_view w) (u, w_rules w, w_others w)"
    using newMedia_socket [OF new] by (auto simp: world_view_def intro: other_op.socket)
  show "wp (go_newMedia env' remote local) (\<lambda>r w'. media_ok w' \<and> w_sent w' = w_sent w \<and> dialog_world.more w' = dialog_world.more w
    \<and> (world_view w' = world_view w \<or> other_op (e_ops env) callId (world_view w) (world_view w')
      \<and> w_rules w' = w_rules w \<and> w_others w' = w_others w)) w"
    using ok new view newMedia_inv
    by (cases r) (auto simp: wp_newMedia media_ok_def, auto simp: world_view_def)
qed

lemma mute_draw [mute_intros]:
  "mute env callId (go_draw r ringingTimeRange (\<lambda>t u. u\<lparr>ringingTimeRange := t\<rparr>))"
  "mute env callId (go_draw r answerTimeRange (\<lambda>t u. u\<lparr>answerTimeRange := t\<rparr>))"
  by (rule mute_one_step, auto simp: wp_def go_draw_def media_ok_def world_view_def
      intro: other_op.ringing other_op.answering split: res.split)+

lemma inward_on_media:
  assumes "\<And>om. (\<forall>m. om = Some m \<longrightarrow> media_inv m) \<Longrightarrow> \<exists>om'. f om = Ok om' \<and> (\<forall>m. om' = Some m \<longrightarrow> media_inv m)"
  shows "inward (on_media f)"
  unfolding inward_def
proof (intro allI impI)
  fix w :: "('a, 'b) dialog_world_scheme"
  assume "media_ok w"
  from assms [OF this [unfolded media_ok_def]] obtain om where "f (w_media w) = Ok om" "\<forall>m. om = Some m \<longrightarrow> media_inv m" by blast
  then show "wp (on_media f) (\<lambda>r w'. media_ok w' \<and> w_sent w' = w_sent w \<and> dialog_world.more w' = dialog_world.more w
    \<and> world_view w' = world_view w) w"
    by (simp add: wp_on_media media_ok_def world_view_def)
qed

lemma inward_playback: "inward (on_media (playback pkts))"
proof (rule inward_on_media)
  fix om
  assume "\<forall>m. om = Some m \<longrightarrow> media_inv m"
  then show "\<exists>om'. playback pkts om = Ok om' \<and> (\<forall>m. om' = Some m \<longrightarrow> media_inv m)"
    using playback_inv [of _ pkts] by (cases om) (fastforce simp: playback_def)+
qed

lemma inward_stop: "inward (on_media stop)"
proof (rule inward_on_media)
  fix om
  assume "\<forall>m. om = Some m \<longrightarrow> media_inv m"
  then show "\<exists>om'. stop om = Ok om' \<and> (\<forall>m. om' = Some m \<longrightarrow> media_inv m)"
    using stop_inv by (cases om) (fastforce simp: stop_def)+
qed

lemma media_inv_counts: "media_inv (set_counts c m) = media_inv m"
  by (simp add: media_inv_def set_counts_def)

lemma inward_pure:
  "inward (go_return x)" "inward (go_fail e)" "inward (go_panic p)" "inward (go_get f)" "inward (go_lift r)"
  by (simp_all add: inward_def wp_simps)

lemma inward_state: "inward (handleState s)"
  by (cases s) (auto simp: inward_def handleState_def wp_def go_return_def media_ok_def world_view_def)

lemma inward_cancel: "inward (go_modify (\<lambda>w. w\<lparr>w_cancelled := True\<rparr>))"
  by (simp add: inward_def wp_simps media_ok_def world_view_def)

lemma inward_counts: "inward (go_modify (\<lambda>w. w\<lparr>w_waits := n, w_media := map_option (set_counts c) (w_media w)\<rparr>))"
  by (auto simp: inward_def wp_simps media_ok_def media_inv_counts world_view_def)

lemmas inward_calls = inward_playback inward_stop inward_pure inward_state inward_cancel inward_counts

lemmas mute_calls [mute_intros] = inward_calls [THEN inward_mute]

lemma mute_composed [mute_intros]:
  "mute env callId m \<Longrightarrow> (\<And>x. mute env callId (f x)) \<Longrightarrow> mute env callId (go_bind m f)"
  "mute env callId m \<Longrightarrow> mute env callId n \<Longrightarrow> mute env callId (go_then m n)"
  "mute env callId m \<Longrightarrow> (\<And>x. mute env callId (f x)) \<Longrightarrow> (\<And>e. mute env callId (h e)) \<Longrightarrow> mute env callId (go_try m f h)"
  unfolding mute_def by (auto intro: preserves_intros)

lemma calm_composed [calm_intros]:
  "calm env callId m \<Longrightarrow> (\<And>x. calm env callId (f x)) \<Longrightarrow> calm env callId (go_bind m f)"
  "calm env callId m \<Longrightarrow> calm env callId n \<Longrightarrow> calm env callId (go_then m n)"
  "calm env callId m' \<Longrightarrow> calm env callId (go_ignore m')"
  "calm env callId dm \<Longrightarrow> calm env callId m \<Longrightarrow> calm env callId (go_defer dm m)"
  unfolding calm_def by (auto intro: preserves_intros)

lemma mute_shared [mute_intros]: "mute env callId m \<Longrightarrow> mute env callId (shared env m)"
  unfolding shared_def by (rule mute_composed(2) [OF mute_others])

lemma mute_if [mute_intros]:
  "(b \<Longrightarrow> mute env callId m) \<Longrightarrow> (\<not> b \<Longrightarrow> mute env callId n) \<Longrightarrow> mute env callId (if b then m else n)"
  by simp

lemma calm_if [calm_intros]:
  "(b \<Longrightarrow> calm env callId m) \<Longrightarrow> (\<not> b \<Longrightarrow> calm env callId n) \<Longrightarrow> calm env callId (if b then m else n)"
  by simp

lemma mute_case_res [mute_intros]:
  "(\<And>x. r = Ok x \<Longrightarrow> mute env callId (f x)) \<Longrightarrow> (\<And>e. r = Err e \<Longrightarrow> mute env callId (g e)) \<Longrightarrow>
   (\<And>p. r = Panic p \<Longrightarrow> mute env callId (h p)) \<Longrightarrow>
   mute env callId (case r of Ok x \<Rightarrow> f x | Err e \<Rightarrow> g e | Panic p \<Rightarrow> h p)"
  by (cases r) auto

lemma mute_wait [mute_intros]: "mute env callId (wait_ringing env)" "mute env callId (wait_answer env)"
  unfolding wait_ringing_def wait_answer_def go_wait_def by (intro mute_intros)+

lemma preserves_or_500:
  assumes "preserves I m" "preserves I (go_send env Server_Error)"
  shows "preserves I (or_500 env m)"
proof (rule preservesI, unfold wp_or_500, rule wp_mono [OF preservesD [OF assms(1)]])
  fix r w'
  assume "I w'"
  then have "wp (go_then (go_ignore (go_send env Server_Error)) (go_fail e)) (\<lambda>r. I) w'" for e
    using assms(2) by (intro preservesD [of I]) (auto intro: preserves_intros)
  then show "case r of Err e \<Rightarrow> wp (go_then (go_ignore (go_send env Server_Error)) (go_fail e)) (\<lambda>r. I) w' | _ \<Rightarrow> I w'"
    using \<open>I w'\<close> by (cases r) simp_all
qed

lemma preserves_shared:
  "preserves I (go_others env) \<Longrightarrow> preserves I m \<Longrightarrow> preserves I (shared env m)"
  unfolding shared_def by (rule preserves_then)

lemma calm_or_500 [calm_intros]: "calm env callId m \<Longrightarrow> calm env callId (or_500 env' m)"
  using calm_send unfolding calm_def by (blast intro: preserves_or_500)

lemmas calm_calls [calm_intros] = mute_newMedia [THEN mute_calm] mute_calls [THEN mute_calm]
  mute_wait [THEN mute_calm] mute_others [THEN mute_calm]

lemma calm_shared [calm_intros]: "calm env callId m \<Longrightarrow> calm env callId (shared env m)"
  unfolding shared_def by (intro calm_composed calm_calls)

subsection \<open>The ends of a dialog\<close>

lemma wp_lookup [wp_simps]:
  "wp (go_lookup env ps) Q w \<longleftrightarrow>
     (let (infos, e, s) = LookupAndDelete (e_ops env) ps (w_rules w) in Q (Ok (infos, e = None)) (w\<lparr>w_rules := s\<rparr>))"
  by (auto simp: wp_def go_lookup_def split: prod.split)

lemma wp_close_media:
  assumes "media_ok w"
  shows "wp (go_close_media losses rx) Q w \<longleftrightarrow>
    (\<exists>st om. (\<forall>m. om = Some m \<longrightarrow> media_inv m \<and> \<not> m_playing m) \<and> Q (Ok ()) (w\<lparr>w_media := om, w_stats := Some st\<rparr>)
      \<and> st = (case w_media w of
          None \<Rightarrow> \<lparr>st_rx = rx, st_txPkts = 0, st_txLossPkts = 0, st_txBytes = 0\<rparr>
        | Some m \<Rightarrow> \<lparr>st_rx = rx, st_txPkts = m_txPkts m, st_txLossPkts = (if losses then m_txLossPkts m else 0), st_txBytes = m_txBytes m\<rparr>)
      \<and> media_Close (w_media w) = Ok om)"
proof (cases "w_media w")
  case None
  then show ?thesis by (cases w) (simp add: go_close_media_def wp_simps media_Close_def stop_def)
next
  case (Some m)
  then have "media_inv m" using assms by (simp add: media_ok_def)
  then obtain m' where m': "stop (Some m) = Ok (Some m')" "media_inv m'" "\<not> m_playing m'" using stop_inv by blast
  have "wp (on_media media_Close) R w \<longleftrightarrow> R (Ok ()) (w\<lparr>w_media := Some m'\<rparr>)" for R
    using Some m'(1) by (simp add: wp_def on_media_def media_Close_def)
  then show ?thesis
    using Some m' by (cases losses) (simp_all add: go_close_media_def wp_simps media_Close_def Let_def)
qed

text \<open>Where the media sends and what it was given to play.\<close>

definition media_view :: "('s, 'z) dialog_world_scheme \<Rightarrow> ((bytes \<times> int) \<times> Packet list list) option" where
  "media_view w = map_option (\<lambda>m. (m_dest m, m_jobs m)) (w_media w)"

lemma media_view_cancelled [simp]: "media_view (w\<lparr>w_cancelled := b\<rparr>) = media_view w"
  by (simp add: media_view_def)

text \<open>The jobs of a playback: none without packets.\<close>

definition played_jobs :: "Packet list list \<Rightarrow> Packet list list" where
  "played_jobs = filter (\<lambda>pkts. pkts \<noteq> [])"

lemma playback_jobs:
  "media_inv m \<Longrightarrow> \<exists>m'. playback pkts (Some m) = Ok (Some m') \<and> media_inv m' \<and> m_dest m' = m_dest m
    \<and> m_jobs m' = m_jobs m @ (if pkts = [] then [] else [pkts])"
proof -
  assume inv: "media_inv m"
  from playback_inv [OF this, of pkts] obtain m' where
    m': "playback pkts (Some m) = Ok (Some m')" "media_inv m'" "m_jobs m' = m_jobs m @ (if pkts = [] then [] else [pkts])"
    by blast
  then have "m_dest m' = m_dest m"
    by (auto simp: playback_def close_done_def split: if_splits option.splits)
  with m' show ?thesis by blast
qed

lemma media_Close_keeps:
  assumes "media_Close om = Ok om'" "\<forall>m. om = Some m \<longrightarrow> media_inv m"
  shows "map_option m_dest om' = map_option m_dest om" "map_option m_jobs om' = map_option m_jobs om"
proof -
  have "map_option m_dest om' = map_option m_dest om \<and> map_option m_jobs om' = map_option m_jobs om"
  proof (cases om)
    case None
    then show ?thesis using assms(1) by (simp add: media_Close_def stop_def)
  next
    case (Some m)
    with assms(2) stop_inv [of m] obtain m' where m': "stop (Some m) = Ok (Some m')" "m_jobs m' = m_jobs m" by blast
    then have "m_dest m' = m_dest m"
      by (auto simp: stop_def close_done_def Let_def split: if_splits option.splits)
    then show ?thesis using assms(1) Some m' by (auto simp: media_Close_def)
  qed
  then show "map_option m_dest om' = map_option m_dest om" "map_option m_jobs om' = map_option m_jobs om" by simp_all
qed

text \<open>\<open>Close\<close> undoes what the invariant accounts for, whatever the lookup answers.\<close>

lemma media_Close_view: "media_Close (w_media w) = Ok (w_media w') \<Longrightarrow> media_ok w \<Longrightarrow> media_view w' = media_view w"
  using media_Close_keeps [of "w_media w" "w_media w'"]
  by (cases "w_media w"; cases "w_media w'") (simp_all add: media_view_def media_ok_def)

text \<open>Everything a call took has been given back: what is left is what the others have.\<close>

definition released :: "string \<Rightarrow> ('s, 'z) dialog_world_scheme \<Rightarrow> bool" where
  "released callId w \<longleftrightarrow>
     pool_wf (w_ua w) \<and> ports (w_ua w) = ports (w_others w)
     \<and> dialogs (w_ua w) = (dialogs (w_others w))(callId := None)
     \<and> metricsCurrentDialogs (w_ua w) = metricsCurrentDialogs (w_others w)
     \<and> metricsDialogs (w_ua w) = metricsDialogs (w_others w) + 1
     \<and> (\<forall>m. w_media w = Some m \<longrightarrow> \<not> m_playing m)"

text \<open>A turn of the others, whatever is done after it.\<close>

lemma wp_turn:
  assumes "others_fair env callId" "shared_inv callId d ps (world_view w)"
    and "\<And>u s v. shared_inv callId d ps (u, s, v) \<Longrightarrow> same_settings (w_ua w) u \<Longrightarrow> (leaves_rules env \<longrightarrow> s = w_rules w) \<Longrightarrow>
      (alone env \<longrightarrow> v = w_others w) \<Longrightarrow>
      wp m Q (w\<lparr>w_ua := u, w_rules := s, w_others := v, w_turns := w_turns w + 1\<rparr>)"
  shows "wp (shared env m) Q w"
proof -
  obtain u s v where turn: "e_others env (w_turns w) (world_view w) = (u, s, v)" by (metis prod_cases3)
  have ops: "other_ops (e_ops env) callId (world_view w) (u, s, v)"
    using assms(1) turn unfolding others_fair_def by metis
  have "leaves_rules env \<longrightarrow> s = w_rules w"
    using turn unfolding leaves_rules_def world_view_def by (metis fst_conv snd_conv)
  moreover have "alone env \<longrightarrow> v = w_others w"
    using turn by (auto simp: alone_def world_view_def)
  ultimately have "wp m Q (w\<lparr>w_ua := u, w_rules := s, w_others := v, w_turns := w_turns w + 1\<rparr>)"
    using other_ops_inv [OF ops assms(2)] other_ops_settings [OF ops assms(2)]
    by (intro assms(3)) (simp_all add: world_view_def)
  then show ?thesis using turn by (simp add: wp_shared world_view_def)
qed

text \<open>A wait of an agent whose ranges are fine.\<close>

lemma wp_go_wait:
  fixes w :: "('s, 'z) dialog_world_scheme"
  assumes fair: "others_fair env callId" and inv: "shared_inv callId d ps (world_view w)"
    and fine: "well_equipped (w_ua w)" "\<not> w_done w"
    and rng: "\<And>u. well_equipped u \<Longrightarrow> range_fine (rng u)"
    and set_range: "\<And>u t. range_fine t \<Longrightarrow> same_settings u (set_range t u)"
      "\<And>u t (s :: 's) v. shared_inv callId d ps (u, s, v) \<Longrightarrow> shared_inv callId d ps (set_range t u, s, v)"
    and Q: "\<And>u s v t. shared_inv callId d ps (u, s, v) \<Longrightarrow> same_settings (w_ua w) u \<Longrightarrow> (leaves_rules env \<longrightarrow> s = w_rules w) \<Longrightarrow>
      (alone env \<longrightarrow> v = w_others w) \<Longrightarrow>
      Q (Ok (e_hangup env (w_waits w)))
        (w\<lparr>w_ua := u, w_rules := s, w_others := v, w_turns := t, w_media := map_option (set_counts (e_count env (w_waits w))) (w_media w),
          w_done := e_hangup env (w_waits w), w_waits := w_waits w + 1\<rparr>)"
  shows "wp (go_wait env rng set_range) Q w"
proof -
  let ?n = "w_waits w"
  let ?rest = "go_then (go_modify (\<lambda>w. w\<lparr>w_waits := ?n + 1, w_media := map_option (set_counts (e_count env ?n)) (w_media w)\<rparr>))
      (if \<not> e_hangup env ?n then go_return False
       else go_bind (go_get w_done) (\<lambda>ended. go_then (if ended then go_return () else handleState DialogStateEnded) (go_return True)))
    :: ('s, 'z, bool) dgo"
  have "wp (shared env (go_draw (e_rand env ?n) rng set_range))
      (\<lambda>r w'. case r of Ok x \<Rightarrow> wp (shared env ?rest) Q w' | Err e \<Rightarrow> Q (Err e) w' | Panic p \<Rightarrow> Q (Panic p) w') w"
  proof (rule wp_turn [OF fair inv])
    fix u s v
    assume 1: "shared_inv callId d ps (u, s, v)" "same_settings (w_ua w) u" "leaves_rules env \<longrightarrow> s = w_rules w"
      "alone env \<longrightarrow> v = w_others w"
    then have eq: "well_equipped u" using fine(1) by (simp add: same_settings_def)
    from range_fine_Get [OF rng [OF eq], of "e_rand env ?n"] obtain dur t where
      t: "tr_Get (e_rand env ?n) (rng u) = Ok (dur, t)" "range_fine t" by blast
    let ?w1 = "w\<lparr>w_ua := set_range t u, w_rules := s, w_others := v, w_turns := w_turns w + 1\<rparr>"
    have "wp (shared env ?rest) Q ?w1"
    proof (rule wp_turn [OF fair])
      show "shared_inv callId d ps (world_view ?w1)" using set_range(2) [OF 1(1)] by (simp add: world_view_def)
      fix u' s' v'
      assume 2: "shared_inv callId d ps (u', s', v')" "same_settings (w_ua ?w1) u'" "leaves_rules env \<longrightarrow> s' = w_rules ?w1"
        "alone env \<longrightarrow> v' = w_others ?w1"
      have "same_settings (w_ua w) u'" using 1(2) 2(2) set_range(1) [OF t(2), of u] by (simp add: same_settings_def)
      from Q [OF 2(1) this, of "w_turns w + 2"] 1 2
      have "Q (Ok (e_hangup env ?n)) (w\<lparr>w_ua := u', w_rules := s', w_others := v', w_turns := w_turns w + 2,
        w_media := map_option (set_counts (e_count env ?n)) (w_media w), w_done := e_hangup env ?n, w_waits := ?n + 1\<rparr>)"
        by simp
      then show "wp ?rest Q (?w1\<lparr>w_ua := u', w_rules := s', w_others := v', w_turns := w_turns ?w1 + 1\<rparr>)"
        using fine(2)
        by (cases w; cases "e_hangup env ?n")
          (simp_all add: wp_def go_then_def go_bind_def go_modify_def go_return_def go_get_def handleState_def)
    qed
    then show "wp (go_draw (e_rand env ?n) rng set_range)
        (\<lambda>r w'. case r of Ok x \<Rightarrow> wp (shared env ?rest) Q w' | Err e \<Rightarrow> Q (Err e) w' | Panic p \<Rightarrow> Q (Panic p) w')
        (w\<lparr>w_ua := u, w_rules := s, w_others := v, w_turns := w_turns w + 1\<rparr>)"
      using t(1) by (cases w) (simp add: wp_draw)
  qed
  then show ?thesis
    unfolding go_wait_def wp_bind [of "go_get f" for f] wp_get res.case wp_then [of "shared env m" for m] .
qed

lemma wp_waits:
  fixes w :: "('s, 'z) dialog_world_scheme"
  assumes "others_fair env callId" "shared_inv callId d ps (world_view w)" "well_equipped (w_ua w)" "\<not> w_done w"
    and "\<And>u s v t. shared_inv callId d ps (u, s, v) \<Longrightarrow> same_settings (w_ua w) u \<Longrightarrow> (leaves_rules env \<longrightarrow> s = w_rules w) \<Longrightarrow>
      (alone env \<longrightarrow> v = w_others w) \<Longrightarrow>
      Q (Ok (e_hangup env (w_waits w)))
        (w\<lparr>w_ua := u, w_rules := s, w_others := v, w_turns := t, w_media := map_option (set_counts (e_count env (w_waits w))) (w_media w),
          w_done := e_hangup env (w_waits w), w_waits := w_waits w + 1\<rparr>)"
  shows "wp (wait_ringing env) Q w" "wp (wait_answer env) Q w"
  unfolding wait_ringing_def wait_answer_def
  by (rule wp_go_wait [OF assms(1-4)]; (rule assms(5), assumption+)?;
      auto simp: same_settings_def well_equipped_def shared_inv_def pool.owned_since_def pool_wf_def)+

text \<open>Giving the ports back and collecting their counters.\<close>

lemma wp_give_ports:
  assumes fair: "others_fair env callId" and ok: "media_ok w" and inv: "shared_inv callId d ps (world_view w)"
    and rest: "\<And>infos e u s v t. length infos = length ps \<Longrightarrow> shared_inv callId d [] (u, s, v) \<Longrightarrow>
      (leaves_rules env \<longrightarrow> (infos, e, s) = LookupAndDelete (e_ops env) ps (w_rules w)) \<Longrightarrow>
      (alone env \<longrightarrow> v = w_others w) \<Longrightarrow>
      wp (f (infos, e = None)) Q (w\<lparr>w_ua := u, w_rules := s, w_others := v, w_turns := t\<rparr>)"
  shows "wp (go_then (shared env (go_freePort ps)) (go_bind (shared env (go_lookup env ps)) f)) Q w"
  unfolding wp_then [of "shared env m" for m]
proof (rule wp_turn [OF fair inv])
  fix u s v
  assume 1: "shared_inv callId d ps (u, s, v)" "leaves_rules env \<longrightarrow> s = w_rules w" "alone env \<longrightarrow> v = w_others w"
  let ?w1 = "w\<lparr>w_ua := freePort ps u, w_rules := s, w_others := v, w_turns := w_turns w + 1\<rparr>"
  have inv1: "shared_inv callId d [] (world_view ?w1)" using freePort_shared [OF 1(1)] by (simp add: world_view_def)
  have "wp (go_bind (shared env (go_lookup env ps)) f) Q ?w1"
    unfolding wp_bind
  proof (rule wp_turn [OF fair inv1])
    fix u' s' v'
    assume 2: "shared_inv callId d [] (u', s', v')" "leaves_rules env \<longrightarrow> s' = w_rules ?w1" "alone env \<longrightarrow> v' = w_others ?w1"
    obtain infos e s'' where lad: "LookupAndDelete (e_ops env) ps s' = (infos, e, s'')" by (metis prod_cases3)
    have "wp (f (infos, e = None)) Q (w\<lparr>w_ua := u', w_rules := s'', w_others := v', w_turns := w_turns w + 1 + 1\<rparr>)"
    proof (rule rest)
      show "length infos = length ps" using lad LookupAndDelete_length [of "e_ops env" ps s'] by simp
      show "shared_inv callId d [] (u', s'', v')" using 2(1) by (simp add: shared_inv_def)
    qed (use 1 2 lad in auto)
    then show "wp (go_lookup env ps) (\<lambda>r s'. case r of Ok x \<Rightarrow> wp (f x) Q s' | Err e \<Rightarrow> Q (Err e) s' | Panic p \<Rightarrow> Q (Panic p) s')
        (?w1\<lparr>w_ua := u', w_rules := s', w_others := v', w_turns := w_turns ?w1 + 1\<rparr>)"
      using lad by (cases w) (simp add: wp_lookup)
  qed
  then show "wp (go_freePort ps) (\<lambda>r s'. case r of Ok x \<Rightarrow> wp (go_bind (shared env (go_lookup env ps)) f) Q s'
      | Err e \<Rightarrow> Q (Err e) s' | Panic p \<Rightarrow> Q (Panic p) s')
      (w\<lparr>w_ua := u, w_rules := s, w_others := v, w_turns := w_turns w + 1\<rparr>)"
    by (cases w) (simp add: go_freePort_def wp_modify)
qed

lemma wp_parting:
  assumes fair: "others_fair env callId" and ok: "media_ok w" and inv: "shared_inv callId d [] (world_view w)"
  shows "wp (parting env losses rx callId) (\<lambda>r w'. r = Ok () \<and> released callId w' \<and> w_stats w' \<noteq> None
    \<and> w_sent w' = w_sent w \<and> media_Close (w_media w) = Ok (w_media w') \<and> kept env w w') w"
proof -
  have "\<exists>om. media_Close (w_media w) = Ok om \<and> (\<forall>m. om = Some m \<longrightarrow> media_inv m \<and> \<not> m_playing m)"
    using ok stop_inv by (cases "w_media w") (fastforce simp: media_Close_def stop_def media_ok_def)+
  then obtain om where om: "media_Close (w_media w) = Ok om" "\<forall>m. om = Some m \<longrightarrow> media_inv m \<and> \<not> m_playing m" by blast
  have "wp (shared env (leave_dialog callId)) (\<lambda>r w'. r = Ok () \<and> released callId w' \<and> w_stats w' \<noteq> None
    \<and> w_sent w' = w_sent w \<and> om = w_media w' \<and> kept env w w') (w\<lparr>w_media := om, w_stats := Some st\<rparr>)" (is "wp _ _ ?w1") for st
  proof (rule wp_turn [OF fair])
    show "shared_inv callId d [] (world_view ?w1)" using inv by (simp add: world_view_def)
    fix u s v
    assume "shared_inv callId d [] (u, s, v)" "leaves_rules env \<longrightarrow> s = w_rules ?w1" "alone env \<longrightarrow> v = w_others ?w1"
    with leave_shared [OF this(1)] om(2)
    show "wp (leave_dialog callId) (\<lambda>r w'. r = Ok () \<and> released callId w' \<and> w_stats w' \<noteq> None
      \<and> w_sent w' = w_sent w \<and> om = w_media w' \<and> kept env w w')
      (?w1\<lparr>w_ua := u, w_rules := s, w_others := v, w_turns := w_turns ?w1 + 1\<rparr>)"
      by (auto simp: leave_dialog_def wp_modify released_def kept_def)
  qed
  then show ?thesis
    using om unfolding parting_def wp_then [of "go_close_media losses rx"] wp_close_media [OF ok] by auto
qed

subsection \<open>When everything goes well\<close>

text \<open>
  The port that a call gets after the first turn of the others, and what is shared when it is
  registered, after their second.
\<close>

definition gets_port :: "'s dialog_env \<Rightarrow> string \<Rightarrow> nat \<Rightarrow> ('s, 'z) dialog_world_scheme \<Rightarrow> (u16 \<times> 's shared) option" where
  "gets_port env callId d w =
     (case e_others env (w_turns w) (enter_ua callId d (w_ua w), w_rules w, w_ua w) of
        (u, s, v) \<Rightarrow>
          (case getPort u of
             Some (Ok (p, u')) \<Rightarrow> Some (p, e_others env (w_turns w + 1) (u', s, v))
           | _ \<Rightarrow> None))"

text \<open>There is one if ten numbers are free after the first turn.\<close>

lemma gets_port_room:
  assumes "others_fair env callId" "pool_wf (w_ua w)" "in_int64 (metricsCurrentDialogs (w_ua w))"
    and turn: "e_others env (w_turns w) (enter_ua callId d (w_ua w), w_rules w, w_ua w) = (u, s, v)"
    and "10 \<le> portsMax u - portsUsed u"
  shows "\<exists>p u' s' v'. gets_port env callId d w = Some (p, u', s', v')"
proof -
  have "other_ops (e_ops env) callId (enter_ua callId d (w_ua w), w_rules w, w_ua w) (u, s, v)"
    using assms(1) turn unfolding others_fair_def by metis
  from other_ops_inv [OF this enter_shared [OF assms(2,3)]] have "pool_wf u"
    by (simp add: shared_inv_def pool.owned_since_def)
  with getPort_wf_cases [of u] assms(5) obtain p u' where "getPort u = Some (Ok (p, u'))" by auto
  then show ?thesis
    using turn by (cases "e_others env (w_turns w + 1) (u', s, v)") (simp add: gets_port_def)
qed

lemma gets_port_turns:
  fixes w :: "('s, 'z) dialog_world_scheme"
  assumes fair: "others_fair env callId" and inv0: "shared_inv callId d [] (enter_ua callId d (w_ua w), w_rules w, w_ua w)"
    and got: "gets_port env callId d w = Some (p, u, s, v)"
  shows "\<exists>u1 s1 v1 u2. e_others env (w_turns w) (enter_ua callId d (w_ua w), w_rules w, w_ua w) = (u1, s1, v1)
    \<and> getPort u1 = Some (Ok (p, u2)) \<and> e_others env (w_turns w + 1) (u2, s1, v1) = (u, s, v)
    \<and> shared_inv callId d [p] (u, s, v) \<and> same_settings (w_ua w) u \<and> p \<notin> ports v \<and> RtpPortMin (w_ua w) \<le> uint p
    \<and> (alone env \<longrightarrow> v = w_ua w)"
proof -
  obtain u1 s1 v1 where turn1: "e_others env (w_turns w) (enter_ua callId d (w_ua w), w_rules w, w_ua w) = (u1, s1, v1)"
    by (metis prod_cases3)
  with got obtain u2 where u2: "getPort u1 = Some (Ok (p, u2))" "e_others env (w_turns w + 1) (u2, s1, v1) = (u, s, v)"
    by (auto simp: gets_port_def split: option.splits res.splits)
  have ops1: "other_ops (e_ops env) callId (enter_ua callId d (w_ua w), w_rules w, w_ua w) (u1, s1, v1)"
    and ops2: "other_ops (e_ops env) callId (u2, s1, v1) (u, s, v)"
    using fair turn1 u2(2) unfolding others_fair_def by metis+
  note inv1 = other_ops_inv [OF ops1 inv0]
  note inv2 = getPort_shared(1) [OF inv1 u2(1), unfolded append_Nil]
  note inv3 = other_ops_inv [OF ops2 inv2]
  have wf: "pool_wf u1" using inv1 by (simp add: shared_inv_def pool.owned_since_def)
  have min: "RtpPortMin u2 = RtpPortMin u1" "RtpPortMin u1 \<le> uint p" using getPort_wf_cases [OF wf] u2(1) by auto
  then have "same_settings u1 u2"
    by (simp add: same_settings_def well_equipped_def baseUa_more [OF getPort_more [OF wf u2(1)]])
  moreover have "same_settings (w_ua w) (enter_ua callId d (w_ua w))"
    by (simp add: same_settings_def enter_ua_def well_equipped_def)
  ultimately have "same_settings (w_ua w) u"
    using other_ops_settings [OF ops1 inv0] other_ops_settings [OF ops2 inv2] by (simp add: same_settings_def)
  moreover have "RtpPortMin (w_ua w) \<le> uint p"
    using other_ops_settings [OF ops1 inv0] min(2) by (simp add: same_settings_def enter_ua_def)
  moreover have "p \<notin> ports v" using inv3 by (auto simp: shared_inv_def pool.owned_since_def)
  moreover have "alone env \<longrightarrow> v = w_ua w" using turn1 u2(2) by (auto simp: alone_def)
  ultimately show ?thesis using turn1 u2 inv3 by blast
qed

text \<open>At any time a route to the peer, and the next hop's address.\<close>

definition reachable_peer :: "'s dialog_env \<Rightarrow> string \<Rightarrow> bool" where
  "reachable_peer env a \<longleftrightarrow>
     (\<forall>n. \<exists>f gateway src mac. routing_Route (fst (e_tables env n)) (ParseIP a) = Ok (Some f, gateway, src)
        \<and> length (HardwareAddr f) = 6 \<and> length mac = 6
        \<and> arp_Get (snd (e_tables env n)) (case gateway of None \<Rightarrow> a | Some g \<Rightarrow> ip_String g) = Some mac)"

lemma newMedia_fine:
  assumes "reachable_peer env (addr remote)" "well_equipped u"
  shows "\<exists>m u'. newMedia (fst (e_tables env n)) (snd (e_tables env n)) remote local u = (Ok m, u') \<and> media_inv m
    \<and> ringingTimeRange u' = ringingTimeRange u \<and> answerTimeRange u' = answerTimeRange u"
proof -
  from assms obtain m u' where new: "newMedia (fst (e_tables env n)) (snd (e_tables env n)) remote local u = (Ok m, u')"
    using newMedia_succeeds [of "fst (e_tables env n)" remote _ _ _ "snd (e_tables env n)" _ u local]
    unfolding reachable_peer_def well_equipped_def by blast
  from newMedia_frame [OF this] newMedia_inv [OF this] new show ?thesis by auto
qed

text \<open>An idle agent on an interface of its own.\<close>

definition sample_agent :: "nat baseUa" where
  "sample_agent = (blank_ua sample_config)\<lparr>sockets := [sample_socket], xdpSocketsLB := NewRoundRobin [0]\<rparr>"

definition sample_peer :: session_description where
  "sample_peer = \<lparr>sd_Connection = Some (Some (show_ipv4 [10, 0, 0, 2])),
     sd_Medias = [\<lparr>md_Media = ''audio'', md_Port = 5000, md_Connection = None\<rparr>]\<rparr>"

text \<open>Another call takes a port in its second turn and enters the table in its third.\<close>

definition sample_others :: "nat \<Rightarrow> 's shared \<Rightarrow> 's shared" where
  "sample_others n x =
     (case x of (u, s, v) \<Rightarrow>
        if n = 1 then (case getPort u of Some (Ok (p, u')) \<Rightarrow> (u', s, v\<lparr>ports := insert p (ports v)\<rparr>) | _ \<Rightarrow> (u, s, v))
        else if n = 2 then (enter_ua ''other'' 9 u, s, enter_ua ''other'' 9 v)
        else (u, s, v))"

definition sample_calls :: "(u64 \<times> rtp_info) list dialog_env" where
  "sample_calls =
     \<lparr>e_ops = hash_ops, e_others = sample_others, e_tables = (\<lambda>n. (Some sample_router, sample_arp)),
      e_unmarshal = (\<lambda>_. Some sample_peer),
      e_parts = (\<lambda>_ _. []), e_mime = (\<lambda>_. None), e_addr = ''10.0.0.1'', e_send = (\<lambda>_. True),
      e_hangup = (\<lambda>_. False), e_rand = (\<lambda>_. 0), e_count = (\<lambda>_. (0, 0, 0))\<rparr>"

lemma sample_fair: "others_fair sample_calls ''id''"
  unfolding others_fair_def
proof (intro allI)
  fix n and x :: "(u64 \<times> rtp_info) list shared"
  obtain u s v where x: "x = (u, s, v)" by (cases x)
  have "sample_others n x = x \<or> other_op (e_ops sample_calls) ''id'' x (sample_others n x)"
    using other_op.take [of u _ _ "e_ops sample_calls" "''id''" s v] other_op.enter [of "''other''" "''id''" "e_ops sample_calls" u s v 9]
    by (auto simp: sample_others_def x split: option.split res.split)
  then show "other_ops (e_ops sample_calls) ''id'' x (e_others sample_calls n x)"
    by (auto simp: sample_calls_def)
qed

lemma wrap64_40000: "wrap64 40000 = 40000"
  by (rule wrap64_id) (simp add: in_int64_def)

lemma sample_agent_facts:
  "pool_wf sample_agent" "well_equipped sample_agent" "portsMax sample_agent - portsUsed sample_agent = 40000"
  "in_int64 (metricsCurrentDialogs sample_agent)" "0 < RtpPortMin sample_agent"
proof -
  have "pool_wf (new_pool 20000 60000)" by (rule new_pool_wf) (simp add: range_ok_def)
  then show "pool_wf sample_agent"
    by (simp add: sample_agent_def blank_ua_def sample_config_def pool_wf_def new_pool_def wrap64_40000)
  have "tr_from [Fixed 0 None] (Weighted (timeSingle 0 0)) \<and> (\<forall>s \<in> set [Fixed 0 None]. spec_fits s)" by simp
  then have "range_fine (Weighted (timeSingle 0 0))" unfolding range_fine_def by blast
  then show "well_equipped sample_agent"
    by (simp add: well_equipped_def sample_agent_def blank_ua_def rr_wf_def NewRoundRobin_def)
qed (simp_all add: sample_agent_def blank_ua_def sample_config_def in_int64_def wrap64_40000)

lemma sample_infos:
  "getAudioMediaFromSDP (e_unmarshal sample_calls) body = Ok [sample_remote]"
  by (simp add: getAudioMediaFromSDP_def sample_calls_def sample_peer_def conn_addr_def sample_remote_def)

lemma sample_reachable: "reachable_peer sample_calls (addr sample_remote)"
proof -
  have "ParseIP (addr sample_remote) = v4_in_v6 @ [10, 0, 0, 2]"
    unfolding sample_remote_def mediaInfo.simps by (rule ParseIP_show) simp
  then have "To4 (ParseIP (addr sample_remote)) \<noteq> None" by (simp add: To4_def v4_in_v6_def)
  then have "routing_Route (Some sample_router) (ParseIP (addr sample_remote)) =
      Ok (Some \<lparr>if_Index = 2, HardwareAddr = [2, 0, 0, 0, 0, 1]\<rparr>, None, None)"
    by (simp add: routing_Route_def Route_def RouteWithSrc_def route_def sample_router_def)
  moreover have "arp_Get sample_arp (addr sample_remote) = Some [2, 0, 0, 0, 0, 2]"
    by (simp add: sample_arp_def sample_remote_def arp_Get_def)
  ultimately show ?thesis by (simp add: reachable_peer_def sample_calls_def)
qed

lemma sample_updates: "fst (ebpf_Update (e_ops sample_calls) [p, p + 1] []) = None"
  by (simp add: ebpf_Update_def sample_calls_def hash_ops_def max_entries_def)

lemma sample_gets_port:
  assumes "e_others env = sample_others" "others_fair env ''id''"
    and "w_ua w = sample_agent" "w_rules w = []" "w_turns w = 0"
  shows "\<exists>p u v. gets_port env ''id'' 3 w = Some (p, u, [], v)"
proof -
  have "e_others env (w_turns w) (enter_ua ''id'' 3 (w_ua w), w_rules w, w_ua w) = (enter_ua ''id'' 3 sample_agent, [], sample_agent)"
    by (simp add: assms sample_others_def)
  moreover have "10 \<le> portsMax (enter_ua ''id'' 3 sample_agent) - portsUsed (enter_ua ''id'' 3 sample_agent)"
    using sample_agent_facts by (simp add: enter_ua_def)
  moreover have "pool_wf (w_ua w)" "in_int64 (metricsCurrentDialogs (w_ua w))" using sample_agent_facts assms(3) by simp_all
  ultimately obtain p x where "gets_port env ''id'' 3 w = Some (p, x)"
    using gets_port_room [OF assms(2)] by blast
  then show ?thesis
    by (auto simp: gets_port_def assms sample_others_def split: option.splits res.splits)
qed

end
