(* ===== verification/Calls_Par.thy ===== *)
theory Calls_Par
  imports Dialog
begin

section \<open>All calls of an agent together\<close>

text \<open>
  Any number of calls work on the agent and the kernel's map, one operation after another in any
  order. Here each operation is done by a call, which is known by its Call-ID and has the ports it
  took. This gives the accounts of the agent as a whole, and shows that what the other calls do is, for
  each single call, what \<open>Other_Calls\<close> says.
\<close>

subsection \<open>Steps\<close>

text \<open>The calls that have entered and not left are those in the table; each has its ports.\<close>

type_synonym 's calls = "nat baseUa \<times> 's \<times> (string \<Rightarrow> u16 list)"

inductive call_op :: "'s map_ops \<Rightarrow> string \<Rightarrow> 's calls \<Rightarrow> 's calls \<Rightarrow> bool" for ops c where
  enters: "dialogs u c = None \<Longrightarrow> call_op ops c (u, s, h) (enter_ua c d u, s, h)"
| takes: "dialogs u c \<noteq> None \<Longrightarrow> getPort u = Some (Ok (p, u')) \<Longrightarrow> call_op ops c (u, s, h) (u', s, h(c := h c @ [p]))"
| frees: "dialogs u c \<noteq> None \<Longrightarrow> call_op ops c (u, s, h) (freePort (h c) u, s, h(c := []))"
| leaves: "dialogs u c \<noteq> None \<Longrightarrow> h c = [] \<Longrightarrow> call_op ops c (u, s, h) (leave_ua c u, s, h)"
| registers: "call_op ops c (u, s, h) (u, snd (ebpf_Update ops ps s), h)"
| collects: "call_op ops c (u, s, h) (u, snd (snd (LookupAndDelete ops ps s)), h)"
| rings: "tr_Get r (ringingTimeRange u) = Ok (dur, t) \<Longrightarrow> call_op ops c (u, s, h) (u\<lparr>ringingTimeRange := t\<rparr>, s, h)"
| answers: "tr_Get r (answerTimeRange u) = Ok (dur, t) \<Longrightarrow> call_op ops c (u, s, h) (u\<lparr>answerTimeRange := t\<rparr>, s, h)"
| sends: "rr_Next (xdpSocketsLB u) = Ok (i, lb) \<Longrightarrow> call_op ops c (u, s, h) (u\<lparr>xdpSocketsLB := lb\<rparr>, s, h)"
| stops: "call_op ops c (u, s, h) (u\<lparr>cancelled := True\<rparr>, s, h)"

text \<open>Operations of the calls in \<open>C\<close>.\<close>

inductive calls_run :: "'s map_ops \<Rightarrow> string set \<Rightarrow> 's calls \<Rightarrow> 's calls \<Rightarrow> bool" for ops C where
  no_call: "calls_run ops C x x"
| one_more: "calls_run ops C x y \<Longrightarrow> c \<in> C \<Longrightarrow> call_op ops c y z \<Longrightarrow> calls_run ops C x z"

subsection \<open>The accounts\<close>

definition accounts :: "'s calls \<Rightarrow> bool" where
  "accounts x \<longleftrightarrow> (case x of (u, s, h) \<Rightarrow>
     pool_wf u \<and> finite (dom (dialogs u)) \<and> (\<forall>c. distinct (h c))
     \<and> (\<forall>c c'. c \<noteq> c' \<longrightarrow> set (h c) \<inter> set (h c') = {})
     \<and> ports u = (\<Union>c. set (h c)) \<and> (\<forall>c. dialogs u c = None \<longrightarrow> h c = [])
     \<and> metricsCurrentDialogs u = wrap64 (int (card (dom (dialogs u)))))"

lemma metrics_accounts:
  assumes "accounts (u, s, h)"
  shows "fst (metricsOutput u) = of_nat (card (dom (dialogs u)))"
proof -
  have "word_of_int (wrap64 x) = (word_of_int x :: u64)" for x
    unfolding word_of_int_eq_iff take_bit_eq_mod wrap64_def by (simp add: mod_simps)
  then show ?thesis using assms by (simp add: accounts_def metricsOutput_def)
qed

lemma Union_upd: "(\<Union>k. set ((h(c := ps)) k)) = (\<Union>k \<in> - {c}. set (h k)) \<union> set ps"
  by (auto split: if_splits)

lemma call_op_accounts:
  assumes "call_op ops c x y" "accounts x"
  shows "accounts y"
  using assms(1)
proof cases
  case (enters u s h d)
  then have fresh: "c \<notin> dom (dialogs u)" and fin: "finite (dom (dialogs u))" using assms(2) by (auto simp: accounts_def)
  have "wrap64 (wrap64 (int (card (dom (dialogs u)))) + 1) = wrap64 (int (card (insert c (dom (dialogs u)))))"
    using fresh fin wrap64_shift [of "int (card (dom (dialogs u)))" 0 1] by (simp add: algebra_simps)
  then show ?thesis
    using assms(2) enters by (auto simp: accounts_def enter_ua_def pool_wf_def)
next
  case (takes u p u' s h)
  have inv: "pool_wf u" "\<forall>c. distinct (h c)" "\<forall>c c'. c \<noteq> c' \<longrightarrow> set (h c) \<inter> set (h c') = {}"
      "ports u = (\<Union>c. set (h c))" using assms(2) takes(1) by (simp_all add: accounts_def)
  from getPort_wf_cases [OF inv(1)] takes(4) have u': "pool_wf u'" "ports u' = insert p (ports u)" "p \<notin> ports u" by auto
  have "ports u' = (\<Union>k. set ((h(c := h c @ [p])) k))"
    using inv(4) u'(2) unfolding Union_upd by auto
  moreover have "\<forall>k. distinct ((h(c := h c @ [p])) k)" using inv(2,4) u'(3) by auto
  moreover have "\<forall>k k'. k \<noteq> k' \<longrightarrow> set ((h(c := h c @ [p])) k) \<inter> set ((h(c := h c @ [p])) k') = {}"
    using inv(3,4) u'(3) by auto
  ultimately show ?thesis
    using assms(2) takes u'(1) baseUa_more(1,2) [OF getPort_more [OF inv(1) takes(4)]] by (simp add: accounts_def)
next
  case (frees u s h)
  have inv: "pool_wf u" "\<forall>c. distinct (h c)" "\<forall>c c'. c \<noteq> c' \<longrightarrow> set (h c) \<inter> set (h c') = {}"
      "ports u = (\<Union>c. set (h c))" using assms(2) frees(1) by (simp_all add: accounts_def)
  have "set (h c) \<subseteq> ports u" using inv(4) by blast
  note freed = freePort_wf [OF inv(1) _ this]
  have "ports (freePort (h c) u) = (\<Union>k. set ((h(c := [])) k))"
    using freed(2) inv unfolding Union_upd by fastforce
  moreover have "dialogs (freePort (h c) u) = dialogs u" "metricsCurrentDialogs (freePort (h c) u) = metricsCurrentDialogs u"
    by (simp_all add: freePort_def)
  ultimately show ?thesis
    using assms(2) frees freed(1) inv(2) by (simp add: accounts_def)
next
  case (leaves u h s)
  then have fin: "finite (dom (dialogs u))" "c \<in> dom (dialogs u)" using assms(2) by (auto simp: accounts_def)
  have "int (card (dom (dialogs u) - {c})) = int (card (dom (dialogs u))) - 1"
    using fin card_Suc_Diff1 [OF fin] by simp
  then have "wrap64 (wrap64 (int (card (dom (dialogs u)))) - 1) = wrap64 (int (card (dom (dialogs u) - {c})))"
    using wrap64_shift [of "int (card (dom (dialogs u)))" 0 "-1"] by simp
  then show ?thesis
    using assms(2) leaves by (auto simp: accounts_def leave_ua_def pool_wf_def)
qed (use assms(2) in \<open>auto simp: accounts_def pool_wf_def\<close>)

lemma calls_run_accounts: "calls_run ops C x y \<Longrightarrow> accounts x \<Longrightarrow> accounts y"
  by (induction rule: calls_run.induct) (auto intro: call_op_accounts)

lemma accounts_start:
  assumes "pool_wf u" "ports u = {}" "dialogs u = Map.empty" "metricsCurrentDialogs u = 0"
  shows "accounts (u, s, \<lambda>_. [])"
  using assms by (simp add: accounts_def in_int64_def)

subsection \<open>Seen from one call\<close>

text \<open>The shared state of \<open>Other_Calls\<close>, with the agent as it would be without the call.\<close>

definition without :: "string \<Rightarrow> 's calls \<Rightarrow> 's shared" where
  "without i x =
     (case x of (u, s, h) \<Rightarrow>
        (u, s, u\<lparr>ports := ports u - set (h i), dialogs := (dialogs u)(i := None),
           metricsCurrentDialogs := wrap64 (metricsCurrentDialogs u - 1), metricsDialogs := metricsDialogs u - 1\<rparr>))"

text \<open>Only these fields of the view matter.\<close>

definition sees :: "string \<Rightarrow> 's calls \<Rightarrow> 's shared \<Rightarrow> bool" where
  "sees i x y \<longleftrightarrow>
     (case x of (u, s, h) \<Rightarrow>
        (\<exists>v. y = (u, s, v) \<and> ports v = ports u - set (h i) \<and> dialogs v = (dialogs u)(i := None)
           \<and> metricsCurrentDialogs v = wrap64 (metricsCurrentDialogs u - 1) \<and> metricsDialogs v = metricsDialogs u - 1))"

lemma sees_without: "sees i x (without i x)"
  by (cases x) (simp add: sees_def without_def)

lemma seesE:
  assumes "sees i (u, s, h) X"
  obtains v where "X = (u, s, v)" and "sees i (u, s, h) (u, s, v)"
  using assms by (auto simp: sees_def)

lemma call_op_seen:
  assumes "call_op ops c x y" "c \<noteq> i" "accounts x" "sees i x X"
  shows "\<exists>Y. other_op ops i X Y \<and> sees i y Y"
  using assms(1)
proof cases
  case (enters u s h d)
  with assms(4) obtain v where X: "X = (u, s, v)" and v: "sees i (u, s, h) (u, s, v)" by (auto elim: seesE)
  have "sees i y (enter_ua c d u, s, enter_ua c d v)"
    using enters v assms(2) wrap64_shift [of "metricsCurrentDialogs u" 1 "-1"]
    by (auto simp: sees_def enter_ua_def)
  then show ?thesis using other_op.enter [OF assms(2), of ops u s v d] X by blast
next
  case (takes u p u' s h)
  with assms(4) obtain v where X: "X = (u, s, v)" and v: "sees i (u, s, h) (u, s, v)" by (auto elim: seesE)
  have wf: "pool_wf u" and held: "set (h i) \<subseteq> ports u" using assms(3) takes(1) by (auto simp: accounts_def)
  from getPort_wf_cases [OF wf] takes(4) have u': "ports u' = insert p (ports u)" "p \<notin> ports u" by auto
  have "sees i y (u', s, v\<lparr>ports := insert p (ports v)\<rparr>)"
    using takes v u' held assms(2) baseUa_more(1-3) [OF getPort_more [OF wf takes(4)]] by (auto simp: sees_def)
  then show ?thesis using other_op.take [OF takes(4), of ops i s v] X by blast
next
  case (frees u s h)
  with assms(4) obtain v where X: "X = (u, s, v)" and v: "sees i (u, s, h) (u, s, v)" by (auto elim: seesE)
  have inv: "pool_wf u" "distinct (h c)" "set (h c) \<inter> set (h i) = {}" "set (h c) \<subseteq> ports u"
    using assms(2,3) frees(1) by (auto simp: accounts_def)
  have "sees i y (freePort (h c) u, s, v\<lparr>ports := ports v - set (h c)\<rparr>)"
    using frees v assms(2) freePort_wf [OF inv(1,2,4)] by (auto simp: sees_def freePort_def)
  moreover have "set (h c) \<subseteq> ports v" using v inv(3,4) by (auto simp: sees_def)
  ultimately show ?thesis using other_op.free [OF inv(2), of v ops i u s] X by blast
next
  case (leaves u h s)
  with assms(4) obtain v where X: "X = (u, s, v)" and v: "sees i (u, s, h) (u, s, v)" by (auto elim: seesE)
  have "sees i y (leave_ua c u, s, leave_ua c v)"
    using leaves v assms(2) by (auto simp: sees_def leave_ua_def)
  then show ?thesis using other_op.leave [OF assms(2), of ops u s v] X by blast
qed (use assms(4) in \<open>auto simp: sees_def intro: other_op.intros(5-)\<close>)

lemma calls_run_seen:
  assumes "calls_run ops (- {i}) x y" "accounts x" "sees i x X"
  shows "\<exists>Y. other_ops ops i X Y \<and> sees i y Y"
  using assms
proof (induction rule: calls_run.induct)
  case (no_call x)
  then show ?case by blast
next
  case (one_more x y c z)
  then obtain Y where Y: "other_ops ops i X Y" "sees i y Y" by blast
  have "accounts y" using calls_run_accounts [OF one_more(1) one_more.prems(1)] .
  from call_op_seen [OF one_more(3) _ this Y(2)] one_more(2) obtain Z where "other_op ops i Y Z" "sees i z Z" by blast
  then show ?case using Y(1) by (meson rtranclp.rtrancl_into_rtrancl)
qed

lemma sees_shared:
  assumes "accounts (u, s, h)" "sees c (u, s, h) (u, s, v)" "dialogs u c = Some d"
  shows "shared_inv c d (h c) (u, s, v)"
proof -
  have acc: "pool_wf u" "distinct (h c)" "set (h c) \<subseteq> ports u" "metricsCurrentDialogs u = wrap64 (int (card (dom (dialogs u))))"
    using assms(1) by (auto simp: accounts_def)
  have "(dialogs u)(c := None, c \<mapsto> d) = dialogs u" using assms(3) by auto
  moreover have "wrap64 (wrap64 (metricsCurrentDialogs u - 1) + 1) = metricsCurrentDialogs u"
    using wrap64_shift [of "metricsCurrentDialogs u" "-1" 1] acc(4) by (simp add: wrap64_inc_dec)
  ultimately show ?thesis
    using acc assms(2) by (auto simp: sees_def shared_inv_def pool.owned_since_def)
qed

lemma without_inv: "accounts (u, s, h) \<Longrightarrow> dialogs u i = Some d \<Longrightarrow> shared_inv i d (h i) (without i (u, s, h))"
  using sees_shared [of u s h i] sees_without [of i "(u, s, h)"] by (simp add: without_def)

lemma other_run_keeps:
  assumes "calls_run ops (- {i}) x y"
  shows "snd (snd y) i = snd (snd x) i"
  using assms by (induction rule: calls_run.induct) (auto elim: call_op.cases)

subsection \<open>Properties\<close>

text \<open>
  C10. In every interleaving of the operations of any number of calls, no port belongs to two calls, the
  ports that are held are exactly those of the calls that have not left, the number of used ports counts
  two for each, and the number of current dialogs in the output of statistics is that of these calls.
\<close>

theorem calls_accounts:
  assumes "pool_wf u0" and "ports u0 = {}" and "dialogs u0 = Map.empty" and "metricsCurrentDialogs u0 = 0"
    and "calls_run ops C (u0, s0, \<lambda>_. []) (u, s, h)"
  shows "ports u = (\<Union>c \<in> dom (dialogs u). set (h c))
    \<and> (\<forall>c c'. c \<noteq> c' \<longrightarrow> set (h c) \<inter> set (h c') = {}) \<and> (\<forall>c. distinct (h c))
    \<and> portsUsed u = 2 * (\<Sum>c \<in> dom (dialogs u). int (length (h c)))
    \<and> fst (metricsOutput u) = of_nat (card (dom (dialogs u)))"
proof -
  have accounts: "accounts (u, s, h)" by (rule calls_run_accounts [OF assms(5) accounts_start [OF assms(1-4)]])
  from accounts have acc: "pool_wf u" "finite (dom (dialogs u))" "\<forall>c. distinct (h c)"
      "\<forall>c c'. c \<noteq> c' \<longrightarrow> set (h c) \<inter> set (h c') = {}" "ports u = (\<Union>c. set (h c))"
      "\<forall>c. dialogs u c = None \<longrightarrow> h c = []"
    by (simp_all add: accounts_def)
  have all: "ports u = (\<Union>c \<in> dom (dialogs u). set (h c))"
  proof (intro equalityI subsetI)
    fix p
    assume "p \<in> ports u"
    then obtain c where c: "p \<in> set (h c)" using acc(5) by auto
    then have "c \<in> dom (dialogs u)" using acc(6) by (cases "dialogs u c") auto
    with c show "p \<in> (\<Union>c \<in> dom (dialogs u). set (h c))" by blast
  qed (use acc(5) in auto)
  have "card (ports u) = (\<Sum>c \<in> dom (dialogs u). card (set (h c)))"
    unfolding all by (rule card_UN_disjoint) (use acc(2,4) in auto)
  also have "\<dots> = (\<Sum>c \<in> dom (dialogs u). length (h c))" by (simp add: distinct_card acc(3))
  finally have "portsUsed u = 2 * (\<Sum>c \<in> dom (dialogs u). int (length (h c)))"
    using acc(1) by (simp add: pool_wf_def)
  then show ?thesis using all acc(3,4) metrics_accounts [OF accounts] by blast
qed

theorem calls_accounts_witness:
  "dom (dialogs (enter_ua ''b'' 2 (enter_ua ''a'' 1 sample_agent))) = {''a'', ''b''}
   \<and> fst (metricsOutput (enter_ua ''b'' 2 (enter_ua ''a'' 1 sample_agent))) = 2"
proof -
  let ?u1 = "enter_ua ''a'' 1 sample_agent" let ?u2 = "enter_ua ''b'' 2 ?u1"
  have empty: "ports sample_agent = {}" "dialogs sample_agent = Map.empty" "metricsCurrentDialogs sample_agent = 0"
    by (simp_all add: sample_agent_def blank_ua_def)
  have "call_op hash_ops ''a'' (sample_agent, [], \<lambda>_. []) (?u1, [], \<lambda>_. [])"
      "call_op hash_ops ''b'' (?u1, [], \<lambda>_. []) (?u2, [], \<lambda>_. [])"
    by (rule call_op.enters; simp add: empty enter_ua_def)+
  then have "calls_run hash_ops UNIV (sample_agent, [], \<lambda>_. []) (?u2, [], \<lambda>_. [])"
    by (blast intro: calls_run.intros)
  from calls_accounts [OF sample_agent_facts(1) empty this] show ?thesis
    by (auto simp: enter_ua_def empty)
qed

text \<open>
  C11. What the theorems about one call take for granted of the others is what other calls do: any run of
  operations of the calls but one, is for that one a turn of the others in the sense of \<open>Other_Calls\<close>, from
  a state in which it holds its ports and its entry, and leaves it in such a state.
\<close>

theorem others_are_calls:
  assumes "accounts (u, s, h)" and "dialogs u i = Some d" and "calls_run ops (- {i}) (u, s, h) (u', s', h')"
  shows "shared_inv i d (h i) (without i (u, s, h))
    \<and> (\<exists>v. other_ops ops i (without i (u, s, h)) (u', s', v) \<and> shared_inv i d (h' i) (u', s', v)
        \<and> ports v = ports u' - set (h' i)) \<and> h' i = h i"
proof -
  note inv = without_inv [OF assms(1,2)]
  have same: "h' i = h i" using other_run_keeps [OF assms(3)] by simp
  from calls_run_seen [OF assms(3,1) sees_without] obtain v where
    v: "other_ops ops i (without i (u, s, h)) (u', s', v)" "ports v = ports u' - set (h' i)"
    by (auto simp: sees_def)
  from other_ops_inv [OF v(1) inv] show ?thesis using inv v same by auto
qed

theorem others_are_calls_witness:
  "\<exists>v. other_ops hash_ops ''a'' (without ''a'' (enter_ua ''a'' 1 sample_agent, [], \<lambda>_. []))
         (enter_ua ''b'' 2 (enter_ua ''a'' 1 sample_agent), [], v)"
proof -
  let ?u1 = "enter_ua ''a'' 1 sample_agent" let ?u2 = "enter_ua ''b'' 2 ?u1"
  have empty: "ports sample_agent = {}" "dialogs sample_agent = Map.empty" "metricsCurrentDialogs sample_agent = 0"
    by (simp_all add: sample_agent_def blank_ua_def)
  have "call_op hash_ops ''a'' (sample_agent, [], \<lambda>_. []) (?u1, [], \<lambda>_. [])"
    and b: "call_op hash_ops ''b'' (?u1, [], \<lambda>_. []) (?u2, [], \<lambda>_. [])"
    by (rule call_op.enters; simp add: empty enter_ua_def)+
  note call_op_accounts [OF this(1) accounts_start [OF sample_agent_facts(1) empty]]
  moreover have "dialogs ?u1 ''a'' = Some 1" by (simp add: enter_ua_def)
  moreover have "calls_run hash_ops (- {''a''}) (?u1, [], \<lambda>_. []) (?u2, [], \<lambda>_. [])"
    using calls_run.one_more [OF calls_run.no_call _ b] by simp
  ultimately show ?thesis
    using others_are_calls [of ?u1 "[]" "\<lambda>_. []" "''a''" 1 hash_ops ?u2 "[]" "\<lambda>_. []"] by blast
qed

end
