(* ===== verification/Dialog_Uas.thy ===== *)
theory Dialog_Uas
  imports Dialog
begin

section \<open>Incoming calls (\<open>DialogUas\<close> of \<open>dialog.go\<close>, \<open>onInvite\<close> of \<open>uas.go\<close>)\<close>

subsection \<open>The dialog\<close>

record 's uas_world = "'s dialog_world" +
  localAudioPorts :: "u16 list"
  shouldAnswer :: bool

text \<open>
  \<open>NewDialogUas\<close>: the fields of the new dialog, and its entry. \<open>rnd\<close> is the random number compared with
  \<open>answerChance\<close>, \<open>d\<close> the number of the dialog. The agent as it is now is what the others have.
\<close>

definition NewDialogUas :: "u32 \<Rightarrow> u32 \<Rightarrow> string \<Rightarrow> nat \<Rightarrow> ('s uas_world, dialog_error, unit) go" where
  "NewDialogUas rnd answerChance callId d =
     go_then
       (go_modify (\<lambda>w. w\<lparr>w_others := w_ua w, w_media := None, w_done := False, w_cancelled := False, w_sent := [], w_waits := 0,
          w_stats := None, localAudioPorts := [], shouldAnswer := (rnd < answerChance)\<rparr>))
       (enter_dialog callId d)"

text \<open>\<open>getPort\<close> and the append to \<open>localAudioPorts\<close>.\<close>

definition take_port :: "'s dialog_env \<Rightarrow> ('s uas_world, dialog_error, u16) go" where
  "take_port env =
     go_bind (shared env go_getPort) (\<lambda>p.
       go_then (go_modify (\<lambda>w. w\<lparr>localAudioPorts := localAudioPorts w @ [p]\<rparr>)) (go_return p))"

definition play :: "(nat baseUa \<Rightarrow> Packet list) \<Rightarrow> ('s uas_world, dialog_error, unit) go" where
  "play f = go_bind (go_get (\<lambda>w. f (w_ua w))) (\<lambda>pkts. on_media (playback pkts))"

text \<open>
  From the 183 on, both kinds of call go the same way, but for the media: ringing, then 486 or 200,
  then the answered call, then BYE.
\<close>

definition ring_and_answer ::
  "'s dialog_env \<Rightarrow> string \<Rightarrow> ('s uas_world, dialog_error, unit) go \<Rightarrow> ('s uas_world, dialog_error, unit) go" where
  "ring_and_answer env sdp play_answer =
     go_bind (wait_ringing env) (\<lambda>canceled.
       if canceled then go_return ()
       else go_bind (go_get shouldAnswer) (\<lambda>answer.
         if \<not> answer then go_ignore (go_send env Busy)
         else
           go_then (go_send env (Answer sdp))
           (go_then play_answer
           (go_bind (wait_answer env) (\<lambda>receiveBye.
              if receiveBye then go_return () else go_send env Bye)))))"

text \<open>One port for each audio stream of a SIPREC call.\<close>

fun siprec_ports ::
  "'s dialog_env \<Rightarrow> mediaInfo list \<Rightarrow> string \<Rightarrow> ('s uas_world, dialog_error, string) go" where
  "siprec_ports env [] sdp = go_return sdp"
| "siprec_ports env (i # is) sdp =
     go_bind (or_500 env (take_port env)) (\<lambda>p. siprec_ports env is (sdp @ sdp_audio p))"

definition onInviteSIPREC ::
  "'s dialog_env \<Rightarrow> string \<Rightarrow> bytes \<Rightarrow> ('s uas_world, dialog_error, unit) go" where
  "onInviteSIPREC env contentType body =
     (case e_mime env contentType of
        None \<Rightarrow> or_500 env (go_fail D_Mime)
      | Some (mediaType, boundary) \<Rightarrow>
          (if mediaType \<noteq> ''multipart/mixed'' then or_500 env (go_fail D_Content_Type)
           else
             go_bind (or_500 env (go_lift (wrap_err D_Sdp
                (getAudioMediaFromMultipartSDP (e_unmarshal env) (e_parts env) body boundary)))) (\<lambda>audioInfos.
             go_bind (siprec_ports env audioInfos (sdpSIPREC (e_addr env))) (\<lambda>localSDP.
             go_bind (go_get localAudioPorts) (\<lambda>ps.
             go_then (shared env (go_update env ps))
             (go_then (go_send env (Progress localSDP))
                (ring_and_answer env localSDP (go_return ()))))))))"

text \<open>
  \<open>onInvite\<close>. The content type of a request may be missing, a nil pointer that is dereferenced. The
  context of the media is made after the port is registered and cancelled at the end.
\<close>

definition invite_media ::
  "'s dialog_env \<Rightarrow> u16 \<Rightarrow> mediaInfo list \<Rightarrow> ('s uas_world, dialog_error, unit) go" where
  "invite_media env p audioInfos =
     go_defer (go_modify (\<lambda>w. w\<lparr>w_cancelled := True\<rparr>))
       (go_bind (go_lift (index_slice audioInfos 0)) (\<lambda>remote.
        go_then (or_500 env (shared env (go_newMedia env remote \<lparr>addr = e_addr env, mport = uint p\<rparr>)))
        (let localSDP = sdpBase (e_addr env) p in
         go_then (go_send env (Progress localSDP))
         (go_then (play EarlyMedia)
           (ring_and_answer env localSDP (play AnswerMedia))))))"

definition onInvite ::
  "'s dialog_env \<Rightarrow> string option \<Rightarrow> bytes \<Rightarrow> ('s uas_world, dialog_error, unit) go" where
  "onInvite env contentType body =
     go_then (go_send env Trying)
     (case contentType of
        None \<Rightarrow> go_panic Nil_Dereference
      | Some ct \<Rightarrow>
          (if ct \<noteq> ''application/sdp'' then onInviteSIPREC env ct body
           else
             go_bind (or_500 env (go_lift (wrap_err D_Sdp (getAudioMediaFromSDP (e_unmarshal env) body)))) (\<lambda>audioInfos.
             go_bind (or_500 env (take_port env)) (\<lambda>p.
             go_then (shared env (go_update env [p, p + 1])) (invite_media env p audioInfos)))))"

text \<open>\<open>Close\<close> of the dialog. The counters are logged, those of the ports only without an error.\<close>

definition uas_Close :: "'s dialog_env \<Rightarrow> string \<Rightarrow> ('s uas_world, dialog_error, unit) go" where
  "uas_Close env callId =
     go_bind (go_get localAudioPorts) (\<lambda>ps.
     go_bind
       (if ps \<noteq> []
        then go_then (shared env (go_freePort ps))
               (go_bind (shared env (go_lookup env ps)) (\<lambda>(infos, ok). go_return (if ok then infos else [])))
        else go_return []) (\<lambda>rx.
     parting env True rx callId))"

text \<open>
  \<open>onInvite\<close> of the user agent: nothing happens when the session cannot be read; the error of the
  dialog is only logged.
\<close>

definition Uas_onInvite ::
  "'s dialog_env \<Rightarrow> bool \<Rightarrow> u32 \<Rightarrow> u32 \<Rightarrow> string \<Rightarrow> nat \<Rightarrow> string option \<Rightarrow> bytes \<Rightarrow>
   ('s uas_world, dialog_error, unit) go" where
  "Uas_onInvite env read_ok rnd answerChance callId d contentType body =
     (if \<not> read_ok then go_return ()
      else
        go_then (NewDialogUas rnd answerChance callId d)
          (go_defer (uas_Close env callId) (go_ignore (onInvite env contentType body))))"

subsection \<open>The resources of the dialog\<close>

text \<open>
  Between \<open>NewDialogUas\<close> and \<open>Close\<close>: the ports that are not the others' are those in
  \<open>localAudioPorts\<close>, and the dialog is entered. \<open>u0\<close> is the agent before the call.
\<close>

definition uas_inv :: "'s dialog_env \<Rightarrow> nat baseUa \<Rightarrow> string \<Rightarrow> nat \<Rightarrow> 's uas_world \<Rightarrow> bool" where
  "uas_inv env u0 callId d w \<longleftrightarrow>
     media_ok w \<and> shared_inv callId d (localAudioPorts w) (world_view w) \<and> (alone env \<longrightarrow> w_others w = u0)"

lemma uas_more:
  fixes w w' :: "'s uas_world"
  assumes "dialog_world.more w' = dialog_world.more w"
  shows "localAudioPorts w' = localAudioPorts w" "shouldAnswer w' = shouldAnswer w"
  using assms by (cases w; cases w'; simp)+

lemma uas_moved:
  fixes w w' :: "'s uas_world"
  assumes "moved env callId w w'"
  shows "localAudioPorts w' = localAudioPorts w" "shouldAnswer w' = shouldAnswer w"
  using assms by (auto simp: moved_def kept_def dest: uas_more)

lemma uas_inv_moved:
  assumes "uas_inv env u0 callId d w" "media_ok w'" "moved env callId w w'"
  shows "uas_inv env u0 callId d w'"
  using assms other_ops_inv [of "e_ops env" callId "world_view w" "world_view w'"]
  by (auto simp: uas_inv_def moved_def kept_def uas_moved(1) [OF assms(3)])

lemma uas_calm:
  assumes "others_fair env callId" "calm env callId m"
  shows "preserves (uas_inv env u0 callId d) m"
proof (rule calm_preserves [OF assms(2,1)])
  show "uas_inv env u0 callId d w'" if "uas_inv env u0 callId d w" "media_ok w'" "moved env callId w w'" for w w'
    using that by (rule uas_inv_moved)
qed (simp add: uas_inv_def)

text \<open>The statements that only change fields of the dialog, and the operations on the shared state.\<close>

lemma uas_inv_local [simp]:
  "uas_inv env u0 callId d (w\<lparr>w_cancelled := b\<rparr>) = uas_inv env u0 callId d w"
  "uas_inv env u0 callId d (w\<lparr>w_sent := ms\<rparr>) = uas_inv env u0 callId d w"
  by (simp_all add: uas_inv_def media_ok_def world_view_def)

lemma uas_inv_rules [simp]: "uas_inv env u0 callId d (w\<lparr>w_rules := s\<rparr>) = uas_inv env u0 callId d w"
  by (simp add: uas_inv_def media_ok_def world_view_def shared_inv_def)

lemma uas_append_port:
  fixes env :: "'s dialog_env"
  shows "preserves (uas_inv env u0 callId d) (go_bind go_getPort (\<lambda>p.
     go_then (go_modify (\<lambda>w. w\<lparr>localAudioPorts := localAudioPorts w @ [p]\<rparr>)) (go_return p)))"
proof (rule preservesI)
  fix w :: "'s uas_world"
  assume inv: "uas_inv env u0 callId d w"
  then have sh: "shared_inv callId d (localAudioPorts w) (w_ua w, w_rules w, w_others w)"
    by (simp add: uas_inv_def world_view_def)
  then have wf: "pool_wf (w_ua w)" by (simp add: shared_inv_def pool.owned_since_def)
  from pool.get_returns [OF this] consider "getPort (w_ua w) = Some (Err errNoFreePorts)"
    | p u where "getPort (w_ua w) = Some (Ok (p, u))" by blast
  then show "wp (go_bind go_getPort (\<lambda>p. go_then (go_modify (\<lambda>w. w\<lparr>localAudioPorts := localAudioPorts w @ [p]\<rparr>)) (go_return p)))
      (\<lambda>r. uas_inv env u0 callId d) w"
  proof cases
    case 1
    then show ?thesis using inv by (simp add: wp_def go_getPort_def go_bind_def)
  next
    case (2 p u)
    from getPort_shared(1) [OF sh 2] show ?thesis
      using 2 inv
      by (simp add: wp_def go_getPort_def go_bind_def go_then_def go_modify_def go_return_def uas_inv_def media_ok_def world_view_def)
  qed
qed

lemma uas_others: "others_fair env callId \<Longrightarrow> preserves (uas_inv env u0 callId d) (go_others env)"
  by (rule uas_calm [OF _ mute_others [THEN mute_calm]])

lemma take_port_alt:
  "take_port env = shared env (go_bind go_getPort (\<lambda>p.
     go_then (go_modify (\<lambda>w. w\<lparr>localAudioPorts := localAudioPorts w @ [p]\<rparr>)) (go_return p)))"
  by (simp add: take_port_def shared_def go_then_def go_bind_assoc)

lemma uas_take_port: "others_fair env callId \<Longrightarrow> preserves (uas_inv env u0 callId d) (take_port env)"
  unfolding take_port_alt by (intro preserves_shared uas_append_port uas_others)

lemma uas_update: "others_fair env callId \<Longrightarrow> preserves (uas_inv env u0 callId d) (shared env (go_update env ps))"
  by (rule preserves_shared [OF uas_others]) (auto simp: preserves_def wp_update split: option.split prod.split)

lemma uas_or_500: "preserves (uas_inv env u0 callId d) m \<Longrightarrow> preserves (uas_inv env u0 callId d) (or_500 env m)"
  by (rule preserves_or_500) (simp_all add: preserves_def wp_send)

lemma mute_play: "mute env callId (play f)"
  unfolding play_def by (intro mute_intros)

lemmas calm_play = mute_play [THEN mute_calm]

lemma calm_ring_and_answer: "calm env callId pa \<Longrightarrow> calm env callId (ring_and_answer env sdp pa)"
  unfolding ring_and_answer_def by (intro calm_intros)

lemma calm_invite_media: "calm env callId (invite_media env p infos)"
  unfolding invite_media_def Let_def
  by (intro calm_intros calm_ring_and_answer calm_play inward_cancel [THEN inward_mute, THEN mute_calm])

lemma uas_siprec_ports: "others_fair env callId \<Longrightarrow> preserves (uas_inv env u0 callId d) (siprec_ports env infos sdp)"
  by (induction infos arbitrary: sdp) (auto intro!: preserves_intros uas_or_500 uas_take_port)

lemmas uas_calls = uas_or_500 uas_update uas_take_port uas_siprec_ports
  uas_calm [OF _ calm_send] uas_calm [OF _ calm_ring_and_answer] uas_calm [OF _ calm_invite_media]

lemma uas_onInviteSIPREC: "others_fair env callId \<Longrightarrow> preserves (uas_inv env u0 callId d) (onInviteSIPREC env ct body)"
  unfolding onInviteSIPREC_def by (intro preserves_intros uas_calls calm_intros)

lemma uas_onInvite: "others_fair env callId \<Longrightarrow> preserves (uas_inv env u0 callId d) (onInvite env ct body)"
  unfolding onInvite_def by (intro preserves_intros uas_calls uas_onInviteSIPREC)

text \<open>\<open>Close\<close> undoes what the invariant accounts for.\<close>

lemma uas_Close_releases:
  assumes fair: "others_fair env callId" and inv: "uas_inv env u0 callId d w"
  shows "wp (uas_Close env callId) (\<lambda>r w'. r = Ok () \<and> released callId w' \<and> w_stats w' \<noteq> None
    \<and> w_sent w' = w_sent w \<and> media_view w' = media_view w
    \<and> dialog_world.more w' = dialog_world.more w \<and> (alone env \<longrightarrow> w_others w' = w_others w)
    \<and> (leaves_rules env \<longrightarrow> w_rules w' = (if localAudioPorts w = [] then w_rules w
        else snd (snd (LookupAndDelete (e_ops env) (localAudioPorts w) (w_rules w)))))) w"
    (is "wp _ ?Q w")
proof (cases "localAudioPorts w = []")
  case True
  have "wp (parting env True [] callId) ?Q w"
    by (rule wp_mono [OF wp_parting [OF fair]]) (use inv True in \<open>auto simp: uas_inv_def kept_def dest: media_Close_view\<close>)
  then show ?thesis using True by (simp add: uas_Close_def wp_bind wp_get wp_return)
next
  case False
  have ok: "media_ok w" and sh: "shared_inv callId d (localAudioPorts w) (world_view w)"
    using inv by (simp_all add: uas_inv_def)
  have eq: "wp (uas_Close env callId) Q w = wp (go_then (shared env (go_freePort (localAudioPorts w)))
      (go_bind (shared env (go_lookup env (localAudioPorts w))) (\<lambda>(infos, ok). go_return (if ok then infos else []))))
      (\<lambda>r w'. case r of Ok rx \<Rightarrow> wp (parting env True rx callId) Q w' | Err e \<Rightarrow> Q (Err e) w' | Panic p \<Rightarrow> Q (Panic p) w') w" for Q
    using False by (simp add: uas_Close_def wp_bind [of "go_get f" for f] wp_get wp_bind [of "go_then m n" for m n])
  show ?thesis
    unfolding eq
  proof (rule wp_give_ports [OF fair ok sh])
    fix infos e u s v t
    assume *: "shared_inv callId d [] (u, s, v)" "alone env \<longrightarrow> v = w_others w"
      "leaves_rules env \<longrightarrow> (infos, e, s) = LookupAndDelete (e_ops env) (localAudioPorts w) (w_rules w)"
    let ?w1 = "w\<lparr>w_ua := u, w_rules := s, w_others := v, w_turns := t\<rparr>"
    have "media_ok ?w1" "shared_inv callId d [] (world_view ?w1)" using ok * by (simp_all add: media_ok_def world_view_def)
    have "wp (parting env True rx callId) ?Q ?w1" for rx
      by (rule wp_mono [OF wp_parting [OF fair \<open>media_ok ?w1\<close> \<open>shared_inv callId d [] (world_view ?w1)\<close>]])
        (use * ok False in \<open>auto simp: kept_def media_Close_view dest: sym\<close>)
    then show "wp (case (infos, e = None) of (infos, ok) \<Rightarrow> go_return (if ok then infos else []))
        (\<lambda>r w'. case r of Ok rx \<Rightarrow> wp (parting env True rx callId) ?Q w' | Err e \<Rightarrow> ?Q (Err e) w' | Panic p \<Rightarrow> ?Q (Panic p) w') ?w1"
      by (simp add: wp_return)
  qed
qed

subsection \<open>The messages of a call\<close>

text \<open>
  What has been sent, with the outcome of each: 100; then 500, or 183 with a description; then 486, or
  200 with the same description; then BYE. Only the last message can have failed.
\<close>

definition uas_dialogue :: "bool \<Rightarrow> (sip_msg \<times> bool) list \<Rightarrow> bool" where
  "uas_dialogue a tr \<longleftrightarrow> list_all snd (butlast tr) \<and>
     (\<exists>sdp. map fst tr \<in> {[Trying], [Trying, Server_Error], [Trying, Progress sdp]}
        \<union> (if a then {[Trying, Progress sdp, Answer sdp], [Trying, Progress sdp, Answer sdp, Bye]}
           else {[Trying, Progress sdp, Busy]}))"

definition uas_at ::
  "'s dialog_env \<Rightarrow> nat baseUa \<Rightarrow> string \<Rightarrow> nat \<Rightarrow> (sip_msg \<times> bool) list \<Rightarrow> bool \<Rightarrow> 's uas_world \<Rightarrow> bool" where
  "uas_at env u0 callId d tr a w \<longleftrightarrow> uas_inv env u0 callId d w \<and> w_sent w = tr \<and> shouldAnswer w = a"

definition uas_talked ::
  "'s dialog_env \<Rightarrow> nat baseUa \<Rightarrow> string \<Rightarrow> nat \<Rightarrow> bool \<Rightarrow> 's uas_world \<Rightarrow> bool" where
  "uas_talked env u0 callId d a w \<longleftrightarrow> uas_inv env u0 callId d w \<and> shouldAnswer w = a \<and> uas_dialogue a (w_sent w)"

lemma talkedI: "uas_at env u0 callId d tr a w \<Longrightarrow> uas_dialogue a tr \<Longrightarrow> uas_talked env u0 callId d a w"
  by (simp add: uas_at_def uas_talked_def)

lemma at_mute:
  fixes m :: "('s uas_world, dialog_error, 'x) go"
  assumes "others_fair env callId" "mute env callId m"
  shows "preserves (uas_at env u0 callId d tr a) m"
proof (rule mute_preserves [OF assms(2,1)])
  fix w w' :: "'s uas_world"
  assume *: "uas_at env u0 callId d tr a w" "media_ok w'" "moved env callId w w'" "w_sent w' = w_sent w"
  have "uas_inv env u0 callId d w'" by (rule uas_inv_moved [OF _ *(2,3)]) (use *(1) in \<open>simp add: uas_at_def\<close>)
  then show "uas_at env u0 callId d tr a w'" using * uas_moved [OF *(3)] by (simp add: uas_at_def)
qed (simp add: uas_at_def uas_inv_def)

lemma at_take_port:
  fixes env :: "'s dialog_env"
  assumes fair: "others_fair env callId"
  shows "preserves (uas_at env u0 callId d tr a) (take_port env :: ('s uas_world, dialog_error, u16) go)"
  unfolding take_port_alt
proof (rule preserves_shared [OF at_mute [OF fair mute_others]], rule preservesI)
  fix w :: "'s uas_world"
  let ?take = "go_bind go_getPort (\<lambda>p. go_then (go_modify (\<lambda>w. w\<lparr>localAudioPorts := localAudioPorts w @ [p]\<rparr>)) (go_return p))
    :: ('s uas_world, dialog_error, u16) go"
  assume at: "uas_at env u0 callId d tr a w"
  have "wp ?take (\<lambda>r. uas_inv env u0 callId d) w"
    by (rule preservesD [OF uas_append_port]) (use at in \<open>simp add: uas_at_def\<close>)
  then obtain r w' where run: "?take w = Some (r, w')" "uas_inv env u0 callId d w'" by (auto dest: wp_returns)
  then have "w_sent w' = w_sent w \<and> shouldAnswer w' = shouldAnswer w"
    by (auto simp: go_getPort_def go_bind_def go_then_def go_modify_def go_return_def split: option.splits res.splits prod.splits)
  then show "wp ?take (\<lambda>r. uas_at env u0 callId d tr a) w" using run at by (simp add: wp_def uas_at_def)
qed

lemma at_update:
  "others_fair env callId \<Longrightarrow> preserves (uas_at env u0 callId d tr a) (shared env (go_update env ps))"
  by (rule preserves_shared [OF at_mute [OF _ mute_others]])
    (auto simp: preserves_def wp_update uas_at_def split: option.split prod.split)

text \<open>Sending one message, and the 500 on an error.\<close>

lemma wp_send_at:
  fixes w :: "'s uas_world"
  assumes "uas_at env u0 callId d tr a w"
    and "\<And>w'. uas_at env u0 callId d (tr @ [(msg, True)]) a w' \<Longrightarrow> Q (Ok ()) w'"
    and "\<And>e w'. uas_at env u0 callId d (tr @ [(msg, False)]) a w' \<Longrightarrow> Q (Err e) w'"
  shows "wp (go_send env msg) Q w"
proof -
  have "uas_at env u0 callId d (tr @ [(msg, b)]) a (w\<lparr>w_sent := w_sent w @ [(msg, b)]\<rparr>)" for b
    using assms(1) by (simp add: uas_at_def)
  then show ?thesis using assms(2,3) by (simp add: wp_simps)
qed

lemma wp_or_500_at:
  fixes m :: "('s uas_world, dialog_error, 'x) go"
  assumes "preserves (uas_at env u0 callId d [(Trying, True)] a) m" and "uas_at env u0 callId d [(Trying, True)] a w"
    and "\<And>x w'. uas_at env u0 callId d [(Trying, True)] a w' \<Longrightarrow> Q (Ok x) w'"
    and "\<And>r w'. uas_talked env u0 callId d a w' \<Longrightarrow> \<nexists>x. r = Ok x \<Longrightarrow> Q r w'"
  shows "wp (or_500 env m) Q w"
  unfolding wp_or_500
proof (rule wp_mono [OF preservesD [OF assms(1,2)]])
  fix r and w' :: "'s uas_world"
  assume at: "uas_at env u0 callId d [(Trying, True)] a w'"
  show "case r of Err e \<Rightarrow> wp (go_then (go_ignore (go_send env Server_Error)) (go_fail e)) Q w' | _ \<Rightarrow> Q r w'"
  proof (cases r)
    case (Ok x)
    then show ?thesis using assms(3) at by simp
  next
    case (Panic p)
    moreover have "uas_talked env u0 callId d a w'" using at by (rule talkedI) (simp add: uas_dialogue_def)
    ultimately show ?thesis using assms(4) by simp
  next
    case (Err e)
    have "wp (go_send env Server_Error) (\<lambda>r. uas_talked env u0 callId d a) w'"
      by (rule wp_send_at [OF at]) (erule talkedI, simp add: uas_dialogue_def)+
    then have "wp (go_send env Server_Error) (\<lambda>r' w1. Q (Err e) w1) w'"
      by (rule wp_mono) (simp add: assms(4))
    then show ?thesis using Err by (cases "e_send env (length (w_sent w'))") (simp_all add: wp_simps)
  qed
qed

lemma ring_and_answer_dialogue:
  fixes w :: "'s uas_world"
  assumes "uas_at env u0 callId d [(Trying, True), (Progress sdp, True)] a w" and "mute env callId pa"
    and fair: "others_fair env callId"
  shows "wp (ring_and_answer env sdp pa) (\<lambda>r. uas_talked env u0 callId d a) w"
  unfolding ring_and_answer_def
proof (rule wp_bind_keep [OF at_mute [OF fair mute_wait(1)] assms(1)])
  fix canceled and w :: "'s uas_world"
  assume at: "uas_at env u0 callId d [(Trying, True), (Progress sdp, True)] a w"
  have here: "uas_talked env u0 callId d a w" using at by (rule talkedI) (simp add: uas_dialogue_def)
  have busy: "wp (go_ignore (go_send env Busy)) (\<lambda>r. uas_talked env u0 callId d a) w" if "\<not> a"
  proof -
    have "wp (go_send env Busy) (\<lambda>r. uas_talked env u0 callId d a) w"
      by (rule wp_send_at [OF at]) (erule talkedI, simp add: uas_dialogue_def that)+
    then show ?thesis unfolding wp_ignore by (rule wp_mono) (simp split: res.split)
  qed
  have talk: "wp (go_bind (wait_answer env) (\<lambda>receiveBye. if receiveBye then go_return () else go_send env Bye))
      (\<lambda>r. uas_talked env u0 callId d a) w'"
    if at': "uas_at env u0 callId d [(Trying, True), (Progress sdp, True), (Answer sdp, True)] a w'" and a for w'
  proof (rule wp_bind_keep [OF at_mute [OF fair mute_wait(2)] at'])
    fix bye and w'' :: "'s uas_world"
    assume at'': "uas_at env u0 callId d [(Trying, True), (Progress sdp, True), (Answer sdp, True)] a w''"
    have "uas_talked env u0 callId d a w''" using at'' by (rule talkedI) (simp add: uas_dialogue_def \<open>a\<close>)
    moreover have "wp (go_send env Bye) (\<lambda>r. uas_talked env u0 callId d a) w''"
      by (rule wp_send_at [OF at'']) (erule talkedI, simp add: uas_dialogue_def \<open>a\<close>)+
    ultimately show "wp (if bye then go_return () else go_send env Bye) (\<lambda>r. uas_talked env u0 callId d a) w''"
      by (simp add: wp_simps)
  qed (erule talkedI, simp add: uas_dialogue_def \<open>a\<close>)+
  have answered: "wp (go_then (go_send env (Answer sdp)) (go_then pa
      (go_bind (wait_answer env) (\<lambda>receiveBye. if receiveBye then go_return () else go_send env Bye))))
      (\<lambda>r. uas_talked env u0 callId d a) w" if a
    unfolding wp_then [of "go_send env (Answer sdp)"]
  proof (rule wp_send_at [OF at])
    fix w' :: "'s uas_world"
    assume at': "uas_at env u0 callId d ([(Trying, True), (Progress sdp, True)] @ [(Answer sdp, True)]) a w'"
    show "case Ok () of Ok x \<Rightarrow> wp (go_then pa (go_bind (wait_answer env)
        (\<lambda>receiveBye. if receiveBye then go_return () else go_send env Bye))) (\<lambda>r. uas_talked env u0 callId d a) w'
        | Err e \<Rightarrow> uas_talked env u0 callId d a w' | Panic p \<Rightarrow> uas_talked env u0 callId d a w'"
      unfolding res.case
      by (rule wp_then_keep [OF at_mute [OF fair assms(2)] at']) (rule talk [OF _ that], simp, (erule talkedI, simp add: uas_dialogue_def that)+)
  qed (use that in \<open>simp, erule_tac talkedI, simp add: uas_dialogue_def\<close>)
  have "shouldAnswer w = a" using at by (simp add: uas_at_def)
  then show "wp (if canceled then go_return ()
      else go_bind (go_get shouldAnswer) (\<lambda>answer. if \<not> answer then go_ignore (go_send env Busy)
        else go_then (go_send env (Answer sdp)) (go_then pa
          (go_bind (wait_answer env) (\<lambda>receiveBye. if receiveBye then go_return () else go_send env Bye)))))
      (\<lambda>r. uas_talked env u0 callId d a) w"
    using here busy answered by (cases a) (simp_all add: wp_return wp_get wp_bind [of "go_get shouldAnswer"])
qed (erule talkedI, simp add: uas_dialogue_def)+

lemma siprec_ports_dialogue:
  fixes w :: "'s uas_world"
  assumes "uas_at env u0 callId d [(Trying, True)] a w" and fair: "others_fair env callId"
  shows "wp (siprec_ports env infos sdp)
    (\<lambda>r w'. case r of Ok x \<Rightarrow> uas_at env u0 callId d [(Trying, True)] a w' | _ \<Rightarrow> uas_talked env u0 callId d a w') w"
  using assms(1)
proof (induction infos arbitrary: sdp w)
  case Nil
  then show ?case by (simp add: wp_simps)
next
  case (Cons i infos)
  show ?case
    unfolding siprec_ports.simps wp_bind
    by (rule wp_or_500_at [OF at_take_port [OF fair] Cons.prems]) (simp add: Cons.IH, auto split: res.split)
qed

lemma uas_here:
  assumes "uas_at env u0 callId d [(Trying, True)] a w"
  shows "uas_talked env u0 callId d a w"
  using assms by (rule talkedI) (simp add: uas_dialogue_def)

lemma progress_dialogue:
  fixes w :: "'s uas_world"
  assumes "uas_at env u0 callId d [(Trying, True)] a w"
    and "\<And>w'. uas_at env u0 callId d [(Trying, True), (Progress sdp, True)] a w' \<Longrightarrow> wp m (\<lambda>r. uas_talked env u0 callId d a) w'"
  shows "wp (go_then (go_send env (Progress sdp)) m) (\<lambda>r. uas_talked env u0 callId d a) w"
  unfolding wp_then
proof (rule wp_send_at [OF assms(1)])
  fix e and w' :: "'s uas_world"
  assume "uas_at env u0 callId d ([(Trying, True)] @ [(Progress sdp, False)]) a w'"
  then show "case Err e of Ok x \<Rightarrow> wp m (\<lambda>r. uas_talked env u0 callId d a) w'
      | Err e \<Rightarrow> uas_talked env u0 callId d a w' | Panic p \<Rightarrow> uas_talked env u0 callId d a w'"
    unfolding res.case by (rule talkedI) (simp add: uas_dialogue_def)
qed (use assms(2) in simp)

lemma wp_update_at:
  fixes w :: "'s uas_world"
  assumes "uas_at env u0 callId d [(Trying, True)] a w"
    and "\<And>w'. uas_at env u0 callId d [(Trying, True)] a w' \<Longrightarrow> wp m (\<lambda>r. uas_talked env u0 callId d a) w'"
    and fair: "others_fair env callId"
  shows "wp (go_then (shared env (go_update env ps)) m) (\<lambda>r. uas_talked env u0 callId d a) w"
  by (rule wp_then_keep [OF at_update [OF fair] assms(1)]) (auto intro: assms(2) uas_here)

lemma onInviteSIPREC_dialogue:
  fixes w :: "'s uas_world"
  assumes at: "uas_at env u0 callId d [(Trying, True)] a w" and fair: "others_fair env callId"
  shows "wp (onInviteSIPREC env ct body) (\<lambda>r. uas_talked env u0 callId d a) w"
proof -
  have err: "wp (or_500 env (go_fail e)) (\<lambda>r. uas_talked env u0 callId d a) w" for e
    by (rule wp_or_500_at [OF at_mute [OF fair inward_pure(2) [THEN inward_mute]] at]) (auto intro: uas_here)
  have rest: "wp (go_then (shared env (go_update env ps)) (go_then (go_send env (Progress sdp)) (ring_and_answer env sdp (go_return ()))))
      (\<lambda>r. uas_talked env u0 callId d a) w'" if "uas_at env u0 callId d [(Trying, True)] a w'" for w' ps sdp
    by (intro wp_update_at [OF that] progress_dialogue ring_and_answer_dialogue mute_intros fair)
  have main: "wp (go_bind (or_500 env (go_lift r)) (\<lambda>audioInfos.
      go_bind (siprec_ports env audioInfos (sdpSIPREC (e_addr env))) (\<lambda>localSDP.
      go_bind (go_get localAudioPorts) (\<lambda>ps.
      go_then (shared env (go_update env ps)) (go_then (go_send env (Progress localSDP))
        (ring_and_answer env localSDP (go_return ())))))))
      (\<lambda>r. uas_talked env u0 callId d a) w" for r :: "(dialog_error, mediaInfo list) res"
    unfolding wp_bind [of "or_500 env (go_lift r)"]
  proof (rule wp_or_500_at [OF at_mute [OF fair inward_pure(5) [THEN inward_mute]] at])
    fix infos and w' :: "'s uas_world"
    assume at': "uas_at env u0 callId d [(Trying, True)] a w'"
    show "case Ok infos of Ok audioInfos \<Rightarrow> wp (go_bind (siprec_ports env audioInfos (sdpSIPREC (e_addr env))) (\<lambda>localSDP.
        go_bind (go_get localAudioPorts) (\<lambda>ps. go_then (shared env (go_update env ps)) (go_then (go_send env (Progress localSDP))
          (ring_and_answer env localSDP (go_return ())))))) (\<lambda>r. uas_talked env u0 callId d a) w'
      | Err e \<Rightarrow> uas_talked env u0 callId d a w' | Panic p \<Rightarrow> uas_talked env u0 callId d a w'"
      unfolding res.case wp_bind [of "siprec_ports env infos sdp" for sdp]
      by (rule wp_mono [OF siprec_ports_dialogue [OF at' fair]])
        (auto simp: wp_bind [of "go_get localAudioPorts"] wp_get intro: rest split: res.splits)
  qed (auto split: res.split)
  show ?thesis
    unfolding onInviteSIPREC_def using err main by (auto split: option.split prod.split)
qed

lemma onInvite_dialogue:
  fixes w :: "'s uas_world"
  assumes at0: "uas_at env u0 callId d [] a w" and fair: "others_fair env callId"
  shows "wp (onInvite env contentType body) (\<lambda>r. uas_talked env u0 callId d a) w"
proof -
  let ?T = "\<lambda>(r :: (dialog_error, unit) res). uas_talked env u0 callId d a :: 's uas_world \<Rightarrow> bool"
  define call where "call = (\<lambda>p (audioInfos :: mediaInfo list). go_bind (go_lift (index_slice audioInfos 0)) (\<lambda>remote.
      go_then (or_500 env (shared env (go_newMedia env remote \<lparr>addr = e_addr env, mport = uint p\<rparr>)))
      (let localSDP = sdpBase (e_addr env) p in
       go_then (go_send env (Progress localSDP))
         (go_then (play EarlyMedia) (ring_and_answer env localSDP (play AnswerMedia))))))"
  have call: "wp (call p infos) ?T w'" if at: "uas_at env u0 callId d [(Trying, True)] a w'" for p infos and w' :: "'s uas_world"
    unfolding call_def Let_def
  proof (rule wp_bind_keep [OF at_mute [OF fair inward_pure(5) [THEN inward_mute]] at])
    fix remote and w1 :: "'s uas_world"
    assume at1: "uas_at env u0 callId d [(Trying, True)] a w1"
    have ring: "wp (go_then (play EarlyMedia) (ring_and_answer env sdp (play AnswerMedia))) ?T w2"
      if "uas_at env u0 callId d [(Trying, True), (Progress sdp, True)] a w2" for sdp and w2 :: "'s uas_world"
      by (rule wp_then_keep [OF at_mute [OF fair mute_play] that])
        (auto intro: ring_and_answer_dialogue mute_play fair talkedI simp: uas_dialogue_def)
    show "wp (go_then (or_500 env (shared env (go_newMedia env remote \<lparr>addr = e_addr env, mport = uint p\<rparr>)))
        (go_then (go_send env (Progress (sdpBase (e_addr env) p)))
          (go_then (play EarlyMedia) (ring_and_answer env (sdpBase (e_addr env) p) (play AnswerMedia))))) ?T w1"
      unfolding wp_then [of "or_500 env m" for m]
      by (rule wp_or_500_at [OF at_mute [OF fair mute_shared [OF mute_newMedia]] at1]) (auto intro: progress_dialogue ring split: res.split)
  qed (auto intro: uas_here)
  have deferred: "wp (invite_media env p infos) ?T w'"
    if "uas_at env u0 callId d [(Trying, True)] a w'" for p infos and w' :: "'s uas_world"
    unfolding invite_media_def
    by (rule wp_defer_keep [OF call [OF that, unfolded call_def]]) (simp add: wp_modify uas_talked_def)
  define plain where "plain = go_bind (or_500 env (go_lift (wrap_err D_Sdp (getAudioMediaFromSDP (e_unmarshal env) body)))) (\<lambda>audioInfos.
      go_bind (or_500 env (take_port env)) (\<lambda>p. go_then (shared env (go_update env [p, p + 1]))
        (invite_media env p audioInfos)))"
  have plain: "wp plain ?T w'" if at: "uas_at env u0 callId d [(Trying, True)] a w'" for w' :: "'s uas_world"
    unfolding plain_def wp_bind [of "or_500 env m" for m]
  proof (rule wp_or_500_at [OF at_mute [OF fair inward_pure(5) [THEN inward_mute]] at])
    fix infos and w1 :: "'s uas_world"
    assume at1: "uas_at env u0 callId d [(Trying, True)] a w1"
    show "case Ok infos of Ok audioInfos \<Rightarrow> wp (or_500 env (take_port env)) (\<lambda>r s'. case r of
          Ok p \<Rightarrow> wp (go_then (shared env (go_update env [p, p + 1])) (invite_media env p audioInfos)) ?T s'
        | Err e \<Rightarrow> ?T (Err e) s' | Panic p \<Rightarrow> ?T (Panic p) s') w1
      | Err e \<Rightarrow> uas_talked env u0 callId d a w1 | Panic p \<Rightarrow> uas_talked env u0 callId d a w1"
      unfolding res.case
      by (rule wp_or_500_at [OF at_take_port [OF fair] at1]) (auto intro: wp_update_at deferred fair split: res.split)
  qed (auto split: res.split)
  have eq: "onInvite env contentType body = go_then (go_send env Trying)
     (case contentType of None \<Rightarrow> go_panic Nil_Dereference
      | Some ct \<Rightarrow> if ct \<noteq> ''application/sdp'' then onInviteSIPREC env ct body else plain)"
    unfolding onInvite_def plain_def by (rule refl)
  show ?thesis
    unfolding eq wp_then
  proof (rule wp_send_at [OF at0])
    fix w' :: "'s uas_world"
    assume "uas_at env u0 callId d ([] @ [(Trying, True)]) a w'"
    then have at: "uas_at env u0 callId d [(Trying, True)] a w'" by simp
    show "case Ok () of Ok x \<Rightarrow> wp (case contentType of None \<Rightarrow> go_panic Nil_Dereference
        | Some ct \<Rightarrow> if ct \<noteq> ''application/sdp'' then onInviteSIPREC env ct body else plain) ?T w'
      | Err e \<Rightarrow> uas_talked env u0 callId d a w' | Panic p \<Rightarrow> uas_talked env u0 callId d a w'"
      using onInviteSIPREC_dialogue [OF at fair] plain [OF at] uas_here [OF at]
      by (auto simp: wp_panic split: option.split)
  qed (auto intro!: talkedI simp: uas_dialogue_def)
qed

end
