(* ===== verification/Uas_Calls.thy ===== *)
theory Uas_Calls
  imports Dialog_Uas
begin

section \<open>Incoming calls as a whole\<close>

text \<open>
  What a call of \<open>Dialog_Uas\<close> does from \<open>NewDialogUas\<close> to \<open>Close\<close>, with other calls acting on the
  shared state at every step: it gives everything back, sends its messages in order, and goes through
  when all of its parts do.
\<close>

subsection \<open>A whole call\<close>

text \<open>The state in which the handler of the dialog is called.\<close>

definition uas_start :: "bool \<Rightarrow> string \<Rightarrow> nat \<Rightarrow> 's uas_world \<Rightarrow> 's uas_world" where
  "uas_start a callId d w =
     w\<lparr>w_ua := enter_ua callId d (w_ua w), w_others := w_ua w, w_media := None, w_done := False, w_cancelled := False,
       w_sent := [], w_waits := 0, w_stats := None, localAudioPorts := [], shouldAnswer := a\<rparr>"

lemma NewDialogUas_start: "NewDialogUas rnd chance callId d w = Some (Ok (), uas_start (rnd < chance) callId d w)"
  by (cases w) (simp add: NewDialogUas_def uas_start_def enter_dialog_def go_then_def go_bind_def go_modify_def)

lemma uas_start_at:
  assumes "pool_wf (w_ua w)" "in_int64 (metricsCurrentDialogs (w_ua w))"
  shows "uas_at env (w_ua w) callId d [] a (uas_start a callId d w)"
  using enter_shared [OF assms] by (simp add: uas_at_def uas_inv_def uas_start_def media_ok_def world_view_def)

text \<open>What the handler of the dialog establishes, \<open>P\<close>, and what \<open>Close\<close> makes of it, \<open>P'\<close>.\<close>

lemma Uas_call:
  fixes w :: "'s uas_world"
  assumes fair: "others_fair env callId" and wf: "pool_wf (w_ua w)" "in_int64 (metricsCurrentDialogs (w_ua w))"
    and handler: "uas_at env (w_ua w) callId d [] (rnd < chance) (uas_start (rnd < chance) callId d w) \<Longrightarrow>
      wp (onInvite env contentType body) (\<lambda>r w1. uas_inv env (w_ua w) callId d w1 \<and> P w1) (uas_start (rnd < chance) callId d w)"
    and closing: "\<And>w1 w2. P w1 \<Longrightarrow> w_sent w2 = w_sent w1 \<Longrightarrow> media_view w2 = media_view w1 \<Longrightarrow> localAudioPorts w2 = localAudioPorts w1 \<Longrightarrow>
      (leaves_rules env \<longrightarrow> w_rules w2 = (if localAudioPorts w1 = [] then w_rules w1
        else snd (snd (LookupAndDelete (e_ops env) (localAudioPorts w1) (w_rules w1))))) \<Longrightarrow> P' w2"
  shows "\<exists>r w'. Uas_onInvite env True rnd chance callId d contentType body w = Some (r, w')
    \<and> released callId w' \<and> (alone env \<longrightarrow> w_others w' = w_ua w) \<and> P' w'"
proof -
  let ?start = "uas_start (rnd < chance) callId d w"
  have "\<exists>r w'. go_then (NewDialogUas rnd chance callId d) (go_defer (uas_Close env callId) (go_ignore (onInvite env contentType body))) w
      = Some (r, w') \<and> (released callId w' \<and> (alone env \<longrightarrow> w_others w' = w_ua w) \<and> P' w')"
  proof (rule opened_and_closed [where start = "\<lambda>w'. w' = ?start"])
    show "wp (NewDialogUas rnd chance callId d) (\<lambda>r w'. r = Ok () \<and> w' = ?start) w"
      by (simp add: wp_def NewDialogUas_start)
    show "wp (onInvite env contentType body) (\<lambda>r w1. uas_inv env (w_ua w) callId d w1 \<and> P w1) w'" if "w' = ?start" for w'
      unfolding that by (rule handler [OF uas_start_at [OF wf]])
    fix w1 :: "'s uas_world"
    assume w1: "uas_inv env (w_ua w) callId d w1 \<and> P w1"
    show "wp (uas_Close env callId) (\<lambda>r w2. r = Ok () \<and> (released callId w2 \<and> (alone env \<longrightarrow> w_others w2 = w_ua w) \<and> P' w2)) w1"
    proof (rule wp_mono [OF uas_Close_releases [OF fair conjunct1 [OF w1]]], elim conjE)
      fix r and w2 :: "'s uas_world"
      assume *: "w_sent w2 = w_sent w1" "media_view w2 = media_view w1" "dialog_world.more w2 = dialog_world.more w1"
        "leaves_rules env \<longrightarrow> w_rules w2 = (if localAudioPorts w1 = [] then w_rules w1
          else snd (snd (LookupAndDelete (e_ops env) (localAudioPorts w1) (w_rules w1))))"
      have "P' w2" by (rule closing [OF conjunct2 [OF w1] *(1,2) uas_more(1) [OF *(3)] *(4)])
      moreover assume "r = Ok ()" "released callId w2" "alone env \<longrightarrow> w_others w2 = w_others w1"
      ultimately show "r = Ok () \<and> (released callId w2 \<and> (alone env \<longrightarrow> w_others w2 = w_ua w) \<and> P' w2)"
        using w1 by (simp add: uas_inv_def)
    qed
  qed
  then show ?thesis by (simp add: Uas_onInvite_def)
qed

subsection \<open>A plain call\<close>

lemma wp_plain_call:
  fixes w :: "'s uas_world"
  assumes fair: "others_fair env callId" and at: "uas_at env u0 callId d [] a (uas_start a callId d w)"
    and got: "gets_port env callId d w = Some (p, u, s, v)" and send: "e_send env 0"
    and sdp: "getAudioMediaFromSDP (e_unmarshal env) body = Ok infos"
    and rest: "\<And>w1. uas_at env u0 callId d [(Trying, True)] a w1 \<Longrightarrow> localAudioPorts w1 = [p] \<Longrightarrow> w_rules w1 = s \<Longrightarrow>
      w_waits w1 = 0 \<Longrightarrow> \<not> w_done w1 \<Longrightarrow> same_settings (w_ua w) (w_ua w1) \<Longrightarrow> p \<notin> ports v \<Longrightarrow>
      wp (go_then (go_update env [p, p + 1]) (invite_media env p infos)) Q w1"
  shows "wp (onInvite env (Some ''application/sdp'') body) Q (uas_start a callId d w)"
proof -
  let ?w = "(uas_start a callId d w)\<lparr>w_sent := [(Trying, True)]\<rparr>"
  have inv0: "shared_inv callId d [] (enter_ua callId d (w_ua w), w_rules w, w_ua w)"
    using at by (simp add: uas_at_def uas_inv_def uas_start_def world_view_def)
  from gets_port_turns [OF fair inv0 got] obtain u1 s1 v1 u2 where
    turn1: "e_others env (w_turns w) (enter_ua callId d (w_ua w), w_rules w, w_ua w) = (u1, s1, v1)"
    and u2: "getPort u1 = Some (Ok (p, u2))" "e_others env (w_turns w + 1) (u2, s1, v1) = (u, s, v)"
    and inv: "shared_inv callId d [p] (u, s, v)" "alone env \<longrightarrow> v = w_ua w"
    and same: "same_settings (w_ua w) u" and fresh: "p \<notin> ports v" by blast
  let ?w1 = "?w\<lparr>w_ua := u2, w_rules := s1, w_others := v1, w_turns := w_turns w + 1, localAudioPorts := [p]\<rparr>"
  let ?w2 = "?w1\<lparr>w_ua := u, w_rules := s, w_others := v, w_turns := w_turns w + 2\<rparr>"
  have take: "take_port env ?w = Some (Ok p, ?w1)"
    using turn1 u2(1)
    by (cases w) (simp add: take_port_def shared_def go_others_def go_getPort_def go_bind_def go_then_def go_modify_def
        go_return_def uas_start_def)
  have "uas_at env u0 callId d [(Trying, True)] a ?w2"
    using at inv by (simp add: uas_at_def uas_inv_def uas_start_def media_ok_def world_view_def)
  then have "wp (go_then (go_update env [p, p + 1]) (invite_media env p infos)) Q ?w2"
    by (rule rest) (use same fresh in \<open>simp_all add: uas_start_def\<close>)
  then have "wp (go_then (shared env (go_update env [p, p + 1])) (invite_media env p infos)) Q ?w1"
    using u2(2) by (cases w) (simp add: wp_then [of "shared env m" for m] wp_then [of "go_update env ps" for ps] wp_shared uas_start_def)
  moreover have "wp (or_500 env (take_port env)) R ?w = R (Ok p) ?w1" for R
    using take by (simp add: wp_or_500 wp_def [of "take_port env"])
  moreover have "uas_start a callId d w\<lparr>w_sent := w_sent (uas_start a callId d w) @ [(Trying, True)]\<rparr> = ?w" "w_sent (uas_start a callId d w) = []"
    by (simp_all add: uas_start_def)
  ultimately show ?thesis
    using send sdp by (simp add: onInvite_def wp_then [of "go_send env Trying"] wp_send wp_bind wp_or_500 wp_lift)
qed

subsection \<open>A call that goes well\<close>

text \<open>
  Before its \<open>n\<close>-th wait, with nothing that could go wrong but the peer hanging up; \<open>mv\<close> is the view of
  its media.
\<close>

definition fine_at ::
  "'s dialog_env \<Rightarrow> nat baseUa \<Rightarrow> string \<Rightarrow> nat \<Rightarrow> bool \<Rightarrow> nat \<Rightarrow> sip_msg list \<Rightarrow>
   ((bytes \<times> int) \<times> Packet list list) option \<Rightarrow> 's uas_world \<Rightarrow> bool" where
  "fine_at env u0 callId d a n msgs mv w \<longleftrightarrow>
     uas_at env u0 callId d (map (\<lambda>m. (m, True)) msgs) a w \<and> w_waits w = n \<and> \<not> w_done w \<and> well_equipped (w_ua w)
     \<and> same_settings u0 (w_ua w) \<and> media_view w = mv"

definition played :: "Packet list \<Rightarrow> ((bytes \<times> int) \<times> Packet list list) option \<Rightarrow> ((bytes \<times> int) \<times> Packet list list) option" where
  "played pkts = map_option (\<lambda>(dest, js). (dest, js @ played_jobs [pkts]))"

lemma fine_talked:
  "fine_at env u0 callId d a n msgs mv w \<Longrightarrow>
   uas_inv env u0 callId d w \<and> w_sent w = map (\<lambda>m. (m, True)) msgs \<and> media_view w = mv"
  by (simp add: fine_at_def uas_at_def)

lemma wp_send_fine:
  assumes "fine_at env u0 callId d a n msgs mv w" "\<forall>k. e_send env k"
    and "\<And>w'. fine_at env u0 callId d a n (msgs @ [msg]) mv w' \<Longrightarrow> Q (Ok ()) w'"
  shows "wp (go_send env msg) Q w"
  using assms by (simp add: wp_send fine_at_def uas_at_def media_view_def)

lemma wp_wait_fine:
  fixes w :: "'s uas_world"
  assumes fair: "others_fair env callId" and at: "fine_at env u0 callId d a n msgs mv w"
    and ended: "\<And>w'. uas_inv env u0 callId d w' \<Longrightarrow> w_sent w' = map (\<lambda>m. (m, True)) msgs \<Longrightarrow> media_view w' = mv \<Longrightarrow>
      e_hangup env n \<Longrightarrow> Q (Ok True) w'"
    and rung: "\<And>w'. fine_at env u0 callId d a (n + 1) msgs mv w' \<Longrightarrow> \<not> e_hangup env n \<Longrightarrow> Q (Ok False) w'"
  shows "wp (wait_ringing env) Q w" "wp (wait_answer env) Q w"
proof -
  from at have w: "shared_inv callId d (localAudioPorts w) (world_view w)" "well_equipped (w_ua w)" "\<not> w_done w" "w_waits w = n"
    by (simp_all add: fine_at_def uas_at_def uas_inv_def)
  have Q: "Q (Ok (e_hangup env (w_waits w)))
      (w\<lparr>w_ua := u, w_rules := s, w_others := v, w_turns := t, w_media := map_option (set_counts (e_count env (w_waits w))) (w_media w),
        w_done := e_hangup env (w_waits w), w_waits := w_waits w + 1\<rparr>)" (is "Q _ ?w")
    if "shared_inv callId d (localAudioPorts w) (u, s, v)" "same_settings (w_ua w) u" "alone env \<longrightarrow> v = w_others w" for u s v t
  proof -
    have "uas_inv env u0 callId d ?w"
      using that at by (auto simp: fine_at_def uas_at_def uas_inv_def media_ok_def world_view_def media_inv_counts)
    moreover have "media_view ?w = media_view w"
      by (cases "w_media w") (simp_all add: media_view_def set_counts_def)
    ultimately show ?thesis
      using that(2) at w(4) ended [of ?w] rung [of ?w]
      by (cases "e_hangup env n") (simp_all add: fine_at_def uas_at_def same_settings_def)
  qed
  show "wp (wait_ringing env) Q w" by (rule wp_waits(1) [OF fair w(1-3)]) (rule Q)
  show "wp (wait_answer env) Q w" by (rule wp_waits(2) [OF fair w(1-3)]) (rule Q)
qed

lemma wp_play_fine:
  fixes w :: "'s uas_world"
  assumes "f = EarlyMedia \<or> f = AnswerMedia" and "fine_at env u0 callId d a n msgs mv w"
    and "\<And>w'. fine_at env u0 callId d a n msgs (played (f u0) mv) w' \<Longrightarrow> Q (Ok ()) w'"
  shows "wp (play f) Q w"
proof -
  have ok: "media_ok w" and f: "f (w_ua w) = f u0"
    using assms(1,2) by (auto simp: fine_at_def uas_at_def uas_inv_def same_settings_def)
  have "\<exists>om. playback (f u0) (w_media w) = Ok om \<and> (\<forall>m. om = Some m \<longrightarrow> media_inv m)
    \<and> map_option (\<lambda>m. (m_dest m, m_jobs m)) om = played (f u0) (media_view w)"
  proof (cases "w_media w")
    case (Some m)
    then show ?thesis using ok playback_jobs [of m "f u0"] by (auto simp: media_ok_def media_view_def played_def played_jobs_def)
  qed (simp add: playback_def media_view_def played_def)
  then obtain om where om: "playback (f u0) (w_media w) = Ok om" "\<forall>m. om = Some m \<longrightarrow> media_inv m"
      "map_option (\<lambda>m. (m_dest m, m_jobs m)) om = played (f u0) (media_view w)" by blast
  then have "fine_at env u0 callId d a n msgs (played (f u0) mv) (w\<lparr>w_media := om\<rparr>)"
    using assms(2) by (simp add: fine_at_def uas_at_def uas_inv_def media_ok_def world_view_def media_view_def)
  with assms(3) om(1) f show ?thesis by (simp add: play_def wp_bind wp_get wp_on_media)
qed

text \<open>What is sent from the 183 on, depending on whether the peer hangs up during a wait.\<close>

definition talk_after :: "bool \<Rightarrow> bool \<Rightarrow> bool \<Rightarrow> string \<Rightarrow> sip_msg list" where
  "talk_after a hangup0 hangup1 sdp =
     (if hangup0 then [] else if \<not> a then [Busy] else Answer sdp # (if hangup1 then [] else [Bye]))"

lemma ring_and_answer_fine:
  fixes w :: "'s uas_world"
  assumes fair: "others_fair env callId" and at: "fine_at env u0 callId d a 0 msgs mv w" and send: "\<forall>k. e_send env k"
    and Q: "\<And>w'. uas_inv env u0 callId d w' \<Longrightarrow>
      w_sent w' = map (\<lambda>m. (m, True)) (msgs @ talk_after a (e_hangup env 0) (e_hangup env 1) sdp) \<Longrightarrow>
      media_view w' = (if e_hangup env 0 \<or> \<not> a then mv else played (AnswerMedia u0) mv) \<Longrightarrow> Q (Ok ()) w'"
  shows "wp (ring_and_answer env sdp (play AnswerMedia)) Q w"
  unfolding ring_and_answer_def wp_bind [of "wait_ringing env"]
proof (rule wp_wait_fine(1) [OF fair at], goal_cases)
  case (1 w')
  then show ?case using Q by (simp add: wp_return talk_after_def)
next
  case (2 w1)
  then have at1: "fine_at env u0 callId d a 1 msgs mv w1" by simp
  have a: "shouldAnswer w1 = a" using at1 by (simp add: fine_at_def uas_at_def)
  have busy: "wp (go_ignore (go_send env Busy)) Q w1" if "\<not> a"
    unfolding wp_ignore
    by (rule wp_send_fine [OF at1 send]) (use 2 that Q in \<open>auto dest: fine_talked simp: talk_after_def\<close>)
  have answer: "wp (go_then (go_send env (Answer sdp)) (go_then (play AnswerMedia) (go_bind (wait_answer env)
      (\<lambda>receiveBye. if receiveBye then go_return () else go_send env Bye)))) Q w1" if a
    unfolding wp_then wp_bind
  proof (rule wp_send_fine [OF at1 send], unfold res.case, rule wp_play_fine [OF disjI2 [OF refl]], assumption, unfold res.case, erule wp_wait_fine(2) [OF fair], goal_cases)
    case (1 w2 w3 w4)
    then show ?case using Q \<open>\<not> e_hangup env 0\<close> that by (simp add: wp_return talk_after_def)
  next
    case (2 w2 w3 w4)
    have "wp (go_send env Bye) Q w4"
      by (rule wp_send_fine [OF 2(2) send])
        (use 2 Q \<open>\<not> e_hangup env 0\<close> that in \<open>auto dest: fine_talked simp: talk_after_def\<close>)
    then show ?case by simp
  qed
  show ?case
    using busy answer a by (cases a) (simp_all add: wp_get wp_bind [of "go_get shouldAnswer"])
qed

text \<open>The media is made after a turn of the others.\<close>

lemma invite_media_fine:
  fixes w :: "'s uas_world"
  assumes fair: "others_fair env callId" and at: "fine_at env u0 callId d a 0 msgs mv w" and send: "\<forall>k. e_send env k"
    and peer: "reachable_peer env (addr remote)"
    and Q: "\<And>r w'. uas_inv env u0 callId d w' \<Longrightarrow>
      w_sent w' = map (\<lambda>m. (m, True)) (msgs @ Progress (sdpBase (e_addr env) p)
        # talk_after a (e_hangup env 0) (e_hangup env 1) (sdpBase (e_addr env) p)) \<Longrightarrow>
      media_view w' = Some ((ip4_of (addr remote), mport remote),
        played_jobs (EarlyMedia u0 # (if e_hangup env 0 \<or> \<not> a then [] else [AnswerMedia u0]))) \<Longrightarrow> Q r w'"
  shows "wp (invite_media env p (remote # others)) Q w"
proof -
  let ?sdp = "sdpBase (e_addr env) p" and ?local = "\<lparr>addr = e_addr env, mport = uint p\<rparr>"
  let ?S = "\<lambda>w'. uas_inv env u0 callId d w' \<and> w_sent w' = map (\<lambda>m. (m, True)) (msgs @ Progress ?sdp
    # talk_after a (e_hangup env 0) (e_hangup env 1) ?sdp)
    \<and> media_view w' = Some ((ip4_of (addr remote), mport remote),
        played_jobs (EarlyMedia u0 # (if e_hangup env 0 \<or> \<not> a then [] else [AnswerMedia u0])))"
  let ?dest = "(ip4_of (addr remote), mport remote)"
  let ?rest = "go_then (go_send env (Progress ?sdp)) (go_then (play EarlyMedia) (ring_and_answer env ?sdp (play AnswerMedia)))"
  have talk: "wp ?rest (\<lambda>r. ?S) w'" if "fine_at env u0 callId d a 0 msgs (Some (?dest, [])) w'" for w'
    unfolding wp_then
    by (rule wp_send_fine [OF that send], unfold res.case, rule wp_play_fine [OF disjI1 [OF refl]], assumption, unfold res.case,
        erule ring_and_answer_fine [OF fair _ send]) (auto simp: played_def played_jobs_def)
  have sh: "shared_inv callId d (localAudioPorts w) (world_view w)" using at by (simp add: fine_at_def uas_at_def uas_inv_def)
  have "wp (shared env (go_newMedia env remote ?local)) (\<lambda>r w'. r = Ok () \<and> fine_at env u0 callId d a 0 msgs (Some (?dest, [])) w') w"
  proof (rule wp_turn [OF fair sh])
    fix u v and s :: 's
    assume *: "shared_inv callId d (localAudioPorts w) (u, s, v)" "same_settings (w_ua w) u" "alone env \<longrightarrow> v = w_others w"
    let ?w = "w\<lparr>w_ua := u, w_rules := s, w_others := v, w_turns := w_turns w + 1\<rparr>"
    have "well_equipped u" using at *(2) by (simp add: fine_at_def same_settings_def)
    from newMedia_fine [OF peer this, of "w_turns w + 1" ?local] obtain m u' where
      m: "newMedia (fst (e_tables env (w_turns w + 1))) (snd (e_tables env (w_turns w + 1))) remote ?local u = (Ok m, u')" "media_inv m" by blast
    from newMedia_socket [OF m(1)] have u': "well_equipped u' \<and> shared_inv callId d (localAudioPorts w) (u', s, v)"
      using \<open>well_equipped u\<close> *(1) rr_Next_eq [of "xdpSocketsLB u"]
      by (auto simp: well_equipped_def rr_wf_def shared_inv_def pool.owned_since_def pool_wf_def)
    moreover have "m_dest m = ?dest" "m_jobs m = []" using newMedia_Ok [OF m(1)] by (auto simp: fresh_media_def)
    moreover have "same_settings u u'" using newMedia_socket [OF m(1)] u' by (auto simp: same_settings_def)
    ultimately have "fine_at env u0 callId d a 0 msgs (Some (?dest, [])) (w\<lparr>w_ua := u', w_rules := s, w_others := v, w_turns := w_turns w + 1, w_media := Some m\<rparr>)"
      using at * m(2) by (simp add: fine_at_def uas_at_def uas_inv_def media_ok_def world_view_def media_view_def same_settings_def)
    then show "wp (go_newMedia env remote ?local) (\<lambda>r w'. r = Ok () \<and> fine_at env u0 callId d a 0 msgs (Some (?dest, [])) w') ?w"
      using m(1) by (cases w) (simp add: wp_newMedia)
  qed
  moreover have idx: "index_slice (remote # others) 0 = Ok remote" by simp
  ultimately have "wp (go_bind (go_lift (index_slice (remote # others) 0)) (\<lambda>remote.
      go_then (or_500 env (shared env (go_newMedia env remote ?local))) ?rest)) (\<lambda>r. ?S) w"
    unfolding wp_bind [of "go_lift r" for r] wp_lift idx res.case wp_then [of "or_500 env n" for n] wp_or_500
    by (elim wp_mono conjE, hypsubst, unfold res.case) (rule talk)
  then have "wp (invite_media env p (remote # others)) (\<lambda>r. ?S) w"
    unfolding invite_media_def Let_def by (rule wp_defer_keep) (simp add: wp_modify)
  then show ?thesis by (rule wp_mono) (use Q in auto)
qed

lemma plain_call_goes_through:
  assumes "others_fair env callId" and "pool_wf (w_ua w)" and "in_int64 (metricsCurrentDialogs (w_ua w))"
    and "well_equipped (w_ua w)" and "\<forall>k. e_send env k"
    and "getAudioMediaFromSDP (e_unmarshal env) body = Ok (remote # others)" and "reachable_peer env (addr remote)"
    and "gets_port env callId d w = Some (p, u, s, v)" and "fst (ebpf_Update (e_ops env) [p, p + 1] s) = None"
  shows "\<exists>r w'. Uas_onInvite env True rnd chance callId d (Some ''application/sdp'') body w = Some (r, w')
    \<and> released callId w' \<and> (alone env \<longrightarrow> w_others w' = w_ua w) \<and> p \<notin> ports v
    \<and> w_sent w' = map (\<lambda>m. (m, True)) ([Trying, Progress (sdpBase (e_addr env) p)]
        @ talk_after (rnd < chance) (e_hangup env 0) (e_hangup env 1) (sdpBase (e_addr env) p))
    \<and> media_view w' = Some ((ip4_of (addr remote), mport remote),
        played_jobs (EarlyMedia (w_ua w) # (if e_hangup env 0 \<or> \<not> rnd < chance then [] else [AnswerMedia (w_ua w)])))"
proof -
  let ?a = "rnd < chance"
  let ?P = "\<lambda>w1. p \<notin> ports v \<and> w_sent w1 = map (\<lambda>m. (m, True)) ([Trying, Progress (sdpBase (e_addr env) p)]
      @ talk_after ?a (e_hangup env 0) (e_hangup env 1) (sdpBase (e_addr env) p))
    \<and> media_view w1 = Some ((ip4_of (addr remote), mport remote),
        played_jobs (EarlyMedia (w_ua w) # (if e_hangup env 0 \<or> \<not> ?a then [] else [AnswerMedia (w_ua w)])))"
  show ?thesis
  proof (rule Uas_call [OF assms(1-3), where P = ?P])
    assume at: "uas_at env (w_ua w) callId d [] ?a (uas_start ?a callId d w)"
    show "wp (onInvite env (Some ''application/sdp'') body) (\<lambda>r w1. uas_inv env (w_ua w) callId d w1 \<and> ?P w1) (uas_start ?a callId d w)"
    proof (rule wp_plain_call [OF assms(1) at assms(8) _ assms(6)])
      show "e_send env 0" using assms(5) by simp
      fix w1 :: "'a uas_world"
      assume w1: "uas_at env (w_ua w) callId d [(Trying, True)] ?a w1" "w_rules w1 = s" "w_waits w1 = 0" "\<not> w_done w1"
        "same_settings (w_ua w) (w_ua w1)" "p \<notin> ports v"
      obtain s1 where s1: "ebpf_Update (e_ops env) [p, p + 1] s = (None, s1)"
        using assms(9) by (metis prod.collapse)
      have "fine_at env (w_ua w) callId d ?a 0 [Trying] (media_view w1) (w1\<lparr>w_rules := s1\<rparr>)"
        using w1 assms(4) by (simp add: fine_at_def uas_at_def same_settings_def media_view_def)
      then have "wp (invite_media env p (remote # others)) (\<lambda>r w1. uas_inv env (w_ua w) callId d w1 \<and> ?P w1) (w1\<lparr>w_rules := s1\<rparr>)"
        by (rule invite_media_fine [OF assms(1) _ assms(5,7)]) (use w1(6) in simp)
      then show "wp (go_then (go_update env [p, p + 1]) (invite_media env p (remote # others)))
          (\<lambda>r w1. uas_inv env (w_ua w) callId d w1 \<and> ?P w1) w1"
        using s1 w1(2) by (simp add: wp_then wp_update)
    qed
  qed simp

qed

subsection \<open>Properties\<close>

text \<open>An agent on its own, and another call that takes a port meanwhile.\<close>

definition sample_call :: "(u64 \<times> rtp_info) list uas_world" where
  "sample_call =
     \<lparr>w_ua = sample_agent, w_rules = [], w_others = sample_agent, w_turns = 0, w_media = None, w_done = False, w_cancelled = False,
      w_sent = [], w_waits = 0, w_stats = None, localAudioPorts = [], shouldAnswer = False\<rparr>"

lemma sample_call_facts:
  "pool_wf (w_ua sample_call)" "in_int64 (metricsCurrentDialogs (w_ua sample_call))" "well_equipped (w_ua sample_call)"
  using sample_agent_facts by (simp_all add: sample_call_def)

text \<open>
  C1. A call never keeps anything. Whatever the request contains, the peer does, the system calls and
  the SIP library answer, wherever the handler leaves early, and whatever other calls do on the shared
  state in between: \<open>onInvite\<close> returns, and afterwards the ports that are held, the number of used ports
  and of current dialogs are those of the other calls alone, the Call-ID has no entry and no playback is
  left running. Without other calls, that is what they were before. This covers the
  panics, too, since the release is deferred.
\<close>

theorem uas_call_releases:
  assumes "others_fair env callId" and "pool_wf (w_ua w)" and "in_int64 (metricsCurrentDialogs (w_ua w))"
  shows "\<exists>r w'. Uas_onInvite env True rnd chance callId d contentType body w = Some (r, w')
    \<and> pool_wf (w_ua w') \<and> ports (w_ua w') = ports (w_others w') \<and> portsUsed (w_ua w') = 2 * int (card (ports (w_others w')))
    \<and> dialogs (w_ua w') = (dialogs (w_others w'))(callId := None)
    \<and> metricsCurrentDialogs (w_ua w') = metricsCurrentDialogs (w_others w')
    \<and> metricsDialogs (w_ua w') = metricsDialogs (w_others w') + 1
    \<and> (\<forall>m. w_media w' = Some m \<longrightarrow> \<not> m_playing m)
    \<and> (alone env \<longrightarrow> w_others w' = w_ua w)"
proof -
  have "\<exists>r w'. Uas_onInvite env True rnd chance callId d contentType body w = Some (r, w')
      \<and> released callId w' \<and> (alone env \<longrightarrow> w_others w' = w_ua w) \<and> True"
  proof (rule Uas_call [OF assms, where P = "\<lambda>_. True"])
    assume "uas_at env (w_ua w) callId d [] (rnd < chance) (uas_start (rnd < chance) callId d w)"
    then show "wp (onInvite env contentType body) (\<lambda>r w1. uas_inv env (w_ua w) callId d w1 \<and> True)
        (uas_start (rnd < chance) callId d w)"
      by (simp, intro preservesD [OF uas_onInvite [OF assms(1)]]) (simp add: uas_at_def)
  qed simp
  then show ?thesis unfolding released_def pool_wf_def by auto
qed

theorem uas_call_releases_witness:
  "\<exists>r w'. Uas_onInvite sample_calls True 0 1 ''id'' 3 (Some ''application/sdp'') [] sample_call = Some (r, w')
     \<and> ports (w_ua w') = ports (w_others w') \<and> dialogs (w_ua w') ''id'' = None"
  using uas_call_releases [OF sample_fair sample_call_facts(1,2), of 0 1 3 "Some ''application/sdp''" "[]"] by auto

text \<open>
  C2. The messages of a call come in an order that SIP allows, whatever other calls do meanwhile: 100
  Trying first; then either 500, or
  183 with a session description; then 486 if the dice say so, otherwise 200 with the very
  description of the 183; then BYE, if the peer has not hung up. Nothing is sent after a message that
  could not be sent.
\<close>

theorem uas_call_messages:
  assumes "others_fair env callId" and "pool_wf (w_ua w)" and "in_int64 (metricsCurrentDialogs (w_ua w))"
  shows "\<exists>r w' sdp. Uas_onInvite env True rnd chance callId d contentType body w = Some (r, w')
    \<and> list_all snd (butlast (w_sent w'))
    \<and> map fst (w_sent w') \<in> {[Trying], [Trying, Server_Error], [Trying, Progress sdp]}
        \<union> (if rnd < chance then {[Trying, Progress sdp, Answer sdp], [Trying, Progress sdp, Answer sdp, Bye]}
           else {[Trying, Progress sdp, Busy]})"
proof -
  let ?a = "rnd < chance"
  have "\<exists>r w'. Uas_onInvite env True rnd chance callId d contentType body w = Some (r, w') \<and> released callId w'
      \<and> (alone env \<longrightarrow> w_others w' = w_ua w) \<and> uas_dialogue ?a (w_sent w')"
  proof (rule Uas_call [OF assms, where P = "\<lambda>w1. uas_dialogue ?a (w_sent w1)"])
    assume at: "uas_at env (w_ua w) callId d [] ?a (uas_start ?a callId d w)"
    show "wp (onInvite env contentType body) (\<lambda>r w1. uas_inv env (w_ua w) callId d w1 \<and> uas_dialogue ?a (w_sent w1))
        (uas_start ?a callId d w)"
      using onInvite_dialogue [OF at assms(1)] by (rule wp_mono) (simp add: uas_talked_def)
  qed simp
  then show ?thesis unfolding uas_dialogue_def by (elim exE conjE) (intro exI conjI, assumption+)
qed

theorem uas_call_messages_witness:
  "\<exists>r w' sdp. Uas_onInvite sample_calls True 1 1 ''id'' 3 (Some ''application/sdp'') [] sample_call = Some (r, w')
     \<and> map fst (w_sent w') \<in> {[Trying], [Trying, Server_Error], [Trying, Progress sdp], [Trying, Progress sdp, Busy]}"
  using uas_call_messages [OF sample_fair sample_call_facts(1,2), of 1 1 3 "Some ''application/sdp''" "[]"] by auto

text \<open>
  C3. A call whose parts all work is carried through, in spite of the others: with a valid
  description, a port and a rule to be had at its turn, a route to the peer and messages that can be
  sent, the callee answers 100 and 183 with that port, which no other call
  holds, then, unless the peer hangs up meanwhile, 486 if the dice say so, otherwise 200, and BYE at
  the end of the answer time, unless the peer is first. Its media sends to the address and port of the
  description, the early media and, once answered, the answer media.
\<close>

theorem uas_call_completes:
  assumes "others_fair env callId" and "pool_wf (w_ua w)" and "in_int64 (metricsCurrentDialogs (w_ua w))"
    and "well_equipped (w_ua w)" and "\<forall>k. e_send env k"
    and "getAudioMediaFromSDP (e_unmarshal env) body = Ok (remote # others)" and "reachable_peer env (addr remote)"
    and "gets_port env callId d w = Some (p, u, s, v)" and "fst (ebpf_Update (e_ops env) [p, p + 1] s) = None"
  shows "\<exists>r w'. Uas_onInvite env True rnd chance callId d (Some ''application/sdp'') body w = Some (r, w')
    \<and> p \<notin> ports v
    \<and> w_sent w' = map (\<lambda>m. (m, True)) ([Trying, Progress (sdpBase (e_addr env) p)]
        @ talk_after (rnd < chance) (e_hangup env 0) (e_hangup env 1) (sdpBase (e_addr env) p))
    \<and> media_view w' = Some ((ip4_of (addr remote), mport remote),
        played_jobs (EarlyMedia (w_ua w) # (if e_hangup env 0 \<or> \<not> rnd < chance then [] else [AnswerMedia (w_ua w)])))"
  using plain_call_goes_through [OF assms] by blast

theorem uas_call_completes_witness:
  "\<exists>r w' p. Uas_onInvite sample_calls True 0 1 ''id'' 3 (Some ''application/sdp'') [] sample_call = Some (r, w')
     \<and> map fst (w_sent w') = [Trying, Progress (sdpBase ''10.0.0.1'' p), Answer (sdpBase ''10.0.0.1'' p), Bye]"
proof -
  have "e_others sample_calls = sample_others" by (simp add: sample_calls_def)
  from sample_gets_port [OF this sample_fair, of sample_call] obtain p u v where
    "gets_port sample_calls ''id'' 3 sample_call = Some (p, u, [], v)" by (auto simp: sample_call_def)
  from uas_call_completes [OF sample_fair sample_call_facts _ sample_infos [of "[]"] sample_reachable this sample_updates, of 0 1]
  show ?thesis by (auto simp: talk_after_def sample_calls_def)
qed

text \<open>
  C35. The rule of the RTCP port stays. \<open>onInvite\<close> registers the port it got and the one above it,
  \<open>Close\<close> removes the first only: after every plain call whose port could be registered, the kernel
  still has a counter for the port above although the port is free again, while the other calls leave
  the kernel's map as it is.
\<close>

theorem uas_rtcp_rule_stays:
  assumes "rules_map (e_ops env)" and "others_fair env callId" and "leaves_rules env"
    and "pool_wf (w_ua w)" and "in_int64 (metricsCurrentDialogs (w_ua w))"
    and "e_send env 0" and "getAudioMediaFromSDP (e_unmarshal env) body = Ok infos"
    and "gets_port env callId d w = Some (p, u, s, v)" and "fst (ebpf_Update (e_ops env) [p, p + 1] s) = None"
  shows "\<exists>r w'. Uas_onInvite env True rnd chance callId d (Some ''application/sdp'') body w = Some (r, w')
    \<and> localAudioPorts w' = [p] \<and> ports (w_ua w') = ports (w_others w')
    \<and> op_elem (e_ops env) (w_rules w') (port_key (p + 1)) = Some zero_info"
proof -
  let ?u0 = "w_ua w" and ?a = "rnd < chance"
  let ?P = "\<lambda>w1. localAudioPorts w1 = [p] \<and> op_elem (e_ops env) (w_rules w1) (port_key (p + 1)) = Some zero_info"
  have "\<exists>r w'. Uas_onInvite env True rnd chance callId d (Some ''application/sdp'') body w = Some (r, w')
      \<and> released callId w' \<and> (alone env \<longrightarrow> w_others w' = w_ua w) \<and> ?P w'"
  proof (rule Uas_call [OF assms(2,4,5), where P = ?P])
    assume at: "uas_at env ?u0 callId d [] ?a (uas_start ?a callId d w)"
    show "wp (onInvite env (Some ''application/sdp'') body) (\<lambda>r w1. uas_inv env ?u0 callId d w1 \<and> ?P w1) (uas_start ?a callId d w)"
    proof (rule wp_plain_call [OF assms(2) at assms(8,6,7)])
      fix w1 :: "'a uas_world"
      assume w1: "uas_at env ?u0 callId d [(Trying, True)] ?a w1" "localAudioPorts w1 = [p]" "w_rules w1 = s"
      obtain s1 where s1: "ebpf_Update (e_ops env) [p, p + 1] s = (None, s1)"
        using assms(9) by (metis prod.collapse)
      have elem: "op_elem (e_ops env) s1 (port_key (p + 1)) = Some zero_info"
        using rules_map.Update_elem [OF assms(1) s1, of "p + 1"] by simp
      let ?J = "\<lambda>w2. uas_inv env ?u0 callId d w2 \<and> localAudioPorts w2 = [p] \<and> w_rules w2 = s1"
      have J: "preserves ?J (invite_media env p infos)"
      proof (rule calm_preserves [OF calm_invite_media assms(2)])
        fix w2 w3 :: "'a uas_world"
        assume *: "?J w2" "media_ok w3" "moved env callId w2 w3"
        moreover have "w_rules w3 = w_rules w2" using *(3) assms(3) by (simp add: moved_def kept_def)
        ultimately show "?J w3" using uas_inv_moved [OF _ *(2,3)] uas_moved(1) [OF *(3)] by simp
      qed (simp add: uas_inv_def)
      have "?J (w1\<lparr>w_rules := s1\<rparr>)" using w1 by (simp add: uas_at_def)
      from preservesD [OF J this]
      have "wp (invite_media env p infos) (\<lambda>r w2. uas_inv env ?u0 callId d w2 \<and> ?P w2) (w1\<lparr>w_rules := s1\<rparr>)"
        by (rule wp_mono) (use elem in auto)
      then show "wp (go_then (go_update env [p, p + 1]) (invite_media env p infos)) (\<lambda>r w1. uas_inv env ?u0 callId d w1 \<and> ?P w1) w1"
        using s1 w1(3) by (simp add: wp_then wp_update)
    qed
  next
    fix w1 w2 :: "'a uas_world"
    assume *: "?P w1" "localAudioPorts w2 = localAudioPorts w1"
      "leaves_rules env \<longrightarrow> w_rules w2 = (if localAudioPorts w1 = [] then w_rules w1
        else snd (snd (LookupAndDelete (e_ops env) (localAudioPorts w1) (w_rules w1))))"
    obtain infos' e s2 where lad: "LookupAndDelete (e_ops env) [p] (w_rules w1) = (infos', e, s2)" by (metis prod_cases3)
    have "p + 1 \<noteq> p" by simp
    then have "port_key (p + 1) \<notin> port_key ` set [p]" by (auto simp: port_key_inj)
    from rules_map.LookupAndDelete_frame [OF assms(1) lad this] show "?P w2"
      using * lad assms(3) by simp
  qed
  then show ?thesis unfolding released_def by blast
qed

theorem uas_rtcp_rule_stays_witness:
  "\<exists>r w' p. Uas_onInvite sample_calls True 0 1 ''id'' 3 (Some ''application/sdp'') [] sample_call = Some (r, w')
     \<and> ports (w_ua w') = ports (w_others w') \<and> op_elem hash_ops (w_rules w') (port_key (p + 1)) = Some zero_info"
proof -
  have "rules_map (e_ops sample_calls)" using hash.rules_map_axioms by (simp add: sample_calls_def)
  moreover have "leaves_rules sample_calls"
    by (auto simp: leaves_rules_def sample_calls_def sample_others_def split: option.split res.split)
  moreover have others: "e_others sample_calls = sample_others" "e_send sample_calls 0" by (simp_all add: sample_calls_def)
  moreover obtain p u v where "gets_port sample_calls ''id'' 3 sample_call = Some (p, u, [], v)"
    using sample_gets_port [OF others(1) sample_fair, of sample_call] by (auto simp: sample_call_def)
  ultimately show ?thesis
    using uas_rtcp_rule_stays [OF _ sample_fair _ sample_call_facts(1,2) _ sample_infos [of "[]"] _ sample_updates,
        where rnd = 0 and chance = 1] by (fastforce simp: sample_calls_def)
qed

text \<open>
  C34. Two failures get no answer but the 100, so that the caller waits for its timeout: when the port
  cannot be registered, where the other errors are answered by a 500, and when the description has no
  audio stream, where indexing the empty list panics.
\<close>

theorem uas_unanswered_failures:
  assumes "others_fair env callId" and "pool_wf (w_ua w)" and "in_int64 (metricsCurrentDialogs (w_ua w))"
    and "e_send env 0" and "getAudioMediaFromSDP (e_unmarshal env) body = Ok infos"
    and "gets_port env callId d w = Some (p, u, s, v)"
    and "infos = [] \<or> fst (ebpf_Update (e_ops env) [p, p + 1] s) \<noteq> None"
  shows "\<exists>r w'. Uas_onInvite env True rnd chance callId d (Some ''application/sdp'') body w = Some (r, w')
    \<and> w_sent w' = [(Trying, True)]"
proof -
  let ?a = "rnd < chance"
  have "\<exists>r w'. Uas_onInvite env True rnd chance callId d (Some ''application/sdp'') body w = Some (r, w')
      \<and> released callId w' \<and> (alone env \<longrightarrow> w_others w' = w_ua w) \<and> w_sent w' = [(Trying, True)]"
  proof (rule Uas_call [OF assms(1-3), where P = "\<lambda>w1. w_sent w1 = [(Trying, True)]"])
    assume at: "uas_at env (w_ua w) callId d [] ?a (uas_start ?a callId d w)"
    show "wp (onInvite env (Some ''application/sdp'') body)
        (\<lambda>r w1. uas_inv env (w_ua w) callId d w1 \<and> w_sent w1 = [(Trying, True)]) (uas_start ?a callId d w)"
    proof (rule wp_plain_call [OF assms(1) at assms(6,4,5)])
      fix w1 :: "'a uas_world"
      assume w1: "uas_at env (w_ua w) callId d [(Trying, True)] ?a w1" "w_rules w1 = s"
      obtain e s1 where "ebpf_Update (e_ops env) [p, p + 1] s = (e, s1)" by (metis prod.collapse)
      then show "wp (go_then (go_update env [p, p + 1]) (invite_media env p infos))
          (\<lambda>r w1. uas_inv env (w_ua w) callId d w1 \<and> w_sent w1 = [(Trying, True)]) w1"
        using assms(7) w1
        by (cases e) (auto simp: wp_then wp_update invite_media_def wp_defer wp_bind wp_lift wp_modify uas_at_def)
    qed
  qed simp
  then show ?thesis by blast
qed

theorem uas_unanswered_failures_witness:
  "\<exists>r w'. Uas_onInvite (sample_calls\<lparr>e_unmarshal := \<lambda>_. Some \<lparr>sd_Connection = None, sd_Medias = []\<rparr>\<rparr>)
       True 0 1 ''id'' 3 (Some ''application/sdp'') [] sample_call = Some (r, w') \<and> w_sent w' = [(Trying, True)]"
proof -
  let ?e = "sample_calls\<lparr>e_unmarshal := \<lambda>_. Some \<lparr>sd_Connection = None, sd_Medias = []\<rparr>\<rparr>"
  have fair: "others_fair ?e ''id''" using sample_fair by (simp add: others_fair_def)
  have e: "e_others ?e = sample_others" "e_send ?e 0" "getAudioMediaFromSDP (e_unmarshal ?e) [] = Ok []"
    by (simp_all add: sample_calls_def getAudioMediaFromSDP_def)
  obtain p u v where "gets_port ?e ''id'' 3 sample_call = Some (p, u, [], v)"
    using sample_gets_port [OF e(1) fair, of sample_call] by (auto simp: sample_call_def)
  from uas_unanswered_failures [OF fair sample_call_facts(1,2) e(2,3) this] show ?thesis by simp
qed

end
