(* ===== verification/Dialog_Uac.thy ===== *)
theory Dialog_Uac
  imports Dialog
begin

section \<open>Outgoing calls (\<open>DialogUac\<close> of \<open>dialog.go\<close>)\<close>

text \<open>
  The caller's dialog takes one port, sends INVITE, makes its media from the first response with a
  session description, and hangs up after the answer time. What arrives while it waits for the answer
  is a list of events, and how the SIP library's \<open>WaitAnswer\<close> ends is an argument.
\<close>

subsection \<open>The dialog\<close>

text \<open>Port 0 stands for none, as in the code.\<close>

record 's uac_world = "'s dialog_world" +
  localAudioPort :: u16

datatype wait_event = Response nat bytes | State_Change dialog_state

datatype wait_outcome = Answered | Wait_Canceled | Wait_Failed

type_synonym ('s, 'a) ugo = "('s uac_world, dialog_error, 'a) go"

definition NewDialogUac :: "string \<Rightarrow> nat \<Rightarrow> ('s, unit) ugo" where
  "NewDialogUac callId d =
     go_then
       (go_modify (\<lambda>w. w\<lparr>w_others := w_ua w, w_media := None, w_done := False, w_cancelled := False, w_sent := [], w_waits := 0,
          w_stats := None, localAudioPort := 0\<rparr>))
       (enter_dialog callId d)"

text \<open>\<open>d.localAudioPort, err = getPort()\<close>, whose port is 0 with an error.\<close>

definition take_audio_port :: "'s dialog_env \<Rightarrow> ('s, u16) ugo" where
  "take_audio_port env =
     (\<lambda>w. case shared env go_getPort w of
        None \<Rightarrow> None
      | Some (Ok p, w') \<Rightarrow> Some (Ok p, w'\<lparr>localAudioPort := p\<rparr>)
      | Some (Err e, w') \<Rightarrow> Some (Err e, w'\<lparr>localAudioPort := 0\<rparr>)
      | Some (Panic x, w') \<Rightarrow> Some (Panic x, w'))"

definition cancel_call :: "('s, unit) ugo" where
  "cancel_call = go_modify (\<lambda>w. w\<lparr>w_cancelled := True\<rparr>)"

definition play_from :: "(nat baseUa \<Rightarrow> Packet list) \<Rightarrow> ('s, unit) ugo" where
  "play_from f = go_bind (go_get (\<lambda>w. f (w_ua w))) (\<lambda>pkts. on_media (playback pkts))"

text \<open>
  The media is made once, from the first description; an error cancels the call and is not returned.
  \<open>early\<close> is what follows in the case of a provisional response.
\<close>

definition make_media :: "'s dialog_env \<Rightarrow> bytes \<Rightarrow> ('s, unit) ugo \<Rightarrow> ('s, unit) ugo" where
  "make_media env body early =
     go_bind (go_get w_media) (\<lambda>om.
       if om \<noteq> None then go_return ()
       else
         go_try (go_lift (wrap_err D_Sdp (getAudioMediaFromSDP (e_unmarshal env) body)))
           (\<lambda>audioInfos.
              go_bind (go_lift (index_slice audioInfos 0)) (\<lambda>remote.
              go_bind (go_get localAudioPort) (\<lambda>p.
              go_try (shared env (go_newMedia env remote \<lparr>addr = e_addr env, mport = uint p\<rparr>))
                (\<lambda>_. early) (\<lambda>_. cancel_call))))
           (\<lambda>_. cancel_call))"

definition onResponse :: "'s dialog_env \<Rightarrow> nat \<Rightarrow> bytes \<Rightarrow> ('s, unit) ugo" where
  "onResponse env status body =
     (if status = 183 \<or> status = 180 then
        (if body = [] then go_return () else make_media env body (play_from EarlyMedia))
      else if status = 200 then make_media env body (go_return ())
      else go_return ())"

fun wait_events :: "'s dialog_env \<Rightarrow> wait_event list \<Rightarrow> ('s, unit) ugo" where
  "wait_events env [] = go_return ()"
| "wait_events env (Response status body # es) = go_then (onResponse env status body) (wait_events env es)"
| "wait_events env (State_Change s # es) = go_then (handleState s) (wait_events env es)"

definition answered_call :: "'s dialog_env \<Rightarrow> ('s, unit) ugo" where
  "answered_call env =
     go_defer cancel_call
       (go_then (go_send env Ack)
       (go_then (play_from AnswerMedia)
       (go_bind (wait_answer env) (\<lambda>receiveBye.
        go_then (on_media stop)
          (if receiveBye then go_return () else go_send env Bye)))))"

definition MakeCall :: "'s dialog_env \<Rightarrow> wait_event list \<Rightarrow> wait_outcome \<Rightarrow> ('s, unit) ugo" where
  "MakeCall env events outcome =
     go_bind (take_audio_port env) (\<lambda>p.
     go_then (shared env (go_update env [p, p + 1]))
     (go_then (go_send env (Invite (sdpBase (e_addr env) p)))
     (go_then (wait_events env events)
       (case outcome of
          Wait_Failed \<Rightarrow> go_then cancel_call (go_fail D_Answer)
        | Wait_Canceled \<Rightarrow> go_fail D_Answer
        | Answered \<Rightarrow> answered_call env))))"

text \<open>
  \<open>Close\<close> indexes the counters of its one port even with an error. Its log does not have the losses.
\<close>

definition uac_Close :: "'s dialog_env \<Rightarrow> string \<Rightarrow> ('s, unit) ugo" where
  "uac_Close env callId =
     go_bind (go_get localAudioPort) (\<lambda>p.
     go_bind
       (if p \<noteq> 0
        then go_then (shared env (go_freePort [p]))
               (go_bind (shared env (go_lookup env [p])) (\<lambda>(infos, ok).
                go_bind (go_lift (index_slice infos 0)) (\<lambda>info. go_return [info])))
        else go_return []) (\<lambda>rx.
     parting env False rx callId))"

text \<open>The goroutine of one call in \<open>startCallMaker\<close> (\<open>uac.go\<close>), but for the slot it gives back.\<close>

definition one_call ::
  "'s dialog_env \<Rightarrow> wait_event list \<Rightarrow> wait_outcome \<Rightarrow> string \<Rightarrow> nat \<Rightarrow> ('s, unit) ugo" where
  "one_call env events outcome callId d =
     go_then (NewDialogUac callId d)
       (go_defer (uac_Close env callId) (go_ignore (MakeCall env events outcome)))"

subsection \<open>The resources of the dialog\<close>

definition taken_ports :: "u16 \<Rightarrow> u16 list" where
  "taken_ports p = (if p = 0 then [] else [p])"

definition uac_inv :: "'s dialog_env \<Rightarrow> nat baseUa \<Rightarrow> string \<Rightarrow> nat \<Rightarrow> 's uac_world \<Rightarrow> bool" where
  "uac_inv env u0 callId d w \<longleftrightarrow>
     media_ok w \<and> shared_inv callId d (taken_ports (localAudioPort w)) (world_view w) \<and> (alone env \<longrightarrow> w_others w = u0)"

text \<open>With what has been sent.\<close>

definition uac_at ::
  "'s dialog_env \<Rightarrow> nat baseUa \<Rightarrow> string \<Rightarrow> nat \<Rightarrow> (sip_msg \<times> bool) list \<Rightarrow> 's uac_world \<Rightarrow> bool" where
  "uac_at env u0 callId d tr w \<longleftrightarrow> uac_inv env u0 callId d w \<and> w_sent w = tr"

lemma uac_more:
  fixes w w' :: "'s uac_world"
  assumes "dialog_world.more w' = dialog_world.more w"
  shows "localAudioPort w' = localAudioPort w"
  using assms by (cases w; cases w'; simp)

lemma uac_inv_moved:
  fixes w w' :: "'s uac_world"
  assumes "uac_inv env u0 callId d w" "media_ok w'" "moved env callId w w'"
  shows "uac_inv env u0 callId d w'"
proof -
  have "localAudioPort w' = localAudioPort w" using assms(3) by (auto simp: moved_def kept_def dest: uac_more)
  then show ?thesis
    using assms other_ops_inv [of "e_ops env" callId "world_view w" "world_view w'"]
    by (auto simp: uac_inv_def moved_def kept_def)
qed

lemma uac_inv_local [simp]:
  "uac_inv env u0 callId d (w\<lparr>w_cancelled := b\<rparr>) = uac_inv env u0 callId d w"
  "uac_inv env u0 callId d (w\<lparr>w_sent := ms\<rparr>) = uac_inv env u0 callId d w"
  by (simp_all add: uac_inv_def media_ok_def world_view_def)

lemma uac_inv_rules [simp]: "uac_inv env u0 callId d (w\<lparr>w_rules := s\<rparr>) = uac_inv env u0 callId d w"
  by (simp add: uac_inv_def media_ok_def world_view_def shared_inv_def)

lemma uac_at_mute:
  fixes m :: "('s, 'x) ugo"
  assumes "others_fair env callId" "mute env callId m"
  shows "preserves (uac_at env u0 callId d tr) m"
proof (rule mute_preserves [OF assms(2,1)])
  fix w w' :: "'s uac_world"
  assume *: "uac_at env u0 callId d tr w" "media_ok w'" "moved env callId w w'" "w_sent w' = w_sent w"
  have "uac_inv env u0 callId d w'" by (rule uac_inv_moved [OF _ *(2,3)]) (use *(1) in \<open>simp add: uac_at_def\<close>)
  then show "uac_at env u0 callId d tr w'" using * by (simp add: uac_at_def)
qed (simp add: uac_at_def uac_inv_def)

lemma mute_cancel_call: "mute env callId cancel_call"
  unfolding cancel_call_def by (rule inward_cancel [THEN inward_mute])

lemma mute_play_from: "mute env callId (play_from f)"
  unfolding play_from_def by (intro mute_intros)

lemma mute_make_media: "mute env callId early \<Longrightarrow> mute env callId (make_media env body early)"
  unfolding make_media_def by (intro mute_intros mute_cancel_call)

lemma mute_onResponse: "mute env callId (onResponse env status body)"
  unfolding onResponse_def by (intro mute_intros mute_make_media mute_play_from)

lemma mute_wait_events: "mute env callId (wait_events env events)"
  by (induction env events rule: wait_events.induct) (auto intro!: mute_intros mute_onResponse)

lemma uac_at_update: "others_fair env callId \<Longrightarrow> preserves (uac_at env u0 callId d tr) (shared env (go_update env ps))"
  by (rule preserves_shared [OF uac_at_mute [OF _ mute_others]])
    (auto simp: preserves_def wp_update uac_at_def split: option.split prod.split)

lemma wp_send_uac:
  fixes w :: "'s uac_world"
  assumes "uac_at env u0 callId d tr w"
    and "\<And>w'. uac_at env u0 callId d (tr @ [(msg, True)]) w' \<Longrightarrow> Q (Ok ()) w'"
    and "\<And>e w'. uac_at env u0 callId d (tr @ [(msg, False)]) w' \<Longrightarrow> Q (Err e) w'"
  shows "wp (go_send env msg) Q w"
proof -
  have "uac_at env u0 callId d (tr @ [(msg, b)]) (w\<lparr>w_sent := w_sent w @ [(msg, b)]\<rparr>)" for b
    using assms(1) by (simp add: uac_at_def)
  then show ?thesis using assms(2,3) by (simp add: wp_send)
qed

text \<open>Taking the port, from the state of a new dialog on a pool that does not hand out port 0.\<close>

lemma wp_take_audio_port:
  fixes w :: "'s uac_world"
  assumes fair: "others_fair env callId" and at: "uac_at env u0 callId d [] w"
    and zero: "localAudioPort w = 0" "0 < RtpPortMin (w_ua w)"
    and none: "\<And>e w'. uac_at env u0 callId d [] w' \<Longrightarrow> Q (Err e) w'"
    and got: "\<And>p w'. uac_at env u0 callId d [] w' \<Longrightarrow> Q (Ok p) w'"
  shows "wp (take_audio_port env) Q w"
proof -
  obtain u v and s :: 's where turn: "e_others env (w_turns w) (world_view w) = (u, s, v)" by (metis prod_cases3)
  have inv0: "shared_inv callId d [] (world_view w)" and ok: "media_ok w" "alone env \<longrightarrow> w_others w = u0" "w_sent w = []"
    using at zero(1) by (simp_all add: uac_at_def uac_inv_def taken_ports_def)
  have ops: "other_ops (e_ops env) callId (world_view w) (u, s, v)"
    using fair turn unfolding others_fair_def by metis
  note inv = other_ops_inv [OF ops inv0]
  then have wf: "pool_wf u" by (simp add: shared_inv_def pool.owned_since_def)
  have min: "0 < RtpPortMin u" using other_ops_settings [OF ops inv0] zero(2) by (simp add: same_settings_def world_view_def)
  have alone: "alone env \<longrightarrow> v = u0" using turn ok(2) by (auto simp: alone_def world_view_def)
  let ?w = "w\<lparr>w_ua := u, w_rules := s, w_others := v, w_turns := w_turns w + 1\<rparr>"
  from getPort_wf_cases [OF wf] consider "getPort u = Some (Err errNoFreePorts)"
    | p u' where "getPort u = Some (Ok (p, u'))" "RtpPortMin u \<le> uint p" by blast
  then show ?thesis
  proof cases
    case 1
    have "uac_at env u0 callId d [] (?w\<lparr>localAudioPort := 0\<rparr>)"
      using inv ok alone by (simp add: uac_at_def uac_inv_def media_ok_def world_view_def taken_ports_def)
    then show ?thesis
      using none turn 1
      by (simp add: wp_def take_audio_port_def shared_def go_then_def go_bind_def go_others_def go_getPort_def world_view_def)
  next
    case (2 p u')
    have "p \<noteq> 0" using 2(2) min by auto
    then have "uac_at env u0 callId d [] (?w\<lparr>w_ua := u', localAudioPort := p\<rparr>)"
      using getPort_shared(1) [OF inv 2(1)] ok alone
      by (simp add: uac_at_def uac_inv_def media_ok_def world_view_def taken_ports_def)
    then show ?thesis
      using got turn 2(1)
      by (simp add: wp_def take_audio_port_def shared_def go_then_def go_bind_def go_others_def go_getPort_def world_view_def)
  qed
qed

subsection \<open>The messages of a call\<close>

definition uac_dialogue :: "bool \<Rightarrow> (sip_msg \<times> bool) list \<Rightarrow> bool" where
  "uac_dialogue answered tr \<longleftrightarrow> list_all snd (butlast tr) \<and>
     (\<exists>sdp. map fst tr \<in> {[], [Invite sdp]} \<union> (if answered then {[Invite sdp, Ack], [Invite sdp, Ack, Bye]} else {}))"

definition uac_talked ::
  "'s dialog_env \<Rightarrow> nat baseUa \<Rightarrow> string \<Rightarrow> nat \<Rightarrow> bool \<Rightarrow> 's uac_world \<Rightarrow> bool" where
  "uac_talked env u0 callId d answered w \<longleftrightarrow> uac_inv env u0 callId d w \<and> uac_dialogue answered (w_sent w)"

lemma uac_talkedI: "uac_at env u0 callId d tr w \<Longrightarrow> uac_dialogue answered tr \<Longrightarrow> uac_talked env u0 callId d answered w"
  by (simp add: uac_at_def uac_talked_def)

lemma answered_call_dialogue:
  fixes w :: "'s uac_world"
  assumes fair: "others_fair env callId" and at: "uac_at env u0 callId d [(Invite sdp, True)] w"
  shows "wp (answered_call env) (\<lambda>r. uac_talked env u0 callId d True) w"
  unfolding answered_call_def
proof (rule wp_defer_keep)
  let ?T = "\<lambda>(r :: (dialog_error, unit) res). uac_talked env u0 callId d True :: 's uac_world \<Rightarrow> bool"
  let ?bye = "\<lambda>b. if b then go_return () else go_send env Bye"
  have bye: "wp (?bye b) ?T w'" if at': "uac_at env u0 callId d [(Invite sdp, True), (Ack, True)] w'" for b w'
  proof -
    have "wp (go_send env Bye) ?T w'"
      by (rule wp_send_uac [OF at']) (erule uac_talkedI, simp add: uac_dialogue_def)+
    moreover have "uac_talked env u0 callId d True w'" using at' by (rule uac_talkedI) (simp add: uac_dialogue_def)
    ultimately show ?thesis by (simp add: wp_return)
  qed
  have talk: "wp (go_then (play_from AnswerMedia) (go_bind (wait_answer env) (\<lambda>b. go_then (on_media stop) (?bye b)))) ?T w'"
    if at': "uac_at env u0 callId d [(Invite sdp, True), (Ack, True)] w'" for w'
  proof (rule wp_then_keep [OF uac_at_mute [OF fair mute_play_from] at'])
    fix w1 :: "'s uac_world"
    assume at1: "uac_at env u0 callId d [(Invite sdp, True), (Ack, True)] w1"
    show "wp (go_bind (wait_answer env) (\<lambda>b. go_then (on_media stop) (?bye b))) ?T w1"
    proof (rule wp_bind_keep [OF uac_at_mute [OF fair mute_wait(2)] at1])
      fix b and w2 :: "'s uac_world"
      assume at2: "uac_at env u0 callId d [(Invite sdp, True), (Ack, True)] w2"
      show "wp (go_then (on_media stop) (?bye b)) ?T w2"
        by (rule wp_then_keep [OF uac_at_mute [OF fair inward_stop [THEN inward_mute]] at2 bye])
          (assumption, (erule uac_talkedI, simp add: uac_dialogue_def)+)
    qed (erule uac_talkedI, simp add: uac_dialogue_def)+
  qed (erule uac_talkedI, simp add: uac_dialogue_def)+
  show "wp (go_then (go_send env Ack) (go_then (play_from AnswerMedia) (go_bind (wait_answer env) (\<lambda>b. go_then (on_media stop) (?bye b))))) ?T w"
    unfolding wp_then [of "go_send env Ack"]
    by (rule wp_send_uac [OF at]) (simp add: talk, simp, erule uac_talkedI, simp add: uac_dialogue_def)
  show "wp cancel_call (\<lambda>r' s''. (\<nexists>p. r' = Panic p) \<and> uac_talked env u0 callId d True s'') s'" if "uac_talked env u0 callId d True s'"
    for s' :: "'s uac_world"
    using that by (simp add: cancel_call_def wp_modify uac_talked_def)
qed

lemma outcome_dialogue:
  fixes w :: "'s uac_world"
  assumes fair: "others_fair env callId" and at: "uac_at env u0 callId d [(Invite sdp, True)] w"
  shows "wp (case outcome of Wait_Failed \<Rightarrow> go_then cancel_call (go_fail D_Answer) | Wait_Canceled \<Rightarrow> go_fail D_Answer
      | Answered \<Rightarrow> answered_call env) (\<lambda>r. uac_talked env u0 callId d (outcome = Answered)) w"
proof -
  have "uac_talked env u0 callId d False w" using at by (rule uac_talkedI) (simp add: uac_dialogue_def)
  moreover from this have "uac_talked env u0 callId d False (w\<lparr>w_cancelled := True\<rparr>)"
    by (simp add: uac_talked_def)
  ultimately show ?thesis
    using answered_call_dialogue [OF fair at]
    by (cases outcome) (simp_all add: wp_then wp_fail cancel_call_def wp_modify)
qed

lemma MakeCall_dialogue:
  fixes w :: "'s uac_world"
  assumes fair: "others_fair env callId" and at: "uac_at env u0 callId d [] w"
    and zero: "localAudioPort w = 0" "0 < RtpPortMin (w_ua w)"
  shows "wp (MakeCall env events outcome) (\<lambda>r. uac_talked env u0 callId d (outcome = Answered)) w"
proof -
  let ?T = "\<lambda>(r :: (dialog_error, unit) res). uac_talked env u0 callId d (outcome = Answered) :: 's uac_world \<Rightarrow> bool"
  let ?tail = "case outcome of Wait_Failed \<Rightarrow> go_then cancel_call (go_fail D_Answer) | Wait_Canceled \<Rightarrow> go_fail D_Answer
      | Answered \<Rightarrow> answered_call env"
  have none: "uac_talked env u0 callId d b w'" if "uac_at env u0 callId d [] w'" for b and w' :: "'s uac_world"
    using that by (rule uac_talkedI) (simp add: uac_dialogue_def)
  have invited: "uac_talked env u0 callId d b w'" if "uac_at env u0 callId d [(Invite sdp, ok)] w'" for b sdp ok and w' :: "'s uac_world"
    using that by (rule uac_talkedI) (simp add: uac_dialogue_def)
  have events: "wp (go_then (wait_events env events) ?tail) ?T w'" if "uac_at env u0 callId d [(Invite sdp, True)] w'" for sdp w'
    by (rule wp_then_keep [OF uac_at_mute [OF fair mute_wait_events] that outcome_dialogue [OF fair]])
      (assumption, (erule invited)+)
  have send: "wp (go_then (go_send env (Invite sdp)) (go_then (wait_events env events) ?tail)) ?T w'"
    if "uac_at env u0 callId d [] w'" for sdp w'
    unfolding wp_then [of "go_send env (Invite sdp)"]
    by (rule wp_send_uac [OF that]) (simp add: events, simp, erule invited)
  have rest: "wp (go_then (shared env (go_update env ps)) (go_then (go_send env (Invite sdp)) (go_then (wait_events env events) ?tail))) ?T w'"
    if "uac_at env u0 callId d [] w'" for ps sdp w'
    by (rule wp_then_keep [OF uac_at_update [OF fair] that send]) (assumption, (erule none)+)
  show ?thesis
    unfolding MakeCall_def wp_bind [of "take_audio_port env"]
    by (rule wp_take_audio_port [OF fair at zero]) (simp_all add: none rest)
qed

end
