(* ===== verification/Uac_Calls.thy ===== *)
theory Uac_Calls
  imports Dialog_Uac
begin

section \<open>Outgoing calls as a whole\<close>

text \<open>
  What a call of \<open>Dialog_Uac\<close> does from \<open>NewDialogUac\<close> to \<open>Close\<close>, with other calls acting on the
  shared state at every step: it gives everything back, and when all of its parts work, it goes
  through and its media follows the first description it was sent.
\<close>

subsection \<open>Closing\<close>

lemma uac_Close_releases:
  assumes fair: "others_fair env callId" and inv: "uac_inv env u0 callId d w"
  shows "wp (uac_Close env callId) (\<lambda>r w'. r = Ok () \<and> released callId w' \<and> w_stats w' \<noteq> None
    \<and> w_sent w' = w_sent w \<and> (alone env \<longrightarrow> w_others w' = u0) \<and> media_Close (w_media w) = Ok (w_media w')) w"
    (is "wp _ ?Q w")
proof (cases "localAudioPort w = 0")
  case True
  have "wp (parting env False [] callId) ?Q w"
    by (rule wp_mono [OF wp_parting [OF fair]]) (use inv True in \<open>auto simp: uac_inv_def taken_ports_def kept_def\<close>)
  then show ?thesis using True by (simp add: uac_Close_def wp_bind wp_get wp_return)
next
  case False
  let ?p = "localAudioPort w"
  have ok: "media_ok w" and sh: "shared_inv callId d [?p] (world_view w)" and u0: "alone env \<longrightarrow> w_others w = u0"
    using inv False by (simp_all add: uac_inv_def taken_ports_def)
  have eq: "wp (uac_Close env callId) Q w = wp (go_then (shared env (go_freePort [?p]))
      (go_bind (shared env (go_lookup env [?p])) (\<lambda>(infos, ok). go_bind (go_lift (index_slice infos 0)) (\<lambda>info. go_return [info]))))
      (\<lambda>r w'. case r of Ok rx \<Rightarrow> wp (parting env False rx callId) Q w' | Err e \<Rightarrow> Q (Err e) w' | Panic p \<Rightarrow> Q (Panic p) w') w" for Q
    using False by (simp add: uac_Close_def wp_bind [of "go_get f" for f] wp_get wp_bind [of "go_then m n" for m n])
  show ?thesis
    unfolding eq
  proof (rule wp_give_ports [OF fair ok sh])
    fix infos :: "rtp_info list" and e u v t and s :: 'a
    assume *: "length infos = length [?p]" "shared_inv callId d [] (u, s, v)" "alone env \<longrightarrow> v = w_others w"
    let ?w1 = "w\<lparr>w_ua := u, w_rules := s, w_others := v, w_turns := t\<rparr>"
    have "media_ok ?w1" "shared_inv callId d [] (world_view ?w1)" using ok * by (simp_all add: media_ok_def world_view_def)
    have "wp (parting env False rx callId) ?Q ?w1" for rx
      by (rule wp_mono [OF wp_parting [OF fair \<open>media_ok ?w1\<close> \<open>shared_inv callId d [] (world_view ?w1)\<close>]])
        (use * u0 in \<open>auto simp: kept_def\<close>)
    then show "wp (case (infos, e = None) of (infos, ok) \<Rightarrow> go_bind (go_lift (index_slice infos 0)) (\<lambda>info. go_return [info]))
        (\<lambda>r w'. case r of Ok rx \<Rightarrow> wp (parting env False rx callId) ?Q w' | Err e \<Rightarrow> ?Q (Err e) w' | Panic p \<Rightarrow> ?Q (Panic p) w') ?w1"
      using *(1) by (simp add: wp_return wp_bind wp_lift)
  qed
qed

subsection \<open>The first description\<close>

text \<open>The first response whose body is taken for a description, and whether it is provisional.\<close>

fun first_description :: "wait_event list \<Rightarrow> (bool \<times> bytes) option" where
  "first_description [] = None"
| "first_description (Response status body # es) =
     (if (status = 183 \<or> status = 180) \<and> body \<noteq> [] then Some (True, body)
      else if status = 200 then Some (False, body) else first_description es)"
| "first_description (State_Change s # es) = first_description es"

lemma onResponse_later: "w_media w = Some m \<Longrightarrow> onResponse env status body w = Some (Ok (), w)"
  by (simp add: onResponse_def make_media_def go_bind_def go_get_def go_return_def)

lemma wait_events_later:
  "w_media w = Some m \<Longrightarrow> State_Change DialogStateEnded \<notin> set es \<Longrightarrow> wait_events env es w = Some (Ok (), w)"
proof (induction env es rule: wait_events.induct)
  case (3 env s es)
  then show ?case by (cases s) (simp_all add: go_then_def go_bind_def handleState_def go_return_def)
qed (simp_all add: onResponse_later go_then_def go_bind_def go_return_def)

lemma wait_events_first:
  assumes "first_description es = Some (early, body)" "State_Change DialogStateEnded \<notin> set es"
    and "make_media env body (if early then play_from EarlyMedia else go_return ()) w = Some (Ok (), w')"
    and "w_media w' = Some m"
  shows "wait_events env es w = Some (Ok (), w')"
  using assms
proof (induction env es rule: wait_events.induct)
  case (2 env status b es)
  show ?case
  proof (cases "((status = 183 \<or> status = 180) \<and> b \<noteq> []) \<or> status = 200")
    case True
    then have "onResponse env status b w = Some (Ok (), w')"
      using 2(2,4) by (auto simp: onResponse_def split: if_splits)
    then show ?thesis using wait_events_later [OF 2(5)] 2(3) by (simp add: go_then_def go_bind_def)
  next
    case False
    then have "onResponse env status b w = Some (Ok (), w)" by (auto simp: onResponse_def go_return_def)
    then show ?thesis using 2 False by (auto simp: go_then_def go_bind_def)
  qed
next
  case (3 env s es)
  then show ?case by (cases s) (simp_all add: go_then_def go_bind_def handleState_def go_return_def)
qed simp

text \<open>
  In the course of a call whose parts all work: \<open>u0\<close> is the agent before the call, \<open>dest\<close> and \<open>jobs\<close> are
  where the media sends and what it was given to play.
\<close>

definition going_well ::
  "'s dialog_env \<Rightarrow> nat baseUa \<Rightarrow> string \<Rightarrow> nat \<Rightarrow> sip_msg list \<Rightarrow> (bytes \<times> int) \<Rightarrow> Packet list list \<Rightarrow> 's uac_world \<Rightarrow> bool" where
  "going_well env u0 callId d msgs dest jobs w \<longleftrightarrow>
     uac_at env u0 callId d (map (\<lambda>m. (m, True)) msgs) w \<and> \<not> w_done w \<and> w_waits w = 0 \<and> same_settings u0 (w_ua w)
     \<and> well_equipped (w_ua w) \<and> (\<exists>m. w_media w = Some m \<and> m_dest m = dest \<and> m_jobs m = jobs)"

lemma make_media_fine:
  fixes w :: "'s uac_world"
  assumes fair: "others_fair env callId" and at: "uac_at env u0 callId d (map (\<lambda>m. (m, True)) msgs) w"
    and new: "w_media w = None" "\<not> w_done w" "w_waits w = 0" "same_settings u0 (w_ua w)" "well_equipped (w_ua w)"
    and sdp: "getAudioMediaFromSDP (e_unmarshal env) body = Ok (remote # others)" and peer: "reachable_peer env (addr remote)"
  shows "\<exists>w'. make_media env body (if early then play_from EarlyMedia else go_return ()) w = Some (Ok (), w')
    \<and> going_well env u0 callId d msgs (ip4_of (addr remote), mport remote)
        (if early \<and> EarlyMedia u0 \<noteq> [] then [EarlyMedia u0] else []) w'"
proof -
  let ?local = "\<lparr>addr = e_addr env, mport = uint (localAudioPort w)\<rparr>"
  let ?early = "if early then play_from EarlyMedia else go_return ()"
  let ?G = "\<lambda>jobs. going_well env u0 callId d msgs (ip4_of (addr remote), mport remote) jobs"
  have sh: "shared_inv callId d (taken_ports (localAudioPort w)) (world_view w)"
    using at by (simp add: uac_at_def uac_inv_def)
  have made: "wp (shared env (go_newMedia env remote ?local)) (\<lambda>r w'. r = Ok () \<and> ?G [] w') w"
  proof (rule wp_turn [OF fair sh])
    fix u v and s :: 's
    assume *: "shared_inv callId d (taken_ports (localAudioPort w)) (u, s, v)" "same_settings (w_ua w) u" "alone env \<longrightarrow> v = w_others w"
    have "well_equipped u" using new(5) *(2) by (simp add: same_settings_def)
    from newMedia_fine [OF peer this, of "w_turns w + 1" ?local] obtain m u' where
      m: "newMedia (fst (e_tables env (w_turns w + 1))) (snd (e_tables env (w_turns w + 1))) remote ?local u = (Ok m, u')" "media_inv m" by blast
    from newMedia_Ok [OF m(1)] have dest: "m_dest m = (ip4_of (addr remote), mport remote)" "m_jobs m = []"
      by (auto simp: fresh_media_def)
    have "well_equipped u' \<and> same_settings u u' \<and> shared_inv callId d (taken_ports (localAudioPort w)) (u', s, v)"
      using newMedia_socket [OF m(1)] \<open>well_equipped u\<close> *(1) rr_Next_eq [of "xdpSocketsLB u"]
      by (auto simp: well_equipped_def rr_wf_def shared_inv_def pool.owned_since_def pool_wf_def same_settings_def)
    then have "?G [] (w\<lparr>w_ua := u', w_rules := s, w_others := v, w_turns := w_turns w + 1, w_media := Some m\<rparr>)"
      using at new(2-4) * m(2) dest
      by (simp add: going_well_def uac_at_def uac_inv_def media_ok_def world_view_def same_settings_def)
    then show "wp (go_newMedia env remote ?local) (\<lambda>r w'. r = Ok () \<and> ?G [] w')
        (w\<lparr>w_ua := u, w_rules := s, w_others := v, w_turns := w_turns w + 1\<rparr>)"
      using m(1) by (cases w) (simp add: wp_newMedia)
  qed
  have played: "wp (play_from EarlyMedia) (\<lambda>r w'. r = Ok () \<and> ?G (if EarlyMedia u0 = [] then [] else [EarlyMedia u0]) w') w'"
    if "?G [] w'" for w'
  proof -
    from that obtain m where m: "w_media w' = Some m" "media_inv m" "m_dest m = (ip4_of (addr remote), mport remote)" "m_jobs m = []"
      by (auto simp: going_well_def uac_at_def uac_inv_def media_ok_def)
    have "EarlyMedia (w_ua w') = EarlyMedia u0" using that by (simp add: going_well_def same_settings_def)
    with playback_jobs [OF m(2), of "EarlyMedia u0"] show ?thesis
      using that m
      by (auto simp: play_from_def wp_bind wp_get wp_on_media going_well_def uac_at_def uac_inv_def media_ok_def world_view_def)
  qed
  let ?J = "\<lambda>r w'. r = Ok () \<and> ?G (if early \<and> EarlyMedia u0 \<noteq> [] then [EarlyMedia u0] else []) w'"
  have "wp ?early ?J w'" if "?G [] w'" for w'
    using that played [OF that] by (cases early; cases "EarlyMedia u0 = []") (simp_all add: wp_return)
  then have "wp (shared env (go_newMedia env remote ?local)) (\<lambda>r w'. case r of
      Ok x \<Rightarrow> wp ?early ?J w' | Err e \<Rightarrow> wp cancel_call ?J w' | Panic p \<Rightarrow> ?J (Panic p) w') w"
    by (intro wp_mono [OF made]) (elim conjE, simp only: res.case)
  moreover have "wp (make_media env body ?early) Q w = wp (shared env (go_newMedia env remote ?local)) (\<lambda>r w'. case r of
      Ok x \<Rightarrow> wp ?early Q w' | Err e \<Rightarrow> wp cancel_call Q w' | Panic p \<Rightarrow> Q (Panic p) w') w" for Q
    using new(1) sdp by (simp add: make_media_def wp_bind wp_get wp_try wp_lift)
  ultimately have "wp (make_media env body ?early) ?J w" by (simp only:)
  from wp_returns [OF this] show ?thesis by blast
qed

lemma answered_call_fine:
  fixes w :: "'s uac_world"
  assumes fair: "others_fair env callId" and at: "going_well env u0 callId d [Invite sdp] dest jobs w" and send: "\<forall>k. e_send env k"
  shows "wp (answered_call env) (\<lambda>r w1. w_sent w1 = map (\<lambda>m. (m, True)) (Invite sdp # Ack # (if e_hangup env 0 then [] else [Bye]))
    \<and> (\<exists>m. w_media w1 = Some m \<and> m_dest m = dest
        \<and> m_jobs m = jobs @ (if AnswerMedia u0 = [] then [] else [AnswerMedia u0]))) w"
    (is "wp _ (\<lambda>r. ?P) w")
proof -
  from at obtain m where m: "w_media w = Some m" "media_inv m" "m_dest m = dest" "m_jobs m = jobs"
    by (auto simp: going_well_def uac_at_def uac_inv_def media_ok_def)
  have answer: "AnswerMedia (w_ua w) = AnswerMedia u0" "w_sent w = [(Invite sdp, True)]" "w_waits w = 0"
    using at by (simp_all add: going_well_def same_settings_def uac_at_def)
  from playback_jobs [OF m(2), of "AnswerMedia u0"] obtain m1 where
    m1: "playback (AnswerMedia u0) (Some m) = Ok (Some m1)" "media_inv m1" "m_dest m1 = dest"
      "m_jobs m1 = jobs @ (if AnswerMedia u0 = [] then [] else [AnswerMedia u0])" using m(3,4) by auto
  let ?m1 = "set_counts (e_count env 0) m1"
  have "media_inv ?m1" using m1(2) by (simp add: media_inv_counts)
  from stop_inv [OF this] obtain m2 where m2: "stop (Some ?m1) = Ok (Some m2)" "media_inv m2" "m_jobs m2 = m_jobs ?m1" by blast
  then have "m_dest m2 = m_dest ?m1" by (auto simp: stop_def close_done_def Let_def split: if_splits option.splits)
  then have m2': "m_dest m2 = dest" "m_jobs m2 = m_jobs m1" using m1(3) m2(3) by (simp_all add: set_counts_def)
  let ?w1 = "w\<lparr>w_sent := [(Invite sdp, True), (Ack, True)], w_media := Some m1\<rparr>"
  have w1: "shared_inv callId d (taken_ports (localAudioPort w)) (world_view ?w1)" "well_equipped (w_ua ?w1)" "\<not> w_done ?w1"
    using at by (simp_all add: going_well_def uac_at_def uac_inv_def world_view_def)
  have "wp (go_bind (wait_answer env) (\<lambda>b. go_then (on_media stop) (if b then go_return () else go_send env Bye))) (\<lambda>r. ?P) ?w1"
    unfolding wp_bind
    by (rule wp_waits(2) [OF fair w1])
      (cases "e_hangup env 0"; use m2 m2' m1(4) answer(3) send in \<open>simp add: wp_then wp_on_media wp_return wp_send\<close>)
  moreover have "wp (go_then (go_send env Ack) (go_then (play_from AnswerMedia) R)) Q w = wp R Q ?w1" for R :: "('s, unit) ugo" and Q
    using m(1) m1(1) send answer(1,2)
    by (simp add: wp_then wp_send play_from_def wp_bind wp_get wp_on_media)
  ultimately have "wp (go_then (go_send env Ack) (go_then (play_from AnswerMedia) (go_bind (wait_answer env)
      (\<lambda>b. go_then (on_media stop) (if b then go_return () else go_send env Bye))))) (\<lambda>r. ?P) w"
    by (simp only:)
  then show ?thesis
    unfolding answered_call_def by (rule wp_defer_keep) (simp add: cancel_call_def wp_modify)
qed

subsection \<open>A whole call\<close>

text \<open>The state in which \<open>MakeCall\<close> is called.\<close>

definition uac_start :: "string \<Rightarrow> nat \<Rightarrow> 's uac_world \<Rightarrow> 's uac_world" where
  "uac_start callId d w =
     w\<lparr>w_ua := enter_ua callId d (w_ua w), w_others := w_ua w, w_media := None, w_done := False, w_cancelled := False,
       w_sent := [], w_waits := 0, w_stats := None, localAudioPort := 0\<rparr>"

lemma NewDialogUac_start: "NewDialogUac callId d w = Some (Ok (), uac_start callId d w)"
  by (cases w) (simp add: NewDialogUac_def uac_start_def enter_dialog_def go_then_def go_bind_def go_modify_def)

lemma uac_start_at:
  assumes "pool_wf (w_ua w)" "in_int64 (metricsCurrentDialogs (w_ua w))"
  shows "uac_at env (w_ua w) callId d [] (uac_start callId d w)"
  using enter_shared [OF assms]
  by (simp add: uac_at_def uac_inv_def uac_start_def media_ok_def world_view_def taken_ports_def)

lemma Uac_call:
  fixes w :: "'s uac_world"
  assumes fair: "others_fair env callId" and wf: "pool_wf (w_ua w)" "in_int64 (metricsCurrentDialogs (w_ua w))"
    and min: "0 < RtpPortMin (w_ua w)"
    and handler: "wp (MakeCall env events outcome) (\<lambda>r. P) (uac_start callId d w)"
    and closing: "\<And>w1 w2. P w1 \<Longrightarrow> w_sent w2 = w_sent w1 \<Longrightarrow>
      map_option m_dest (w_media w2) = map_option m_dest (w_media w1) \<Longrightarrow>
      map_option m_jobs (w_media w2) = map_option m_jobs (w_media w1) \<Longrightarrow> P w2"
  shows "\<exists>r w'. one_call env events outcome callId d w = Some (r, w') \<and> released callId w'
    \<and> (alone env \<longrightarrow> w_others w' = w_ua w) \<and> uac_dialogue (outcome = Answered) (w_sent w') \<and> P w'"
  unfolding one_call_def
proof (rule opened_and_closed [where start = "\<lambda>w'. w' = uac_start callId d w"])
  let ?T = "\<lambda>w1. uac_talked env (w_ua w) callId d (outcome = Answered) w1 \<and> P w1"
  show "wp (NewDialogUac callId d) (\<lambda>r w'. r = Ok () \<and> w' = uac_start callId d w) w"
    by (simp add: wp_def NewDialogUac_start)
  show "wp (MakeCall env events outcome) (\<lambda>r. ?T) w'" if "w' = uac_start callId d w" for w'
  proof -
    have "0 < RtpPortMin (w_ua (uac_start callId d w))" "localAudioPort (uac_start callId d w) = 0"
      using min by (simp_all add: uac_start_def enter_ua_def)
    from wp_conj [OF MakeCall_dialogue [OF fair uac_start_at [OF wf] this(2,1)] handler]
    show ?thesis unfolding that .
  qed
  fix w1 :: "'s uac_world"
  assume w1: "?T w1"
  then have inv: "uac_inv env (w_ua w) callId d w1" by (simp add: uac_talked_def)
  show "wp (uac_Close env callId) (\<lambda>r w2. r = Ok () \<and> (released callId w2
      \<and> (alone env \<longrightarrow> w_others w2 = w_ua w) \<and> uac_dialogue (outcome = Answered) (w_sent w2) \<and> P w2)) w1"
  proof (rule wp_mono [OF uac_Close_releases [OF fair inv]], elim conjE)
    fix r and w2 :: "'s uac_world"
    assume *: "media_Close (w_media w1) = Ok (w_media w2)" "w_sent w2 = w_sent w1"
    have "\<forall>m. w_media w1 = Some m \<longrightarrow> media_inv m" using inv by (simp add: uac_inv_def media_ok_def)
    from media_Close_keeps [OF *(1) this] have "P w2" by (rule closing [OF conjunct2 [OF w1] *(2)])
    moreover assume "r = Ok ()" "released callId w2" "alone env \<longrightarrow> w_others w2 = w_ua w"
    ultimately show "r = Ok () \<and> (released callId w2 \<and> (alone env \<longrightarrow> w_others w2 = w_ua w)
        \<and> uac_dialogue (outcome = Answered) (w_sent w2) \<and> P w2)"
      using w1 *(2) by (simp add: uac_talked_def)
  qed
qed

lemma outgoing_call_goes_through:
  assumes "others_fair env callId" and "pool_wf (w_ua w)" and "in_int64 (metricsCurrentDialogs (w_ua w))"
    and "0 < RtpPortMin (w_ua w)" and "well_equipped (w_ua w)" and "\<forall>k. e_send env k"
    and "gets_port env callId d w = Some (p, u, s, v)" and "fst (ebpf_Update (e_ops env) [p, p + 1] s) = None"
    and "first_description events = Some (early, body)" and "State_Change DialogStateEnded \<notin> set events"
    and "getAudioMediaFromSDP (e_unmarshal env) body = Ok (remote # others)" and "reachable_peer env (addr remote)"
  shows "\<exists>r w' m. one_call env events Answered callId d w = Some (r, w') \<and> p \<notin> ports v
    \<and> w_sent w' = map (\<lambda>m. (m, True)) (Invite (sdpBase (e_addr env) p) # Ack # (if e_hangup env 0 then [] else [Bye]))
    \<and> w_media w' = Some m \<and> m_dest m = (ip4_of (addr remote), mport remote)
    \<and> m_jobs m = filter (\<lambda>pkts. pkts \<noteq> []) ((if early then [EarlyMedia (w_ua w)] else []) @ [AnswerMedia (w_ua w)])"
proof -
  let ?u0 = "w_ua w" and ?sdp = "sdpBase (e_addr env) p"
  let ?D = "\<lambda>w' :: 'a uac_world. \<exists>m. w_sent w' = map (\<lambda>m. (m, True)) (Invite ?sdp # Ack # (if e_hangup env 0 then [] else [Bye]))
    \<and> w_media w' = Some m \<and> m_dest m = (ip4_of (addr remote), mport remote)
    \<and> m_jobs m = filter (\<lambda>pkts. pkts \<noteq> []) ((if early then [EarlyMedia ?u0] else []) @ [AnswerMedia ?u0])"
  note inv0 = enter_shared [OF assms(2,3)]
  from gets_port_turns [OF assms(1) inv0 assms(7)] obtain u1 s1 v1 u2 where
    turn1: "e_others env (w_turns w) (enter_ua callId d ?u0, w_rules w, ?u0) = (u1, s1, v1)"
    and u2: "getPort u1 = Some (Ok (p, u2))" "e_others env (w_turns w + 1) (u2, s1, v1) = (u, s, v)"
    and inv: "shared_inv callId d [p] (u, s, v)" "alone env \<longrightarrow> v = ?u0"
    and same: "same_settings ?u0 u" and fresh: "p \<notin> ports v" and min: "RtpPortMin ?u0 \<le> uint p" by blast
  let ?w = "uac_start callId d w"
  let ?w1 = "?w\<lparr>w_ua := u2, w_rules := s1, w_others := v1, w_turns := w_turns w + 1, localAudioPort := p\<rparr>"
  have taken: "take_audio_port env ?w = Some (Ok p, ?w1)"
    using turn1 u2(1) by (cases w) (simp add: take_audio_port_def shared_def go_others_def go_getPort_def go_then_def go_bind_def uac_start_def)
  obtain s2 where s2: "ebpf_Update (e_ops env) [p, p + 1] s = (None, s2)" using assms(8) by (metis prod.collapse)
  let ?w2 = "?w1\<lparr>w_ua := u, w_rules := s2, w_others := v, w_turns := w_turns w + 2, w_sent := [(Invite ?sdp, True)]\<rparr>"
  have "p \<noteq> 0" using min assms(4) by auto
  then have "uac_at env ?u0 callId d (map (\<lambda>m. (m, True)) [Invite ?sdp]) ?w2"
    using inv by (simp add: uac_at_def uac_inv_def uac_start_def media_ok_def world_view_def taken_ports_def shared_inv_def)
  moreover have "w_media ?w2 = None" "\<not> w_done ?w2" "w_waits ?w2 = 0" "same_settings ?u0 (w_ua ?w2)" "well_equipped (w_ua ?w2)"
    using same assms(5) by (simp_all add: uac_start_def same_settings_def)
  ultimately obtain w3 where w3: "make_media env body (if early then play_from EarlyMedia else go_return ()) ?w2 = Some (Ok (), w3)"
      "going_well env ?u0 callId d [Invite ?sdp] (ip4_of (addr remote), mport remote)
        (if early \<and> EarlyMedia ?u0 \<noteq> [] then [EarlyMedia ?u0] else []) w3"
    using make_media_fine [OF assms(1) _ _ _ _ _ _ assms(11,12)] by blast
  then obtain m where "w_media w3 = Some m" by (auto simp: going_well_def)
  from wait_events_first [OF assms(9,10) w3(1) this]
  have events: "wp (wait_events env events) Q ?w2 = Q (Ok ()) w3" for Q by (simp add: wp_def)
  have "wp (answered_call env) (\<lambda>r. ?D) w3"
    by (rule wp_mono [OF answered_call_fine [OF assms(1) w3(2) assms(6)]]) auto
  then have "wp (go_then (go_send env (Invite ?sdp)) (go_then (wait_events env events) (answered_call env))) (\<lambda>r. ?D)
      (?w1\<lparr>w_ua := u, w_rules := s2, w_others := v, w_turns := w_turns w + 2\<rparr>)"
    using assms(6) events by (simp add: wp_then wp_send uac_start_def)
  moreover have "wp (go_then (shared env (go_update env [p, p + 1])) R) Q ?w1 =
      wp R Q (?w1\<lparr>w_ua := u, w_rules := s2, w_others := v, w_turns := w_turns w + 2\<rparr>)" for R :: "('a, unit) ugo" and Q
    using s2 u2(2) by (cases w) (simp add: wp_then wp_shared wp_update uac_start_def)
  moreover have "wp (MakeCall env events Answered) Q ?w = wp (go_then (shared env (go_update env [p, p + 1]))
      (go_then (go_send env (Invite ?sdp)) (go_then (wait_events env events) (answered_call env)))) Q ?w1" for Q
    by (simp add: MakeCall_def wp_bind wp_def [of "take_audio_port env"] taken)
  ultimately have "wp (MakeCall env events Answered) (\<lambda>r. ?D) ?w" by (simp only:)
  then have "\<exists>r w'. one_call env events Answered callId d w = Some (r, w') \<and> released callId w'
      \<and> (alone env \<longrightarrow> w_others w' = w_ua w) \<and> uac_dialogue (Answered = Answered) (w_sent w') \<and> ?D w'"
  proof (rule Uac_call [OF assms(1-4)])
    fix w1 w2 :: "'a uac_world"
    assume "?D w1" "w_sent w2 = w_sent w1" "map_option m_dest (w_media w2) = map_option m_dest (w_media w1)"
      "map_option m_jobs (w_media w2) = map_option m_jobs (w_media w1)"
    then show "?D w2" by (cases "w_media w2") auto
  qed
  then show ?thesis using fresh by blast
qed

subsection \<open>Properties\<close>

text \<open>
  C4. An outgoing call gives back everything, too: whatever the responses contain, however the
  waiting ends, whatever fails and whatever other calls do on the shared state in between, the call
  returns, its messages are a prefix of INVITE, ACK and BYE
  of which only the last can have failed and the later two are sent only to a call that was answered,
  and afterwards the held ports, the numbers of used ports and of current dialogs are those of the
  other calls alone; without other calls, they are what they were.
  The range must not start at port 0, which \<open>Close\<close> takes for no port.
\<close>

theorem uac_call_safe:
  assumes "others_fair env callId" and "pool_wf (w_ua w)" and "0 < RtpPortMin (w_ua w)"
    and "in_int64 (metricsCurrentDialogs (w_ua w))"
  shows "\<exists>r w' sdp. one_call env events outcome callId d w = Some (r, w')
    \<and> pool_wf (w_ua w') \<and> ports (w_ua w') = ports (w_others w') \<and> portsUsed (w_ua w') = 2 * int (card (ports (w_others w')))
    \<and> dialogs (w_ua w') = (dialogs (w_others w'))(callId := None)
    \<and> metricsCurrentDialogs (w_ua w') = metricsCurrentDialogs (w_others w')
    \<and> (\<forall>m. w_media w' = Some m \<longrightarrow> \<not> m_playing m)
    \<and> (alone env \<longrightarrow> w_others w' = w_ua w)
    \<and> list_all snd (butlast (w_sent w'))
    \<and> map fst (w_sent w') \<in> {[], [Invite sdp]}
        \<union> (if outcome = Answered then {[Invite sdp, Ack], [Invite sdp, Ack, Bye]} else {})"
proof -
  have "wp (MakeCall env events outcome) (\<lambda>r w1. True) (uac_start callId d w)"
    by (rule wp_mono [OF MakeCall_dialogue [OF assms(1) uac_start_at [OF assms(2,4)]]])
      (use assms(3) in \<open>simp_all add: uac_start_def enter_ua_def\<close>)
  then have "\<exists>r w'. one_call env events outcome callId d w = Some (r, w') \<and> released callId w'
      \<and> (alone env \<longrightarrow> w_others w' = w_ua w) \<and> uac_dialogue (outcome = Answered) (w_sent w') \<and> True"
    by (rule Uac_call [OF assms(1,2,4,3)]) (rule TrueI)
  then obtain r w' sdp where
    *: "one_call env events outcome callId d w = Some (r, w')" "released callId w'" "alone env \<longrightarrow> w_others w' = w_ua w"
      "list_all snd (butlast (w_sent w'))" "map fst (w_sent w') \<in> {[], [Invite sdp]}
        \<union> (if outcome = Answered then {[Invite sdp, Ack], [Invite sdp, Ack, Bye]} else {})"
    unfolding uac_dialogue_def by (elim exE conjE) (rule that, assumption+)
  have used: "portsUsed (w_ua w') = 2 * int (card (ports (w_ua w')))" using *(2) by (simp add: released_def pool_wf_def)
  show ?thesis
    by (rule exI [of _ r], rule exI [of _ w'], rule exI [of _ sdp]) (use * used in \<open>simp add: released_def\<close>)
qed

definition sample_uac :: "(u64 \<times> rtp_info) list uac_world" where
  "sample_uac =
     \<lparr>w_ua = sample_agent, w_rules = [], w_others = sample_agent, w_turns = 0, w_media = None, w_done = False, w_cancelled = False,
      w_sent = [], w_waits = 0, w_stats = None, localAudioPort = 0\<rparr>"

lemma sample_uac_facts:
  "pool_wf (w_ua sample_uac)" "in_int64 (metricsCurrentDialogs (w_ua sample_uac))" "0 < RtpPortMin (w_ua sample_uac)"
  "well_equipped (w_ua sample_uac)"
  using sample_agent_facts by (simp_all add: sample_uac_def)

theorem uac_call_safe_witness:
  "\<exists>r w' sdp. one_call sample_calls [Response 486 []] Wait_Failed ''id'' 3 sample_uac = Some (r, w')
     \<and> ports (w_ua w') = ports (w_others w') \<and> map fst (w_sent w') \<in> {[], [Invite sdp]}"
  using uac_call_safe [OF sample_fair sample_uac_facts(1,3,2), of "[Response 486 []]" Wait_Failed 3] by auto

text \<open>
  C5. An outgoing call whose parts all work is carried through in spite of the others, and its media
  follows the first description that a response brings, provisional or final: later ones, the answer's included, are
  ignored. The early media is played exactly when that response was provisional, the answer media
  after the ACK, and BYE is sent unless the peer hung up first.
\<close>

theorem uac_call_completes:
  assumes "others_fair env callId" and "pool_wf (w_ua w)" and "in_int64 (metricsCurrentDialogs (w_ua w))"
    and "0 < RtpPortMin (w_ua w)" and "well_equipped (w_ua w)" and "\<forall>k. e_send env k"
    and "gets_port env callId d w = Some (p, u, s, v)" and "fst (ebpf_Update (e_ops env) [p, p + 1] s) = None"
    and "first_description events = Some (early, body)" and "State_Change DialogStateEnded \<notin> set events"
    and "getAudioMediaFromSDP (e_unmarshal env) body = Ok (remote # others)" and "reachable_peer env (addr remote)"
  shows "\<exists>r w' m. one_call env events Answered callId d w = Some (r, w') \<and> p \<notin> ports v
    \<and> w_sent w' = map (\<lambda>m. (m, True)) (Invite (sdpBase (e_addr env) p) # Ack # (if e_hangup env 0 then [] else [Bye]))
    \<and> w_media w' = Some m \<and> m_dest m = (ip4_of (addr remote), mport remote)
    \<and> m_jobs m = filter (\<lambda>pkts. pkts \<noteq> []) ((if early then [EarlyMedia (w_ua w)] else []) @ [AnswerMedia (w_ua w)])"
  by (rule outgoing_call_goes_through [OF assms])

theorem uac_call_completes_witness:
  "\<exists>r w' p m. one_call sample_calls [Response 100 [], Response 183 [1], Response 200 [2]] Answered ''id'' 3 sample_uac = Some (r, w')
     \<and> map fst (w_sent w') = [Invite (sdpBase ''10.0.0.1'' p), Ack, Bye]
     \<and> w_media w' = Some m \<and> m_dest m = (ip4_of (show_ipv4 [10, 0, 0, 2]), 5000)"
proof -
  have e: "\<forall>k. e_send sample_calls k" "e_others sample_calls = sample_others" by (simp_all add: sample_calls_def)
  have events: "first_description [Response 100 [], Response 183 [1], Response 200 [2]] = Some (True, [1])"
      "State_Change DialogStateEnded \<notin> set [Response 100 [], Response 183 [1], Response 200 [2]]" by simp_all
  obtain p u v where "gets_port sample_calls ''id'' 3 sample_uac = Some (p, u, [], v)"
    using sample_gets_port [OF e(2) sample_fair, of sample_uac] by (auto simp: sample_uac_def)
  from uac_call_completes [OF sample_fair sample_uac_facts(1-4) e(1) this sample_updates events sample_infos sample_reachable]
  show ?thesis by (fastforce simp: sample_calls_def sample_remote_def)
qed

end
