(* ===== verification/Handlers_Par.thy ===== *)
theory Handlers_Par
  imports Calls_Par Uas_Calls Uac_Calls
begin

section \<open>The handlers among the calls\<close>

text \<open>
  \<open>Calls_Par\<close> says what calls do, operation by operation, and the theorems about one call let the others
  do that. Here is the converse: the handlers of \<open>Dialog_Uas\<close> and \<open>Dialog_Uac\<close> do nothing else. If
  the turns of the others are runs of calls, then so is the whole, the handler's own operations included.
\<close>

subsection \<open>Runs\<close>

lemma calls_run_mono: "calls_run ops C x y \<Longrightarrow> C \<subseteq> D \<Longrightarrow> calls_run ops D x y"
  by (induction rule: calls_run.induct) (auto intro: calls_run.intros)

lemma calls_run_trans: "calls_run ops C y z \<Longrightarrow> calls_run ops C x y \<Longrightarrow> calls_run ops C x z"
  by (induction rule: calls_run.induct) (auto intro: calls_run.one_more)

lemma call_op_entry:
  assumes "call_op ops c x y" "c \<noteq> i" "accounts x"
  shows "dialogs (fst y) i = dialogs (fst x) i"
  using assms(1)
proof cases
  case (takes u p u' s h)
  then have "pool_wf u" using assms(3) by (simp add: accounts_def)
  then show ?thesis using takes baseUa_more(1) [OF getPort_more] by simp
qed (use assms(2) in \<open>auto simp: enter_ua_def leave_ua_def freePort_def\<close>)

lemma other_run_entry:
  assumes "calls_run ops (- {i}) x y" "accounts x"
  shows "dialogs (fst y) i = dialogs (fst x) i"
  using assms
proof (induction rule: calls_run.induct)
  case (one_more x y c z)
  then show ?case using call_op_entry [OF one_more(3) _ calls_run_accounts [OF one_more(1)]] by auto
qed simp

text \<open>An operation of the call itself between its entry and its leave does not change what the others have.\<close>

lemma own_op_seen:
  assumes "call_op ops c x y" "accounts x" "sees c x (fst x, fst (snd x), v)"
    and "dialogs (fst x) c \<noteq> None" "dialogs (fst y) c \<noteq> None"
  shows "sees c y (fst y, fst (snd y), v)"
  using assms(1)
proof cases
  case (takes u p u' s h)
  then have wf: "pool_wf u" and held: "set (h c) \<subseteq> ports u" using assms(2) by (auto simp: accounts_def)
  from getPort_wf_cases [OF wf] takes(4) have "ports u' = insert p (ports u)" "p \<notin> ports u" by auto
  then show ?thesis
    using takes assms(3) held baseUa_more(1-3) [OF getPort_more [OF wf takes(4)]] by (auto simp: sees_def)
next
  case (frees u s h)
  then have "pool_wf u" "distinct (h c)" "set (h c) \<subseteq> ports u" using assms(2) by (auto simp: accounts_def)
  from freePort_wf [OF this] show ?thesis using frees assms(3) by (auto simp: sees_def freePort_def)
qed (use assms(3-5) in \<open>auto simp: sees_def leave_ua_def\<close>)

subsection \<open>A handler within a run\<close>

text \<open>The turns of the others are runs of the other calls, whatever ports each of these has.\<close>

definition others_run :: "'s dialog_env \<Rightarrow> string \<Rightarrow> bool" where
  "others_run env c \<longleftrightarrow>
     (\<forall>n u s v h. accounts (u, s, h) \<and> sees c (u, s, h) (u, s, v) \<longrightarrow>
       (case e_others env n (u, s, v) of (u', s', v') \<Rightarrow>
          \<exists>h'. calls_run (e_ops env) (- {c}) (u, s, h) (u', s', h') \<and> sees c (u', s', h') (u', s', v')))"

text \<open>The call has entered as \<open>d\<close> and has the ports \<open>held w\<close>; so far all calls together have run from \<open>x0\<close>.\<close>

definition in_run ::
  "'s dialog_env \<Rightarrow> string \<Rightarrow> nat \<Rightarrow> 's calls \<Rightarrow> (('s, 'z) dialog_world_scheme \<Rightarrow> u16 list) \<Rightarrow>
   ('s, 'z) dialog_world_scheme \<Rightarrow> bool" where
  "in_run env c d x0 held w \<longleftrightarrow>
     media_ok w \<and> dialogs (w_ua w) c = Some d
     \<and> (\<exists>h. calls_run (e_ops env) UNIV x0 (w_ua w, w_rules w, h) \<and> h c = held w
          \<and> sees c (w_ua w, w_rules w, h) (world_view w))"

definition joins ::
  "'s dialog_env \<Rightarrow> string \<Rightarrow> nat \<Rightarrow> (('s, 'z) dialog_world_scheme \<Rightarrow> u16 list) \<Rightarrow> ('s, 'z, 'a) dgo \<Rightarrow> bool" where
  "joins env c d held m \<longleftrightarrow>
     (others_run env c \<longrightarrow> (\<forall>x0. accounts x0 \<longrightarrow> preserves (in_run env c d x0 held) m))"

text \<open>The ports are kept in fields that only one kind of dialog has.\<close>

definition own_field :: "(('s, 'z) dialog_world_scheme \<Rightarrow> u16 list) \<Rightarrow> bool" where
  "own_field held \<longleftrightarrow> (\<forall>w w'. dialog_world.more w' = dialog_world.more w \<longrightarrow> held w' = held w)"

lemma in_run_pool:
  assumes "in_run env c d x0 held w" "accounts x0"
  shows "pool_wf (w_ua w)"
proof -
  from assms(1) obtain h where "calls_run (e_ops env) UNIV x0 (w_ua w, w_rules w, h)" by (auto simp: in_run_def)
  from calls_run_accounts [OF this assms(2)] show ?thesis by (simp add: accounts_def)
qed

lemma in_run_same:
  assumes "in_run env c d x0 held w" "world_view w' = world_view w" "held' w' = held w" "media_ok w'"
  shows "in_run env c d x0 held' w'"
  using assms by (simp add: in_run_def world_view_def)

lemma in_run_own:
  assumes run: "in_run env c d x0 held w" and acc: "accounts x0"
    and op: "\<And>h. h c = held w \<Longrightarrow> call_op (e_ops env) c (w_ua w, w_rules w, h) (w_ua w', w_rules w', h(c := held' w'))"
    and same: "w_others w' = w_others w" "dialogs (w_ua w') c = Some d" "media_ok w'"
  shows "in_run env c d x0 held' w'"
proof -
  from run obtain h where h: "calls_run (e_ops env) UNIV x0 (w_ua w, w_rules w, h)" "h c = held w"
      "sees c (w_ua w, w_rules w, h) (w_ua w, w_rules w, w_others w)" and d: "dialogs (w_ua w) c = Some d"
    by (auto simp: in_run_def world_view_def)
  have step: "call_op (e_ops env) c (w_ua w, w_rules w, h) (w_ua w', w_rules w', h(c := held' w'))" using h(2) by (rule op)
  have "sees c (w_ua w', w_rules w', h(c := held' w')) (w_ua w', w_rules w', w_others w)"
    using own_op_seen [OF step calls_run_accounts [OF h(1) acc]] h(3) d same(2) by simp
  then show ?thesis
    using calls_run.one_more [OF h(1) UNIV_I step] same by (auto simp: in_run_def world_view_def)
qed

lemma own_fieldD: "own_field held \<Longrightarrow> dialog_world.more w' = dialog_world.more w \<Longrightarrow> held w' = held w"
  unfolding own_field_def by blast

named_theorems joins_intros

lemma joins_others [joins_intros]:
  assumes "own_field held"
  shows "joins env c d held (go_others env)"
  unfolding joins_def
proof (intro impI allI preservesI)
  fix x0 and w :: "('a, 'b) dialog_world_scheme"
  assume others: "others_run env c" and acc: "accounts x0" and run: "in_run env c d x0 held w"
  from run obtain h where h: "calls_run (e_ops env) UNIV x0 (w_ua w, w_rules w, h)" "h c = held w"
      "sees c (w_ua w, w_rules w, h) (w_ua w, w_rules w, w_others w)" and d: "dialogs (w_ua w) c = Some d"
    by (auto simp: in_run_def world_view_def)
  obtain u s v where turn: "e_others env (w_turns w) (w_ua w, w_rules w, w_others w) = (u, s, v)" by (metis prod.exhaust)
  note acc' = calls_run_accounts [OF h(1) acc]
  from others [unfolded others_run_def, rule_format, OF conjI [OF acc' h(3)], of "w_turns w"] turn obtain h' where
    h': "calls_run (e_ops env) (- {c}) (w_ua w, w_rules w, h) (u, s, h')" "sees c (u, s, h') (u, s, v)" by auto
  have "h' c = held w" "dialogs u c = Some d"
    using other_run_keeps [OF h'(1)] other_run_entry [OF h'(1) acc'] h(2) d by simp_all
  moreover have "calls_run (e_ops env) UNIV x0 (u, s, h')"
    by (rule calls_run_trans [OF calls_run_mono [OF h'(1)] h(1)]) simp
  moreover have "held (w\<lparr>w_ua := u, w_rules := s, w_others := v, w_turns := w_turns w + 1\<rparr>) = held w"
    by (rule own_fieldD [OF assms]) simp
  moreover have "media_ok w" using run by (simp add: in_run_def)
  ultimately have "in_run env c d x0 held (w\<lparr>w_ua := u, w_rules := s, w_others := v, w_turns := w_turns w + 1\<rparr>)"
    unfolding in_run_def using h'(2) by (intro conjI exI [of _ h']) (simp_all add: media_ok_def world_view_def)
  then show "wp (go_others env) (\<lambda>r. in_run env c d x0 held) w"
    using turn by (simp add: wp_others)
qed

lemma joins_inward:
  assumes "own_field held" "inward m"
  shows "joins env c d held m"
  unfolding joins_def
proof (intro impI allI preservesI)
  fix x0 and w :: "('a, 'b) dialog_world_scheme"
  assume run: "in_run env c d x0 held w"
  then have "media_ok w" by (simp add: in_run_def)
  with assms(2) have "wp m (\<lambda>r w'. media_ok w' \<and> w_sent w' = w_sent w \<and> dialog_world.more w' = dialog_world.more w
    \<and> world_view w' = world_view w) w" by (simp add: inward_def)
  then show "wp m (\<lambda>r. in_run env c d x0 held) w"
  proof (rule wp_mono, elim conjE)
    fix w' :: "('a, 'b) dialog_world_scheme"
    assume "media_ok w'" "dialog_world.more w' = dialog_world.more w" "world_view w' = world_view w"
    moreover from this have "held w' = held w" using own_fieldD [OF assms(1)] by blast
    ultimately show "in_run env c d x0 held w'" using in_run_same [OF run] by blast
  qed
qed

lemma joins_send [joins_intros]:
  assumes "own_field held"
  shows "joins env c d held (go_send env' msg)"
  unfolding joins_def
proof (intro impI allI preservesI)
  fix x0 and w :: "('a, 'b) dialog_world_scheme"
  assume run: "in_run env c d x0 held w"
  then have "in_run env c d x0 held (w\<lparr>w_sent := ms\<rparr>)" for ms
    using run by (intro in_run_same [OF run] own_fieldD [OF assms]) (simp_all add: in_run_def media_ok_def world_view_def)
  then show "wp (go_send env' msg) (\<lambda>r. in_run env c d x0 held) w" by (simp add: wp_send)
qed

lemma joins_composed [joins_intros]:
  "joins env c d held m \<Longrightarrow> (\<And>x. joins env c d held (f x)) \<Longrightarrow> joins env c d held (go_bind m f)"
  "joins env c d held m \<Longrightarrow> joins env c d held n \<Longrightarrow> joins env c d held (go_then m n)"
  "joins env c d held m \<Longrightarrow> (\<And>x. joins env c d held (f x)) \<Longrightarrow> (\<And>e. joins env c d held (h e)) \<Longrightarrow>
   joins env c d held (go_try m f h)"
  "joins env c d held m' \<Longrightarrow> joins env c d held (go_ignore m')"
  "joins env c d held dm \<Longrightarrow> joins env c d held m \<Longrightarrow> joins env c d held (go_defer dm m)"
  unfolding joins_def by (auto intro: preserves_intros)

lemma joins_cases [joins_intros]:
  "(b \<Longrightarrow> joins env c d held m) \<Longrightarrow> (\<not> b \<Longrightarrow> joins env c d held n) \<Longrightarrow> joins env c d held (if b then m else n)"
  "(o1 = None \<Longrightarrow> joins env c d held m) \<Longrightarrow> (\<And>x. o1 = Some x \<Longrightarrow> joins env c d held (f x)) \<Longrightarrow>
   joins env c d held (case o1 of None \<Rightarrow> m | Some x \<Rightarrow> f x)"
  "(\<And>x y. p = (x, y) \<Longrightarrow> joins env c d held (g x y)) \<Longrightarrow> joins env c d held (case p of (x, y) \<Rightarrow> g x y)"
  by (cases o1; cases p; simp)+

lemma joins_shared [joins_intros]:
  "own_field held \<Longrightarrow> joins env c d held m \<Longrightarrow> joins env c d held (shared env m)"
  unfolding shared_def by (intro joins_intros)

lemma joins_or_500 [joins_intros]:
  "own_field held \<Longrightarrow> joins env c d held m \<Longrightarrow> joins env c d held (or_500 env' m)"
  using joins_send unfolding joins_def by (blast intro: preserves_or_500)

lemmas joins_inward_calls [joins_intros] = inward_calls [THEN joins_inward [rotated]]

text \<open>An operation of the call that leaves its ports alone.\<close>

lemma joins_own:
  assumes "own_field held"
    and "\<And>w. media_ok w \<Longrightarrow> wp m (\<lambda>r w'. media_ok w' \<and> dialog_world.more w' = dialog_world.more w \<and> w_others w' = w_others w
      \<and> dialogs (w_ua w') = dialogs (w_ua w)
      \<and> (world_view w' = world_view w
         \<or> (\<forall>h. call_op (e_ops env) c (w_ua w, w_rules w, h) (w_ua w', w_rules w', h)))) w"
  shows "joins env c d held m"
  unfolding joins_def
proof (intro impI allI preservesI)
  fix x0 and w :: "('a, 'b) dialog_world_scheme"
  assume acc: "accounts x0" and run: "in_run env c d x0 held w"
  then have "media_ok w" by (simp add: in_run_def)
  from assms(2) [OF this] show "wp m (\<lambda>r. in_run env c d x0 held) w"
  proof (rule wp_mono, elim conjE)
    fix w' :: "('a, 'b) dialog_world_scheme"
    assume w': "media_ok w'" "dialog_world.more w' = dialog_world.more w" "w_others w' = w_others w"
      "dialogs (w_ua w') = dialogs (w_ua w)"
      and step: "world_view w' = world_view w \<or> (\<forall>h. call_op (e_ops env) c (w_ua w, w_rules w, h) (w_ua w', w_rules w', h))"
    have held: "held w' = held w" using own_fieldD [OF assms(1)] w'(2) by blast
    show "in_run env c d x0 held w'"
      using step
    proof
      assume "world_view w' = world_view w"
      then show ?thesis using in_run_same [OF run] held w'(1) by blast
    next
      assume op: "\<forall>h. call_op (e_ops env) c (w_ua w, w_rules w, h) (w_ua w', w_rules w', h)"
      show ?thesis
      proof (rule in_run_own [OF run acc])
        fix h
        assume "h c = held w"
        then have "h(c := held w') = h" using held by auto
        then show "call_op (e_ops env) c (w_ua w, w_rules w, h) (w_ua w', w_rules w', h(c := held w'))" using op by simp
      qed (use w' run in \<open>simp_all add: in_run_def\<close>)
    qed
  qed
qed

lemma joins_newMedia [joins_intros]:
  assumes "own_field held"
  shows "joins env c d held (go_newMedia env' remote local)"
proof (rule joins_own [OF assms])
  fix w :: "('a, 'b) dialog_world_scheme"
  assume ok: "media_ok w"
  obtain r u where new: "newMedia (fst (e_tables env' (w_turns w))) (snd (e_tables env' (w_turns w))) remote local (w_ua w) = (r, u)" by (metis prod.exhaust)
  have "u = w_ua w \<or> (\<forall>h. call_op (e_ops env) c (w_ua w, w_rules w, h) (u, w_rules w, h))"
    using newMedia_socket [OF new] by (auto intro: call_op.sends)
  moreover have "dialogs u = dialogs (w_ua w)" using newMedia_frame [OF new] by auto
  ultimately show "wp (go_newMedia env' remote local) (\<lambda>r w'. media_ok w' \<and> dialog_world.more w' = dialog_world.more w
      \<and> w_others w' = w_others w \<and> dialogs (w_ua w') = dialogs (w_ua w)
      \<and> (world_view w' = world_view w
         \<or> (\<forall>h. call_op (e_ops env) c (w_ua w, w_rules w, h) (w_ua w', w_rules w', h)))) w"
    using ok new newMedia_inv by (cases r) (auto simp: wp_newMedia media_ok_def, auto simp: world_view_def)
qed

lemma joins_draw [joins_intros]:
  assumes "own_field held"
  shows "joins env c d held (go_draw r ringingTimeRange (\<lambda>t u. u\<lparr>ringingTimeRange := t\<rparr>))"
    "joins env c d held (go_draw r answerTimeRange (\<lambda>t u. u\<lparr>answerTimeRange := t\<rparr>))"
  by (rule joins_own [OF assms], auto simp: wp_def go_draw_def media_ok_def world_view_def
      intro: call_op.rings call_op.answers split: res.split)+

lemma joins_update [joins_intros]:
  assumes "own_field held"
  shows "joins env c d held (go_update env ps)"
proof (rule joins_own [OF assms])
  fix w :: "('a, 'b) dialog_world_scheme"
  assume "media_ok w"
  then show "wp (go_update env ps) (\<lambda>r w'. media_ok w' \<and> dialog_world.more w' = dialog_world.more w
      \<and> w_others w' = w_others w \<and> dialogs (w_ua w') = dialogs (w_ua w)
      \<and> (world_view w' = world_view w
         \<or> (\<forall>h. call_op (e_ops env) c (w_ua w, w_rules w, h) (w_ua w', w_rules w', h)))) w"
    using call_op.registers [of "e_ops env" c "w_ua w" "w_rules w" _ ps]
    by (cases "ebpf_Update (e_ops env) ps (w_rules w)") (auto simp: wp_update media_ok_def split: option.split)
qed

lemma joins_lookup [joins_intros]:
  assumes "own_field held"
  shows "joins env c d held (go_lookup env ps)"
proof (rule joins_own [OF assms])
  fix w :: "('a, 'b) dialog_world_scheme"
  assume "media_ok w"
  then show "wp (go_lookup env ps) (\<lambda>r w'. media_ok w' \<and> dialog_world.more w' = dialog_world.more w
      \<and> w_others w' = w_others w \<and> dialogs (w_ua w') = dialogs (w_ua w)
      \<and> (world_view w' = world_view w
         \<or> (\<forall>h. call_op (e_ops env) c (w_ua w, w_rules w, h) (w_ua w', w_rules w', h)))) w"
    using call_op.collects [of "e_ops env" c "w_ua w" "w_rules w" _ ps]
    by (cases "LookupAndDelete (e_ops env) ps (w_rules w)") (auto simp: wp_lookup media_ok_def)
qed

lemma joins_wait [joins_intros]:
  assumes "own_field held"
  shows "joins env c d held (wait_ringing env)" "joins env c d held (wait_answer env)"
  unfolding wait_ringing_def wait_answer_def go_wait_def by (intro joins_intros assms)+

text \<open>Taking a port: \<open>keep\<close> is where the dialog keeps it.\<close>

lemma in_run_getPort:
  assumes run: "in_run env c d x0 held w" and acc: "accounts x0" and got: "getPort (w_ua w) = Some (Ok (p, u))"
    and w': "w_ua w' = u" "w_rules w' = w_rules w" "w_others w' = w_others w" "w_media w' = w_media w" "held w' = held w @ [p]"
  shows "in_run env c d x0 held w'"
proof (rule in_run_own [OF run acc])
  have d: "dialogs (w_ua w) c = Some d" using run by (simp add: in_run_def)
  show "call_op (e_ops env) c (w_ua w, w_rules w, h) (w_ua w', w_rules w', h(c := held w'))" if "h c = held w" for h
    using call_op.takes [of "w_ua w" c p u "e_ops env" "w_rules w" h] d got w' that by simp
  show "dialogs (w_ua w') c = Some d"
    using d w'(1) baseUa_more(1) [OF getPort_more [OF in_run_pool [OF run acc] got]] by simp
qed (use run w' in \<open>simp_all add: in_run_def media_ok_def\<close>)

subsection \<open>The end of a call\<close>

lemma wp_turn_run:
  assumes others: "others_run env c" and acc: "accounts x0" and field: "own_field held" and run: "in_run env c d x0 held w"
    and rest: "\<And>w1. in_run env c d x0 held w1 \<Longrightarrow> dialog_world.more w1 = dialog_world.more w \<Longrightarrow> wp m Q w1"
  shows "wp (shared env m) Q w"
proof -
  have "wp (go_others env) (\<lambda>r. in_run env c d x0 held) w"
    using joins_others [OF field] others acc run unfolding joins_def by (blast intro: preservesD)
  moreover obtain u s v where turn: "e_others env (w_turns w) (w_ua w, w_rules w, w_others w) = (u, s, v)" by (metis prod.exhaust)
  ultimately have "in_run env c d x0 held (w\<lparr>w_ua := u, w_rules := s, w_others := v, w_turns := w_turns w + 1\<rparr>)"
    by (simp add: wp_others)
  then have "wp m Q (w\<lparr>w_ua := u, w_rules := s, w_others := v, w_turns := w_turns w + 1\<rparr>)" by (rule rest) simp
  then show ?thesis using turn by (simp add: wp_shared)
qed

lemma fixed_ports: "own_field (\<lambda>_. ps)"
  by (simp add: own_field_def)

lemma joins_give_ports:
  assumes others: "others_run env c" and acc: "accounts x0" and run: "in_run env c d x0 (\<lambda>_. ps) w"
    and rest: "\<And>infos ok w'. length infos = length ps \<Longrightarrow> in_run env c d x0 (\<lambda>_. []) w' \<Longrightarrow> wp (f (infos, ok)) Q w'"
  shows "wp (go_then (shared env (go_freePort ps)) (go_bind (shared env (go_lookup env ps)) f)) Q w"
  unfolding wp_then [of "shared env m" for m]
proof (rule wp_turn_run [OF others acc fixed_ports run])
  fix w1 :: "('a, 'b) dialog_world_scheme"
  assume run1: "in_run env c d x0 (\<lambda>_. ps) w1"
  let ?w2 = "w1\<lparr>w_ua := freePort ps (w_ua w1)\<rparr>"
  have run2: "in_run env c d x0 (\<lambda>_. []) ?w2"
  proof (rule in_run_own [OF run1 acc])
    have d: "dialogs (w_ua w1) c = Some d" using run1 by (simp add: in_run_def)
    then show "dialogs (w_ua ?w2) c = Some d" by (simp add: freePort_def)
    show "call_op (e_ops env) c (w_ua w1, w_rules w1, h) (w_ua ?w2, w_rules ?w2, h(c := []))" if "h c = ps" for h
      using call_op.frees [of "w_ua w1" c "e_ops env" "w_rules w1" h] d that by simp
  qed (use run1 in \<open>simp_all add: in_run_def media_ok_def\<close>)
  have "wp (go_bind (shared env (go_lookup env ps)) f) Q ?w2"
    unfolding wp_bind
  proof (rule wp_turn_run [OF others acc fixed_ports run2])
    fix w3 :: "('a, 'b) dialog_world_scheme"
    assume run3: "in_run env c d x0 (\<lambda>_. []) w3"
    obtain infos e s where lad: "LookupAndDelete (e_ops env) ps (w_rules w3) = (infos, e, s)" by (metis prod_cases3)
    have "wp (go_lookup env ps) (\<lambda>r. in_run env c d x0 (\<lambda>_. [])) w3"
      using joins_lookup [OF fixed_ports] others acc run3 unfolding joins_def by (blast intro: preservesD)
    then have "in_run env c d x0 (\<lambda>_. []) (w3\<lparr>w_rules := s\<rparr>)" using lad by (simp add: wp_lookup)
    moreover have "length infos = length ps" using lad LookupAndDelete_length [of "e_ops env" ps "w_rules w3"] by simp
    ultimately have "wp (f (infos, e = None)) Q (w3\<lparr>w_rules := s\<rparr>)" by (intro rest)
    then show "wp (go_lookup env ps) (\<lambda>r s'. case r of Ok x \<Rightarrow> wp (f x) Q s' | Err e \<Rightarrow> Q (Err e) s' | Panic p \<Rightarrow> Q (Panic p) s') w3"
      using lad by (simp add: wp_lookup)
  qed
  then show "wp (go_freePort ps) (\<lambda>r s'. case r of Ok x \<Rightarrow> wp (go_bind (shared env (go_lookup env ps)) f) Q s'
      | Err e \<Rightarrow> Q (Err e) s' | Panic p \<Rightarrow> Q (Panic p) s') w1"
    by (simp add: go_freePort_def wp_modify)
qed

text \<open>The call has left and has no ports.\<close>

definition run_over :: "'s dialog_env \<Rightarrow> string \<Rightarrow> 's calls \<Rightarrow> ('s, 'z) dialog_world_scheme \<Rightarrow> bool" where
  "run_over env c x0 w \<longleftrightarrow>
     dialogs (w_ua w) c = None \<and> (\<exists>h. calls_run (e_ops env) UNIV x0 (w_ua w, w_rules w, h) \<and> h c = [])"

lemma wp_parting_run:
  assumes others: "others_run env c" and acc: "accounts x0" and run: "in_run env c d x0 (\<lambda>_. []) w"
  shows "wp (parting env losses rx c) (\<lambda>r w'. r = Ok () \<and> run_over env c x0 w') w"
proof -
  have last: "wp (shared env (leave_dialog c)) (\<lambda>r w'. r = Ok () \<and> run_over env c x0 w') w1"
    if "in_run env c d x0 (\<lambda>_. []) w1" for w1 :: "('a, 'b) dialog_world_scheme"
  proof (rule wp_turn_run [OF others acc fixed_ports that])
    fix w2 :: "('a, 'b) dialog_world_scheme"
    assume "in_run env c d x0 (\<lambda>_. []) w2"
    then obtain h where h: "calls_run (e_ops env) UNIV x0 (w_ua w2, w_rules w2, h)" "h c = []" "dialogs (w_ua w2) c \<noteq> None"
      by (auto simp: in_run_def)
    have "call_op (e_ops env) c (w_ua w2, w_rules w2, h) (leave_ua c (w_ua w2), w_rules w2, h)"
      using h(3,2) by (rule call_op.leaves)
    from calls_run.one_more [OF h(1) UNIV_I this] h(2)
    show "wp (leave_dialog c) (\<lambda>r w'. r = Ok () \<and> run_over env c x0 w') w2"
      by (auto simp: leave_dialog_def wp_modify run_over_def leave_ua_def)
  qed
  have ok: "media_ok w" using run by (simp add: in_run_def)
  have "in_run env c d x0 (\<lambda>_. []) (w\<lparr>w_media := om, w_stats := Some st\<rparr>)" if "\<forall>m. om = Some m \<longrightarrow> media_inv m \<and> \<not> m_playing m" for om st
    by (rule in_run_same [OF run]) (use that in \<open>simp_all add: world_view_def media_ok_def\<close>)
  with last have "wp (shared env (leave_dialog c)) (\<lambda>r w'. r = Ok () \<and> run_over env c x0 w') (w\<lparr>w_media := om, w_stats := Some st\<rparr>)"
    if "\<forall>m. om = Some m \<longrightarrow> media_inv m \<and> \<not> m_playing m" for om st using that by blast
  moreover have "\<exists>om. media_Close (w_media w) = Ok om \<and> (\<forall>m. om = Some m \<longrightarrow> media_inv m \<and> \<not> m_playing m)"
    using ok stop_inv by (cases "w_media w") (fastforce simp: media_Close_def stop_def media_ok_def)+
  ultimately show ?thesis
    unfolding parting_def wp_then [of "go_close_media losses rx"] wp_close_media [OF ok] by auto
qed

subsection \<open>Incoming calls\<close>

lemma uas_field: "own_field (localAudioPorts :: 's uas_world \<Rightarrow> u16 list)"
  unfolding own_field_def using uas_more(1) by blast

lemma joins_take_port:
  fixes env :: "'s dialog_env"
  shows "joins env c d localAudioPorts (take_port env)"
proof -
  have "preserves (in_run env c d x0 (localAudioPorts :: 's uas_world \<Rightarrow> u16 list)) (go_bind go_getPort (\<lambda>p.
      go_then (go_modify (\<lambda>w. w\<lparr>localAudioPorts := localAudioPorts w @ [p]\<rparr>)) (go_return p)))" if acc: "accounts x0" for x0
  proof (rule preservesI)
    fix w :: "'s uas_world"
    assume run: "in_run env c d x0 localAudioPorts w"
    from pool.get_returns [OF in_run_pool [OF run acc]] consider "getPort (w_ua w) = Some (Err errNoFreePorts)"
      | p u where "getPort (w_ua w) = Some (Ok (p, u))" by blast
    then show "wp (go_bind go_getPort (\<lambda>p. go_then (go_modify (\<lambda>w. w\<lparr>localAudioPorts := localAudioPorts w @ [p]\<rparr>)) (go_return p)))
        (\<lambda>r. in_run env c d x0 localAudioPorts) w"
    proof cases
      case 1
      then show ?thesis using run by (simp add: wp_def go_getPort_def go_bind_def)
    next
      case (2 p u)
      have "in_run env c d x0 localAudioPorts (w\<lparr>w_ua := u, localAudioPorts := localAudioPorts w @ [p]\<rparr>)"
        by (rule in_run_getPort [OF run acc 2]) simp_all
      then show ?thesis
        using 2 by (simp add: wp_def go_getPort_def go_bind_def go_then_def go_modify_def go_return_def)
    qed
  qed
  then have "joins env c d (localAudioPorts :: 's uas_world \<Rightarrow> u16 list) (go_bind go_getPort (\<lambda>p.
      go_then (go_modify (\<lambda>w. w\<lparr>localAudioPorts := localAudioPorts w @ [p]\<rparr>)) (go_return p)))"
    unfolding joins_def by blast
  then show ?thesis unfolding take_port_alt by (rule joins_shared [OF uas_field])
qed

lemma joins_play: "joins env c d localAudioPorts (play f)"
  unfolding play_def by (intro joins_intros uas_field)

lemma joins_ring_and_answer:
  "joins env c d localAudioPorts pa \<Longrightarrow> joins env c d localAudioPorts (ring_and_answer env sdp pa)"
  unfolding ring_and_answer_def by (intro joins_intros uas_field)

lemma joins_siprec_ports: "joins env c d localAudioPorts (siprec_ports env infos sdp)"
  by (induction infos arbitrary: sdp) (auto intro!: joins_intros joins_take_port uas_field)

lemma joins_onInvite: "joins env c d localAudioPorts (onInvite env ct body)"
  unfolding onInvite_def onInviteSIPREC_def invite_media_def Let_def
  by (intro joins_intros uas_field joins_take_port joins_play joins_ring_and_answer joins_siprec_ports)

lemma uas_Close_run:
  fixes env :: "'s dialog_env"
  assumes others: "others_run env c" and acc: "accounts x0" and run: "in_run env c d x0 localAudioPorts w"
  shows "wp (uas_Close env c) (\<lambda>r w'. r = Ok () \<and> run_over env c x0 w') w"
proof -
  let ?ps = "localAudioPorts w"
  note last = wp_parting_run [OF others acc]
  have ports: "in_run env c d x0 (\<lambda>_. ?ps) w" by (rule in_run_same [OF run]) (use run in \<open>simp_all add: in_run_def\<close>)
  show ?thesis
  proof (cases "?ps = []")
    case True
    then show ?thesis using last [OF ports [unfolded True]] by (simp add: uas_Close_def wp_bind wp_get wp_return)
  next
    case False
    have "wp (go_then (shared env (go_freePort ?ps)) (go_bind (shared env (go_lookup env ?ps))
        (\<lambda>(infos, ok). go_return (if ok then infos else []))))
        (\<lambda>r w'. \<exists>rx. r = Ok rx \<and> in_run env c d x0 (\<lambda>_. []) w') w"
      by (rule joins_give_ports [OF others acc ports]) (simp add: wp_return)
    then show ?thesis
      unfolding uas_Close_def wp_bind [of "go_get f" for f] wp_get res.case if_P [OF False] wp_bind [of "go_then m n" for m n]
      by (rule wp_mono) (use last in auto)
  qed
qed

text \<open>The entry, from a state in which the Call-ID is not in use.\<close>

lemma enters_run:
  assumes "accounts x0" and x0: "x0 = (w_ua w, w_rules w, h0)" and "h0 c = []" and "dialogs (w_ua w) c = None"
    and w': "w_ua w' = enter_ua c d (w_ua w)" "w_rules w' = w_rules w" "w_others w' = w_ua w" "w_media w' = None" "held w' = []"
  shows "in_run env c d x0 held w'"
proof -
  have "calls_run (e_ops env) UNIV x0 (w_ua w', w_rules w', h0)"
    unfolding x0 w'(1,2) by (rule calls_run.one_more [OF calls_run.no_call UNIV_I]) (rule call_op.enters [OF assms(4)])
  moreover have "metricsCurrentDialogs (w_ua w) = wrap64 (int (card (dom (dialogs (w_ua w)))))"
    using assms(1) unfolding x0 by (simp add: accounts_def)
  then have "wrap64 (wrap64 (metricsCurrentDialogs (w_ua w) + 1) - 1) = metricsCurrentDialogs (w_ua w)"
    using wrap64_shift [of "int (card (dom (dialogs (w_ua w))))" 0 0] by (simp add: wrap64_inc_dec)
  then have "sees c (w_ua w', w_rules w', h0) (world_view w')"
    using assms(3,4) w' by (auto simp: sees_def world_view_def enter_ua_def)
  ultimately show ?thesis
    using assms(3) w' unfolding in_run_def by (intro conjI exI [of _ h0]) (simp_all add: media_ok_def enter_ua_def)
qed

lemma Uas_onInvite_run:
  fixes w :: "'s uas_world"
  assumes others: "others_run env c" and acc: "accounts (w_ua w, w_rules w, h0)" and "h0 c = []" and "dialogs (w_ua w) c = None"
  shows "\<exists>r w'. Uas_onInvite env True rnd chance c d ct body w = Some (r, w') \<and> run_over env c (w_ua w, w_rules w, h0) w'"
proof -
  let ?x0 = "(w_ua w, w_rules w, h0)"
  let ?run = "in_run env c d ?x0 (localAudioPorts :: 's uas_world \<Rightarrow> u16 list)"
  have "?run (uas_start a c d w)" for a
    by (rule enters_run [OF acc refl assms(3,4)]) (simp_all add: uas_start_def)
  then have "wp (NewDialogUas rnd chance c d) (\<lambda>r w'. r = Ok () \<and> ?run w') w"
    by (simp add: wp_def NewDialogUas_start)
  moreover have "wp (onInvite env ct body) (\<lambda>r. ?run) w1" if "?run w1" for w1
    using joins_onInvite others acc that unfolding joins_def by (blast intro: preservesD)
  moreover have "wp (uas_Close env c) (\<lambda>r w2. r = Ok () \<and> run_over env c ?x0 w2) w1" if "?run w1" for w1
    using uas_Close_run [OF others acc that] .
  ultimately show ?thesis
    using opened_and_closed [of "NewDialogUas rnd chance c d" ?run w "onInvite env ct body" ?run "uas_Close env c" "run_over env c ?x0"]
    by (simp add: Uas_onInvite_def)
qed

subsection \<open>Outgoing calls\<close>

lemma call_op_min:
  assumes "call_op ops c x y" "accounts x"
  shows "RtpPortMin (fst y) = RtpPortMin (fst x)"
  using assms(1)
proof cases
  case (takes u p u' s h)
  then have "pool_wf u" using assms(2) by (simp add: accounts_def)
  from getPort_wf_cases [OF this] takes show ?thesis by auto
qed (auto simp: enter_ua_def leave_ua_def freePort_def)

lemma calls_run_min: "calls_run ops C x y \<Longrightarrow> accounts x \<Longrightarrow> RtpPortMin (fst y) = RtpPortMin (fst x)"
  by (induction rule: calls_run.induct) (auto dest: call_op_min calls_run_accounts)

abbreviation audio_port :: "'s uac_world \<Rightarrow> u16 list" where
  "audio_port w \<equiv> taken_ports (localAudioPort w)"

lemma uac_field: "own_field (audio_port :: 's uac_world \<Rightarrow> u16 list)"
proof -
  have "audio_port w' = audio_port w" if "dialog_world.more w' = dialog_world.more w" for w w' :: "'s uac_world"
    using uac_more [OF that] by simp
  then show ?thesis unfolding own_field_def by blast
qed

lemma take_audio_port_run:
  fixes w :: "'s uac_world"
  assumes others: "others_run env c" and acc: "accounts x0" and min: "0 < RtpPortMin (fst x0)"
    and run: "in_run env c d x0 audio_port w" and none: "localAudioPort w = 0"
  shows "wp (take_audio_port env) (\<lambda>r. in_run env c d x0 audio_port) w"
proof -
  have "wp (shared env go_getPort) (\<lambda>r w'. case r of
      Ok p \<Rightarrow> in_run env c d x0 audio_port (w'\<lparr>localAudioPort := p\<rparr>)
    | Err e \<Rightarrow> in_run env c d x0 audio_port (w'\<lparr>localAudioPort := 0\<rparr>)
    | Panic x \<Rightarrow> in_run env c d x0 audio_port w') w"
  proof (rule wp_turn_run [OF others acc uac_field run])
    fix w1 :: "'s uac_world"
    assume run1: "in_run env c d x0 audio_port w1" and same: "dialog_world.more w1 = dialog_world.more w"
    have none1: "localAudioPort w1 = 0" using uac_more [OF same] none by simp
    from run1 obtain h where "calls_run (e_ops env) UNIV x0 (w_ua w1, w_rules w1, h)" by (auto simp: in_run_def)
    from calls_run_min [OF this acc] min have min1: "0 < RtpPortMin (w_ua w1)" by simp
    from getPort_wf_cases [OF in_run_pool [OF run1 acc]] min1 consider "getPort (w_ua w1) = Some (Err errNoFreePorts)"
      | p u where "getPort (w_ua w1) = Some (Ok (p, u))" "p \<noteq> 0" by fastforce
    then show "wp go_getPort (\<lambda>r w'. case r of
        Ok p \<Rightarrow> in_run env c d x0 audio_port (w'\<lparr>localAudioPort := p\<rparr>)
      | Err e \<Rightarrow> in_run env c d x0 audio_port (w'\<lparr>localAudioPort := 0\<rparr>)
      | Panic x \<Rightarrow> in_run env c d x0 audio_port w') w1"
    proof cases
      case 1
      have "w1\<lparr>localAudioPort := 0\<rparr> = w1" using none1 by (cases w1) simp
      then show ?thesis using 1 run1 by (simp add: wp_def go_getPort_def)
    next
      case (2 p u)
      have "in_run env c d x0 audio_port (w1\<lparr>w_ua := u, localAudioPort := p\<rparr>)"
        by (rule in_run_getPort [OF run1 acc 2(1)]) (use 2(2) none1 in \<open>simp_all add: taken_ports_def\<close>)
      then show ?thesis using 2 by (simp add: wp_def go_getPort_def)
    qed
  qed
  from wp_returns [OF this] obtain r w' where r: "shared env go_getPort w = Some (r, w')" "case r of
      Ok p \<Rightarrow> in_run env c d x0 audio_port (w'\<lparr>localAudioPort := p\<rparr>)
    | Err e \<Rightarrow> in_run env c d x0 audio_port (w'\<lparr>localAudioPort := 0\<rparr>)
    | Panic x \<Rightarrow> in_run env c d x0 audio_port w'" by blast
  then show ?thesis by (cases r) (simp_all add: wp_def take_audio_port_def)
qed

lemma joins_make_media:
  "joins env c d audio_port early \<Longrightarrow> joins env c d audio_port (make_media env body early)"
  unfolding make_media_def cancel_call_def by (intro joins_intros uac_field)

lemma joins_onResponse: "joins env c d audio_port (onResponse env status body)"
  unfolding onResponse_def play_from_def by (intro joins_intros uac_field joins_make_media)

lemma joins_wait_events: "joins env c d audio_port (wait_events env events)"
  by (induction events rule: wait_events.induct) (auto intro!: joins_intros uac_field joins_onResponse)

lemma joins_answered_call: "joins env c d audio_port (answered_call env)"
  unfolding answered_call_def play_from_def cancel_call_def by (intro joins_intros uac_field)

lemma MakeCall_run:
  fixes w :: "'s uac_world"
  assumes others: "others_run env c" and acc: "accounts x0" and min: "0 < RtpPortMin (fst x0)"
    and run: "in_run env c d x0 audio_port w" and none: "localAudioPort w = 0"
  shows "wp (MakeCall env events outcome) (\<lambda>r. in_run env c d x0 audio_port) w"
proof -
  have "joins env c d audio_port (go_then (shared env (go_update env [p, p + 1]))
     (go_then (go_send env (Invite (sdpBase (e_addr env) p)))
     (go_then (wait_events env events)
       (case outcome of
          Wait_Failed \<Rightarrow> go_then cancel_call (go_fail D_Answer)
        | Wait_Canceled \<Rightarrow> go_fail D_Answer
        | Answered \<Rightarrow> answered_call env))))" for p
    by (cases outcome)
      (simp_all, (intro joins_intros uac_field joins_wait_events joins_answered_call
        joins_inward_calls(9) [of audio_port, folded cancel_call_def])+)
  with others acc have "preserves (in_run env c d x0 audio_port) (go_then (shared env (go_update env [p, p + 1]))
     (go_then (go_send env (Invite (sdpBase (e_addr env) p)))
     (go_then (wait_events env events)
       (case outcome of
          Wait_Failed \<Rightarrow> go_then cancel_call (go_fail D_Answer)
        | Wait_Canceled \<Rightarrow> go_fail D_Answer
        | Answered \<Rightarrow> answered_call env))))" for p
    unfolding joins_def by blast
  then show ?thesis
    unfolding MakeCall_def wp_bind [of "take_audio_port env"]
    by (intro wp_mono [OF take_audio_port_run [OF assms]]) (auto intro: preservesD split: res.split)
qed

lemma uac_Close_run:
  fixes env :: "'s dialog_env"
  assumes others: "others_run env c" and acc: "accounts x0" and run: "in_run env c d x0 audio_port w"
  shows "wp (uac_Close env c) (\<lambda>r w'. r = Ok () \<and> run_over env c x0 w') w"
proof -
  let ?p = "localAudioPort w"
  note last = wp_parting_run [OF others acc]
  have ports: "in_run env c d x0 (\<lambda>_. taken_ports ?p) w" by (rule in_run_same [OF run]) (use run in \<open>simp_all add: in_run_def\<close>)
  show ?thesis
  proof (cases "?p = 0")
    case True
    then show ?thesis using last ports by (simp add: uac_Close_def wp_bind wp_get wp_return taken_ports_def)
  next
    case False
    have "wp (go_then (shared env (go_freePort [?p])) (go_bind (shared env (go_lookup env [?p])) (\<lambda>(infos, ok).
        go_bind (go_lift (index_slice infos 0)) (\<lambda>info. go_return [info]))))
        (\<lambda>r w'. \<exists>rx. r = Ok rx \<and> in_run env c d x0 (\<lambda>_. []) w') w"
    proof (rule joins_give_ports [OF others acc])
      show "in_run env c d x0 (\<lambda>_. [?p]) w" using ports False by (simp add: taken_ports_def)
      fix infos :: "rtp_info list" and ok and w' :: "'s uac_world"
      assume *: "length infos = length [?p]" "in_run env c d x0 (\<lambda>_. []) w'"
      then show "wp (case (infos, ok) of (infos, ok) \<Rightarrow> go_bind (go_lift (index_slice infos 0)) (\<lambda>info. go_return [info]))
          (\<lambda>r w'. \<exists>rx. r = Ok rx \<and> in_run env c d x0 (\<lambda>_. []) w') w'"
        by (cases infos) (simp_all add: wp_bind wp_lift wp_return)
    qed
    then show ?thesis
      unfolding uac_Close_def wp_bind [of "go_get f" for f] wp_get res.case if_P [OF False] wp_bind [of "go_then m n" for m n]
      by (rule wp_mono) (use last in auto)
  qed
qed

lemma one_call_run:
  fixes w :: "'s uac_world"
  assumes others: "others_run env c" and acc: "accounts (w_ua w, w_rules w, h0)" and "h0 c = []" and "dialogs (w_ua w) c = None"
    and min: "0 < RtpPortMin (w_ua w)"
  shows "\<exists>r w'. one_call env events outcome c d w = Some (r, w') \<and> run_over env c (w_ua w, w_rules w, h0) w'"
proof -
  let ?x0 = "(w_ua w, w_rules w, h0)"
  let ?run = "in_run env c d ?x0 (audio_port :: 's uac_world \<Rightarrow> u16 list)"
  have "?run (uac_start c d w)"
    by (rule enters_run [OF acc refl assms(3,4)]) (simp_all add: uac_start_def taken_ports_def)
  then have "wp (NewDialogUac c d) (\<lambda>r w'. r = Ok () \<and> (?run w' \<and> localAudioPort w' = 0)) w"
    by (simp add: wp_def NewDialogUac_start uac_start_def)
  moreover have "wp (MakeCall env events outcome) (\<lambda>r. ?run) w1" if "?run w1 \<and> localAudioPort w1 = 0" for w1
    using MakeCall_run [OF others acc _ conjunct1 [OF that] conjunct2 [OF that]] min by simp
  moreover have "wp (uac_Close env c) (\<lambda>r w2. r = Ok () \<and> run_over env c ?x0 w2) w1" if "?run w1" for w1
    using uac_Close_run [OF others acc that] .
  ultimately show ?thesis
    unfolding one_call_def by (rule opened_and_closed)
qed

subsection \<open>Properties\<close>

text \<open>What is left of a run when no call is in the table.\<close>

lemma accounts_idle: "accounts (u, s, h) \<Longrightarrow> dialogs u = Map.empty \<Longrightarrow> ports u = {} \<and> metricsCurrentDialogs u = 0"
  by (auto simp: accounts_def in_int64_def)

lemma run_over_run:
  assumes "run_over env c x0 w" "accounts x0"
  shows "\<exists>h. calls_run (e_ops env) UNIV x0 (w_ua w, w_rules w, h) \<and> accounts (w_ua w, w_rules w, h) \<and> h c = []
    \<and> dialogs (w_ua w) c = None
    \<and> (dialogs (w_ua w) = Map.empty \<longrightarrow> ports (w_ua w) = {} \<and> metricsCurrentDialogs (w_ua w) = 0)"
proof -
  from assms(1) obtain h where h: "calls_run (e_ops env) UNIV x0 (w_ua w, w_rules w, h)" "h c = []" "dialogs (w_ua w) c = None"
    by (auto simp: run_over_def)
  note calls_run_accounts [OF h(1) assms(2)]
  with h accounts_idle [OF this] show ?thesis by blast
qed

text \<open>
  C12. The handlers are calls, in an agent whose range of ports does not start at 0. While the other calls
  do what calls do, so does the handler of an incoming and
  of an outgoing call with a Call-ID of its own, whatever happens to it: all its operations on the agent
  and the kernel's map, together with those of the others, are one run of calls, from its entry to its leave,
  after which it has no port and no entry. So the accounts of the agent hold throughout, and when
  the last call has left, no port is held.
\<close>

theorem handlers_are_calls:
  assumes "others_run env c" and "accounts (w_ua w, w_rules w, h)" and "h c = []" and "dialogs (w_ua w) c = None"
    and "w_ua v = w_ua w" and "w_rules v = w_rules w" and "0 < RtpPortMin (w_ua w)"
  shows "(\<exists>r w'. Uas_onInvite env True rnd chance c d contentType body w = Some (r, w')
      \<and> (\<exists>h'. calls_run (e_ops env) UNIV (w_ua w, w_rules w, h) (w_ua w', w_rules w', h')
          \<and> accounts (w_ua w', w_rules w', h') \<and> h' c = [] \<and> dialogs (w_ua w') c = None
          \<and> (dialogs (w_ua w') = Map.empty \<longrightarrow> ports (w_ua w') = {} \<and> metricsCurrentDialogs (w_ua w') = 0)))
    \<and> (\<exists>r v'. one_call env events outcome c d v = Some (r, v')
      \<and> (\<exists>h'. calls_run (e_ops env) UNIV (w_ua w, w_rules w, h) (w_ua v', w_rules v', h')
          \<and> accounts (w_ua v', w_rules v', h') \<and> h' c = [] \<and> dialogs (w_ua v') c = None
          \<and> (dialogs (w_ua v') = Map.empty \<longrightarrow> ports (w_ua v') = {} \<and> metricsCurrentDialogs (w_ua v') = 0)))"
proof
  from Uas_onInvite_run [OF assms(1-4), of rnd chance d contentType body] obtain r w' where
    w': "Uas_onInvite env True rnd chance c d contentType body w = Some (r, w')" "run_over env c (w_ua w, w_rules w, h) w'" by blast
  from w'(1) run_over_run [OF w'(2) assms(2)]
  show "\<exists>r w'. Uas_onInvite env True rnd chance c d contentType body w = Some (r, w')
      \<and> (\<exists>h'. calls_run (e_ops env) UNIV (w_ua w, w_rules w, h) (w_ua w', w_rules w', h')
          \<and> accounts (w_ua w', w_rules w', h') \<and> h' c = [] \<and> dialogs (w_ua w') c = None
          \<and> (dialogs (w_ua w') = Map.empty \<longrightarrow> ports (w_ua w') = {} \<and> metricsCurrentDialogs (w_ua w') = 0))" by blast
  from one_call_run [of env c v h events outcome d] assms obtain r v' where
    v': "one_call env events outcome c d v = Some (r, v')" "run_over env c (w_ua w, w_rules w, h) v'" by auto
  from v'(1) run_over_run [OF v'(2) assms(2)]
  show "\<exists>r v'. one_call env events outcome c d v = Some (r, v')
      \<and> (\<exists>h'. calls_run (e_ops env) UNIV (w_ua w, w_rules w, h) (w_ua v', w_rules v', h')
          \<and> accounts (w_ua v', w_rules v', h') \<and> h' c = [] \<and> dialogs (w_ua v') c = None
          \<and> (dialogs (w_ua v') = Map.empty \<longrightarrow> ports (w_ua v') = {} \<and> metricsCurrentDialogs (w_ua v') = 0))" by blast
qed

text \<open>Another call that enters when this one has.\<close>

definition entering_other :: "nat \<Rightarrow> 's shared \<Rightarrow> 's shared" where
  "entering_other n x =
     (case x of (u, s, v) \<Rightarrow>
        if n = 0 \<and> dialogs u ''b'' = None then (enter_ua ''b'' 9 u, s, enter_ua ''b'' 9 v) else x)"

lemma entering_other_runs: "others_run (sample_calls\<lparr>e_others := entering_other\<rparr>) ''a''"
  unfolding others_run_def
proof (intro allI impI, elim conjE)
  fix n u v and s :: "(u64 \<times> rtp_info) list" and h
  assume acc: "accounts (u, s, h)" and sees: "sees ''a'' (u, s, h) (u, s, v)"
  let ?env = "sample_calls\<lparr>e_others := entering_other\<rparr>"
  show "case e_others ?env n (u, s, v) of (u', s', v') \<Rightarrow>
      \<exists>h'. calls_run (e_ops ?env) (- {''a''}) (u, s, h) (u', s', h') \<and> sees ''a'' (u', s', h') (u', s', v')"
  proof (cases "n = 0 \<and> dialogs u ''b'' = None")
    case True
    then have "call_op (e_ops ?env) ''b'' (u, s, h) (enter_ua ''b'' 9 u, s, h)" by (intro call_op.enters) simp
    then have "calls_run (e_ops ?env) (- {''a''}) (u, s, h) (enter_ua ''b'' 9 u, s, h)"
      by (intro calls_run.one_more [OF calls_run.no_call]) simp_all
    moreover have "sees ''a'' (enter_ua ''b'' 9 u, s, h) (enter_ua ''b'' 9 u, s, enter_ua ''b'' 9 v)"
      using sees wrap64_shift [of "metricsCurrentDialogs u" 1 "-1"] by (auto simp: sees_def enter_ua_def)
    ultimately show ?thesis using True by (auto simp: entering_other_def)
  next
    case False
    then have "e_others ?env n (u, s, v) = (u, s, v)" by (auto simp: entering_other_def)
    moreover have "calls_run (e_ops ?env) (- {''a''}) (u, s, h) (u, s, h)" by (rule calls_run.no_call)
    ultimately show ?thesis using sees by auto
  qed
qed

theorem handlers_are_calls_witness:
  "\<exists>r w' h'. Uas_onInvite (sample_calls\<lparr>e_others := entering_other\<rparr>) True 0 1 ''a'' 1 (Some ''application/sdp'') [] sample_call = Some (r, w')
     \<and> calls_run hash_ops UNIV (sample_agent, [], \<lambda>_. []) (w_ua w', w_rules w', h') \<and> h' ''a'' = []"
proof -
  have acc: "accounts (w_ua sample_call, w_rules sample_call, \<lambda>_. [])"
    by (rule accounts_start [OF sample_call_facts(1)]) (simp_all add: sample_call_def sample_agent_def blank_ua_def)
  have "dialogs (w_ua sample_call) ''a'' = None" "0 < RtpPortMin (w_ua sample_call)"
    by (simp_all add: sample_call_def sample_agent_def blank_ua_def sample_config_def)
  moreover have "w_ua sample_uac = w_ua sample_call" "w_rules sample_uac = w_rules sample_call"
    by (simp_all add: sample_uac_def sample_call_def)
  ultimately show ?thesis
    using handlers_are_calls [OF entering_other_runs acc refl, of sample_uac 0 1 1 "Some ''application/sdp''" "[]" "[]" Answered]
    by (auto simp: sample_call_def sample_calls_def)
qed

end
