(* ===== verification/Two_Agents.thy ===== *)
theory Two_Agents
  imports Uas_Calls Uac_Calls
begin

section \<open>A caller and a callee\<close>

text \<open>
  A call between two processes of the program, one as caller and one as callee, over a SIP library
  that carries the messages: what one sends, the other receives, in that order.
\<close>

subsection \<open>What connects them\<close>

text \<open>The conversion of a text of ASCII characters.\<close>

definition text_bytes :: "string \<Rightarrow> bytes" where
  "text_bytes s = map of_char s"

text \<open>What \<open>pion/sdp\<close> reads from the description of a plain call.\<close>

definition plain_description :: "string \<Rightarrow> u16 \<Rightarrow> session_description" where
  "plain_description a p =
     \<lparr>sd_Connection = Some (Some a), sd_Medias = [\<lparr>md_Media = ''audio'', md_Port = uint p, md_Connection = None\<rparr>]\<rparr>"

definition reads_plain :: "(bytes \<Rightarrow> session_description option) \<Rightarrow> string \<Rightarrow> u16 \<Rightarrow> bool" where
  "reads_plain unmarshal a p \<longleftrightarrow> unmarshal (text_bytes (sdpBase a p)) = Some (plain_description a p)"

lemma reads_plain_infos:
  "reads_plain unmarshal a p \<Longrightarrow> getAudioMediaFromSDP unmarshal (text_bytes (sdpBase a p)) = Ok [\<lparr>addr = a, mport = uint p\<rparr>]"
  by (simp add: reads_plain_def getAudioMediaFromSDP_def plain_description_def conn_addr_def)

text \<open>The responses that the caller's library reports, for the messages that the callee sends.\<close>

fun response_of :: "sip_msg \<Rightarrow> wait_event list" where
  "response_of Trying = [Response 100 []]"
| "response_of (Progress sdp) = [Response 183 (text_bytes sdp)]"
| "response_of (Answer sdp) = [Response 200 (text_bytes sdp)]"
| "response_of Busy = [Response 486 []]"
| "response_of Server_Error = [Response 500 []]"
| "response_of (Invite sdp) = []"
| "response_of Ack = []"
| "response_of Bye = []"

definition responses :: "(sip_msg \<times> bool) list \<Rightarrow> wait_event list" where
  "responses sent = concat (map (\<lambda>(m, ok). if ok then response_of m else []) sent)"

lemma responses_quiet: "State_Change s \<notin> set (responses sent)"
proof -
  have "State_Change s \<notin> set (response_of m)" for m by (cases m) simp_all
  then show ?thesis by (auto simp: responses_def)
qed

lemma sdpBase_not_empty: "text_bytes (sdpBase a p) \<noteq> []"
  by (simp add: text_bytes_def sdpBase_def sdp_session_def)

subsection \<open>Properties\<close>

text \<open>
  C7. A caller and a callee understand each other. Let both have what a call needs, and let each
  receive what the other sends, the descriptions as the parser reads them; the callee decides to answer, the
  caller does not give up, and the one whose answer time ends first hangs up. Then the call goes through on
  both sides: the messages are INVITE, 100, 183, 200, ACK and one BYE, from either side, and each
  side's media sends its early media and its answer media to the address and the port of the other.
\<close>

theorem caller_meets_callee:
  fixes w1 :: "'s uas_world" and w2 :: "'t uac_world"
  assumes callee: "others_fair env1 callId" "pool_wf (w_ua w1)" "in_int64 (metricsCurrentDialogs (w_ua w1))"
      "well_equipped (w_ua w1)" "\<forall>k. e_send env1 k" "reachable_peer env1 (e_addr env2)"
      "gets_port env1 callId d1 w1 = Some (p1, u1, s1, v1)" "fst (ebpf_Update (e_ops env1) [p1, p1 + 1] s1) = None"
      "reads_plain (e_unmarshal env1) (e_addr env2) p2"
    and caller: "others_fair env2 callId" "pool_wf (w_ua w2)" "in_int64 (metricsCurrentDialogs (w_ua w2))"
      "0 < RtpPortMin (w_ua w2)" "well_equipped (w_ua w2)" "\<forall>k. e_send env2 k" "reachable_peer env2 (e_addr env1)"
      "gets_port env2 callId d2 w2 = Some (p2, u2, s2, v2)" "fst (ebpf_Update (e_ops env2) [p2, p2 + 1] s2) = None"
      "reads_plain (e_unmarshal env2) (e_addr env1) p1"
    and peers: "rnd < chance" "\<not> e_hangup env1 0" "e_hangup env1 1 \<longleftrightarrow> \<not> e_hangup env2 0"
  shows "\<exists>r1 w1' r2 w2'.
      Uas_onInvite env1 True rnd chance callId d1 (Some ''application/sdp'') (text_bytes (sdpBase (e_addr env2) p2)) w1 = Some (r1, w1')
    \<and> one_call env2 (responses (w_sent w1')) Answered callId d2 w2 = Some (r2, w2')
    \<and> map fst (w_sent w1') = [Trying, Progress (sdpBase (e_addr env1) p1), Answer (sdpBase (e_addr env1) p1)]
        @ (if e_hangup env1 1 then [] else [Bye])
    \<and> map fst (w_sent w2') = [Invite (sdpBase (e_addr env2) p2), Ack] @ (if e_hangup env1 1 then [Bye] else [])
    \<and> media_view w1' = Some ((ip4_of (e_addr env2), uint p2), played_jobs [EarlyMedia (w_ua w1), AnswerMedia (w_ua w1)])
    \<and> media_view w2' = Some ((ip4_of (e_addr env1), uint p1), played_jobs [EarlyMedia (w_ua w2), AnswerMedia (w_ua w2)])"
proof -
  let ?sdp1 = "sdpBase (e_addr env1) p1" and ?sdp2 = "sdpBase (e_addr env2) p2"
  note infos1 = reads_plain_infos [OF callee(9)] and infos2 = reads_plain_infos [OF caller(10)]
  have peer1: "reachable_peer env1 (addr \<lparr>addr = e_addr env2, mport = uint p2\<rparr>)"
    and peer2: "reachable_peer env2 (addr \<lparr>addr = e_addr env1, mport = uint p1\<rparr>)" using callee(6) caller(7) by simp_all
  from plain_call_goes_through [OF callee(1-5) infos1 peer1 callee(7,8), of rnd chance] obtain r1 w1' where
    run1: "Uas_onInvite env1 True rnd chance callId d1 (Some ''application/sdp'') (text_bytes ?sdp2) w1 = Some (r1, w1')"
    and sent1: "w_sent w1' = map (\<lambda>m. (m, True)) ([Trying, Progress ?sdp1] @ talk_after (rnd < chance) (e_hangup env1 0) (e_hangup env1 1) ?sdp1)"
    and media1: "media_view w1' = Some ((ip4_of (e_addr env2), uint p2),
        played_jobs (EarlyMedia (w_ua w1) # (if e_hangup env1 0 \<or> \<not> rnd < chance then [] else [AnswerMedia (w_ua w1)])))" by auto
  have first: "first_description (responses (w_sent w1')) = Some (True, text_bytes ?sdp1)"
    using sdpBase_not_empty by (simp add: sent1 responses_def)
  from outgoing_call_goes_through [OF caller(1-6,8,9) first responses_quiet infos2 peer2] obtain r2 w2' m where
    run2: "one_call env2 (responses (w_sent w1')) Answered callId d2 w2 = Some (r2, w2')"
    and sent2: "w_sent w2' = map (\<lambda>m. (m, True)) (Invite ?sdp2 # Ack # (if e_hangup env2 0 then [] else [Bye]))"
    and media2: "w_media w2' = Some m" "m_dest m = (ip4_of (e_addr env1), uint p1)"
      "m_jobs m = filter (\<lambda>pkts. pkts \<noteq> []) ([EarlyMedia (w_ua w2)] @ [AnswerMedia (w_ua w2)])" by auto
  have "map fst (w_sent w1') = [Trying, Progress ?sdp1, Answer ?sdp1] @ (if e_hangup env1 1 then [] else [Bye])"
    using peers(1,2) by (simp add: sent1 talk_after_def)
  moreover have "map fst (w_sent w2') = [Invite ?sdp2, Ack] @ (if e_hangup env1 1 then [Bye] else [])"
    using peers(3) by (simp add: sent2)
  moreover have "media_view w1' = Some ((ip4_of (e_addr env2), uint p2), played_jobs [EarlyMedia (w_ua w1), AnswerMedia (w_ua w1)])"
    using peers(1,2) by (simp add: media1)
  moreover have "media_view w2' = Some ((ip4_of (e_addr env1), uint p1), played_jobs [EarlyMedia (w_ua w2), AnswerMedia (w_ua w2)])"
    by (simp add: media_view_def media2 played_jobs_def)
  ultimately show ?thesis using run1 run2 by blast
qed

text \<open>A process at the address \<open>a\<close> that reaches \<open>b\<close> and receives a description with the port \<open>p\<close> from there.\<close>

definition sample_side :: "ip \<Rightarrow> ip \<Rightarrow> u16 \<Rightarrow> bool \<Rightarrow> (u64 \<times> rtp_info) list dialog_env" where
  "sample_side a b p hangup =
     sample_calls\<lparr>e_addr := show_ipv4 a, e_tables := \<lambda>n. (Some sample_router, [show_ipv4 b \<mapsto> [2, 0, 0, 0, 0, 2]]),
       e_unmarshal := \<lambda>_. Some (plain_description (show_ipv4 b) p), e_hangup := \<lambda>_. hangup\<rparr>"

lemma sample_side_facts:
  "others_fair (sample_side a b p hangup) ''id''" "\<forall>k. e_send (sample_side a b p hangup) k"
  "e_addr (sample_side a b p hangup) = show_ipv4 a" "e_hangup (sample_side a b p hangup) k = hangup"
  "reads_plain (e_unmarshal (sample_side a b p hangup)) (show_ipv4 b) p"
  "fst (ebpf_Update (e_ops (sample_side a b p hangup)) [q, q + 1] []) = None"
  "e_others (sample_side a b p hangup) = e_others sample_calls"
  using sample_fair sample_updates [of q]
  by (simp_all add: sample_side_def others_fair_def reads_plain_def) (simp add: sample_calls_def)

lemma sample_side_port: "gets_port (sample_side a b p hangup) c d w = gets_port sample_calls c d w"
  by (simp only: gets_port_def sample_side_facts(7))

lemma sample_side_reaches:
  assumes "length b = 4"
  shows "reachable_peer (sample_side a b p hangup) (show_ipv4 b)"
proof -
  have "To4 (ParseIP (show_ipv4 b)) \<noteq> None"
    using assms ParseIP_show [OF assms] by (simp add: To4_def v4_in_v6_def)
  then have "routing_Route (Some sample_router) (ParseIP (show_ipv4 b)) =
      Ok (Some \<lparr>if_Index = 2, HardwareAddr = [2, 0, 0, 0, 0, 1]\<rparr>, None, None)"
    by (simp add: routing_Route_def Route_def RouteWithSrc_def route_def sample_router_def)
  then show ?thesis by (simp add: reachable_peer_def sample_side_def arp_Get_def)
qed

theorem caller_meets_callee_witness:
  "\<exists>p1 p2 r1 w1' r2 w2'.
      Uas_onInvite (sample_side [10, 0, 0, 1] [10, 0, 0, 2] p2 False) True 0 1 ''id'' 3 (Some ''application/sdp'')
        (text_bytes (sdpBase (show_ipv4 [10, 0, 0, 2]) p2)) sample_call = Some (r1, w1')
    \<and> one_call (sample_side [10, 0, 0, 2] [10, 0, 0, 1] p1 True) (responses (w_sent w1')) Answered ''id'' 3 sample_uac = Some (r2, w2')
    \<and> map fst (w_sent w1') = [Trying, Progress (sdpBase (show_ipv4 [10, 0, 0, 1]) p1), Answer (sdpBase (show_ipv4 [10, 0, 0, 1]) p1), Bye]
    \<and> map fst (w_sent w2') = [Invite (sdpBase (show_ipv4 [10, 0, 0, 2]) p2), Ack]"
proof -
  let ?a = "[10, 0, 0, 1] :: ip" and ?b = "[10, 0, 0, 2] :: ip"
  have others: "e_others sample_calls = sample_others" by (simp add: sample_calls_def)
  obtain p1 u1 v1 where got1: "gets_port sample_calls ''id'' 3 sample_call = Some (p1, u1, [], v1)"
    using sample_gets_port [OF others sample_fair, of sample_call] by (auto simp: sample_call_def)
  obtain p2 u2 v2 where got2: "gets_port sample_calls ''id'' 3 sample_uac = Some (p2, u2, [], v2)"
    using sample_gets_port [OF others sample_fair, of sample_uac] by (auto simp: sample_uac_def)
  let ?e1 = "sample_side ?a ?b p2 False" and ?e2 = "sample_side ?b ?a p1 True"
  have reach: "reachable_peer ?e1 (e_addr ?e2)" "reachable_peer ?e2 (e_addr ?e1)"
    unfolding sample_side_facts(3) by (rule sample_side_reaches, simp)+
  have reads: "reads_plain (e_unmarshal ?e1) (e_addr ?e2) p2" "reads_plain (e_unmarshal ?e2) (e_addr ?e1) p1"
    unfolding sample_side_facts(3) by (rule sample_side_facts(5))+
  have got: "gets_port ?e1 ''id'' 3 sample_call = Some (p1, u1, [], v1)" "gets_port ?e2 ''id'' 3 sample_uac = Some (p2, u2, [], v2)"
    using got1 got2 by (simp_all only: sample_side_port)
  from caller_meets_callee [OF sample_side_facts(1) sample_call_facts sample_side_facts(2) reach(1) got(1) sample_side_facts(6) reads(1)
      sample_side_facts(1) sample_uac_facts sample_side_facts(2) reach(2) got(2) sample_side_facts(6) reads(2), of 0 1]
  show ?thesis unfolding sample_side_facts(3,4) by (intro exI [of _ p1] exI [of _ p2]) auto
qed

end
