(* ===== verification/Call_Maker.thy ===== *)
theory Call_Maker
  imports Prelude
begin

section \<open>The call maker (\<open>startCallMaker\<close> of \<open>uac.go\<close>)\<close>

text \<open>
  One goroutine starts a goroutine per call. The channel \<open>calls\<close> of capacity \<open>MaxCalls\<close> limits them: a
  slot is taken before a call is started, and given back when \<open>MakeCall\<close> returns. The limiter of the
  rate is a library, whose \<open>Wait\<close> may succeed or fail at any time, except that it reports
  cancellation only when the context is cancelled. The steps are those of the loop, of the calls'
  goroutines and of the shutdown, in any order.
\<close>

subsection \<open>State and steps\<close>

text \<open>
  Where the loop is: at its head, before the \<open>select\<close>, at the send on \<open>calls\<close>, at \<open>Wait\<close>, or ended,
  because all calls were made, the context was cancelled, or the limiter failed.
\<close>

datatype maker_pc = Loop_Head | Loop_Select | Loop_Send | Loop_Wait | Loop_Ended maker_end
  and maker_end = All_Made | Cancelled_Select | Cancelled_Wait | Limiter_Error

text \<open>
  \<open>mk_new\<close> goroutines have been started and not yet entered their dialog, \<open>mk_calling\<close> are in
  \<open>MakeCall\<close>, \<open>mk_closing\<close> have given their slot back and not yet closed the dialog. \<open>mk_current\<close> is
  the number of current dialogs that the shutdown looks at; \<open>mk_started\<close> counts the calls.
\<close>

record call_maker =
  mk_pc :: maker_pc
  mk_i :: u64
  mk_slots :: nat
  mk_cancelled :: bool
  mk_new :: nat
  mk_calling :: nat
  mk_closing :: nat
  mk_current :: nat
  mk_started :: nat

definition maker_init :: call_maker where
  "maker_init =
     \<lparr>mk_pc = Loop_Head, mk_i = 0, mk_slots = 0, mk_cancelled = False, mk_new = 0, mk_calling = 0,
      mk_closing = 0, mk_current = 0, mk_started = 0\<rparr>"

text \<open>The iteration of the loop, up to the \<open>select\<close>.\<close>

definition loop_head :: "int \<Rightarrow> call_maker \<Rightarrow> call_maker" where
  "loop_head tot m =
     (if tot \<noteq> 0 \<and> mk_i m = word_of_int tot
      then m\<lparr>mk_cancelled := True, mk_pc := Loop_Ended All_Made\<rparr>
      else m\<lparr>mk_i := mk_i m + 1, mk_pc := Loop_Select\<rparr>)"

definition loop_select :: "call_maker \<Rightarrow> call_maker" where
  "loop_select m =
     (if mk_cancelled m then m\<lparr>mk_pc := Loop_Ended Cancelled_Select\<rparr> else m\<lparr>mk_pc := Loop_Send\<rparr>)"

inductive maker_step :: "int \<Rightarrow> int \<Rightarrow> call_maker \<Rightarrow> call_maker \<Rightarrow> bool" for maxCalls totalCalls where
  head: "mk_pc m = Loop_Head \<Longrightarrow> maker_step maxCalls totalCalls m (loop_head totalCalls m)"
| select: "mk_pc m = Loop_Select \<Longrightarrow> maker_step maxCalls totalCalls m (loop_select m)"
| send: "mk_pc m = Loop_Send \<Longrightarrow> int (mk_slots m) < maxCalls \<Longrightarrow>
    maker_step maxCalls totalCalls m (m\<lparr>mk_slots := mk_slots m + 1, mk_pc := Loop_Wait\<rparr>)"
| wait_ok: "mk_pc m = Loop_Wait \<Longrightarrow>
    maker_step maxCalls totalCalls m
      (m\<lparr>mk_new := mk_new m + 1, mk_started := mk_started m + 1, mk_pc := Loop_Head\<rparr>)"
| wait_canceled: "mk_pc m = Loop_Wait \<Longrightarrow> mk_cancelled m \<Longrightarrow>
    maker_step maxCalls totalCalls m (m\<lparr>mk_pc := Loop_Ended Cancelled_Wait\<rparr>)"
| wait_error: "mk_pc m = Loop_Wait \<Longrightarrow>
    maker_step maxCalls totalCalls m (m\<lparr>mk_pc := Loop_Ended Limiter_Error\<rparr>)"
| dialog: "mk_new m = Suc n \<Longrightarrow>
    maker_step maxCalls totalCalls m
      (m\<lparr>mk_new := n, mk_calling := mk_calling m + 1, mk_current := mk_current m + 1\<rparr>)"
| call_done: "mk_calling m = Suc n \<Longrightarrow>
    maker_step maxCalls totalCalls m
      (m\<lparr>mk_calling := n, mk_slots := mk_slots m - 1, mk_closing := mk_closing m + 1\<rparr>)"
| close: "mk_closing m = Suc n \<Longrightarrow>
    maker_step maxCalls totalCalls m (m\<lparr>mk_closing := n, mk_current := mk_current m - 1\<rparr>)"
| cancel: "maker_step maxCalls totalCalls m (m\<lparr>mk_cancelled := True\<rparr>)"

inductive_simps maker_step_simps: "maker_step mx tot m m'"

abbreviation maker_steps :: "int \<Rightarrow> int \<Rightarrow> call_maker \<Rightarrow> call_maker \<Rightarrow> bool" where
  "maker_steps mx tot \<equiv> (maker_step mx tot)\<^sup>*\<^sup>*"

subsection \<open>The shutdown\<close>

text \<open>
  \<open>Close\<close> of the caller looks at the number of dialogs once a second. \<open>polls k\<close> is the number it finds
  and the time that has passed, in nanoseconds, the \<open>k\<close>-th time.
\<close>

partial_function (option) close_wait :: "(nat \<Rightarrow> int \<times> int) \<Rightarrow> nat \<Rightarrow> nat option" where
  "close_wait polls k =
     (if fst (polls k) = 0 \<or> snd (polls k) > 80000000000 then Some k else close_wait polls (k + 1))"

definition Uac_Close :: "(nat \<Rightarrow> int \<times> int) \<Rightarrow> bool \<Rightarrow> (bool \<times> nat) option" where
  "Uac_Close polls cancelled = map_option (\<lambda>k. (True, k)) (close_wait polls 0)"

subsection \<open>The invariant\<close>

text \<open>The slot the loop holds for the next call, and whether it is inside a turn.\<close>

fun loop_slot :: "maker_pc \<Rightarrow> nat" where
  "loop_slot Loop_Head = 0"
| "loop_slot Loop_Select = 0"
| "loop_slot Loop_Send = 0"
| "loop_slot Loop_Wait = 1"
| "loop_slot (Loop_Ended e) = (if e = Cancelled_Wait \<or> e = Limiter_Error then 1 else 0)"

fun open_turn :: "maker_pc \<Rightarrow> nat" where
  "open_turn Loop_Head = 0"
| "open_turn Loop_Select = 1"
| "open_turn Loop_Send = 1"
| "open_turn Loop_Wait = 1"
| "open_turn (Loop_Ended e) = (if e = All_Made then 0 else 1)"

definition maker_inv :: "int \<Rightarrow> int \<Rightarrow> call_maker \<Rightarrow> bool" where
  "maker_inv mx tot m \<longleftrightarrow>
     mk_slots m = mk_new m + mk_calling m + loop_slot (mk_pc m) \<and> int (mk_slots m) \<le> mx
     \<and> mk_current m = mk_calling m + mk_closing m
     \<and> (0 < tot \<longrightarrow> int (mk_started m + open_turn (mk_pc m)) \<le> tot \<and> mk_i m = word_of_nat (mk_started m + open_turn (mk_pc m)))
     \<and> (mk_pc m = Loop_Ended All_Made \<longrightarrow> mk_cancelled m \<and> mk_i m = word_of_int tot \<and> tot \<noteq> 0)"

lemma word64_eq_nat:
  assumes "0 < tot" "tot < 2 ^ 63" "int n \<le> tot"
  shows "(word_of_nat n :: u64) = word_of_int tot \<longleftrightarrow> int n = tot"
proof -
  have "n < 2 ^ 64" using assms by simp
  then have "uint (word_of_nat n :: u64) = int n" by (simp add: unsigned_of_nat take_bit_eq_mod)
  moreover have "uint (word_of_int tot :: u64) = tot" using assms by (simp add: unsigned_of_int take_bit_eq_mod)
  ultimately show ?thesis by (metis word_uint_eqI)
qed

lemma maker_init_inv: "maker_inv mx tot maker_init" if "0 \<le> mx"
  using that by (simp add: maker_inv_def maker_init_def)

lemma loop_head_inv:
  assumes "maker_inv mx tot m" "mk_pc m = Loop_Head" "0 < tot \<Longrightarrow> tot < 2 ^ 63"
  shows "maker_inv mx tot (loop_head tot m)"
proof (cases "tot \<noteq> 0 \<and> mk_i m = word_of_int tot")
  case True
  then show ?thesis using assms(1,2) by (simp add: maker_inv_def loop_head_def)
next
  case False
  have "int (mk_started m) < tot" if "0 < tot"
    using word64_eq_nat [of tot "mk_started m"] that False assms by (simp add: maker_inv_def)
  then have "int (mk_started m + 1) \<le> tot" if "0 < tot" using that by simp
  moreover have "loop_head tot m = m\<lparr>mk_i := mk_i m + 1, mk_pc := Loop_Select\<rparr>"
    using False by (auto simp: loop_head_def)
  ultimately show ?thesis using assms(1,2) by (simp add: maker_inv_def add.commute)
qed

lemma maker_step_inv:
  assumes "maker_step mx tot m m'" "maker_inv mx tot m" "0 < tot \<Longrightarrow> tot < 2 ^ 63"
  shows "maker_inv mx tot m'"
  using assms(1)
proof cases
  case head
  then show ?thesis using loop_head_inv assms(2,3) by simp
next
  case send
  then show ?thesis using assms(2) by (simp add: maker_inv_def)
next
  case call_done
  then show ?thesis using assms(2) by (simp add: maker_inv_def)
qed (use assms(2) in \<open>auto simp: maker_inv_def loop_select_def\<close>)

lemma maker_reachable_inv:
  assumes "maker_steps mx tot maker_init m" "0 \<le> mx" "tot < 2 ^ 63"
  shows "maker_inv mx tot m"
  using assms(1)
proof (induction rule: rtranclp_induct)
  case base
  then show ?case using assms(2) by (rule maker_init_inv)
next
  case (step m m')
  then show ?case using maker_step_inv assms(3) by blast
qed

subsection \<open>Properties\<close>

text \<open>
  C16. The limits of the call maker, in every interleaving of its loop, the calls' goroutines, the
  limiter and the shutdown: at most \<open>MaxCalls\<close> calls have been started and not returned from
  \<open>MakeCall\<close>; with a \<open>TotalCalls\<close> never more than that many are started, and exactly as many when the
  loop ends because all were made; and the number of current dialogs is that of the goroutines
  between entering and closing one.
\<close>

theorem call_maker_limits:
  assumes "maker_steps maxCalls totalCalls maker_init m" and "0 \<le> maxCalls" and "totalCalls < 2 ^ 63"
  shows "int (mk_new m + mk_calling m) \<le> maxCalls
    \<and> (0 < totalCalls \<longrightarrow> int (mk_started m) \<le> totalCalls)
    \<and> (0 < totalCalls \<and> mk_pc m = Loop_Ended All_Made \<longrightarrow> int (mk_started m) = totalCalls)
    \<and> mk_current m = mk_calling m + mk_closing m"
proof -
  have inv: "maker_inv maxCalls totalCalls m" using maker_reachable_inv [OF assms] .
  then have "int (mk_new m + mk_calling m) \<le> maxCalls" "0 < totalCalls \<longrightarrow> int (mk_started m) \<le> totalCalls"
      "mk_current m = mk_calling m + mk_closing m" by (auto simp: maker_inv_def)
  moreover have "0 < totalCalls \<and> mk_pc m = Loop_Ended All_Made \<longrightarrow> int (mk_started m) = totalCalls"
    using inv word64_eq_nat [of totalCalls "mk_started m"] assms(3) by (auto simp: maker_inv_def)
  ultimately show ?thesis by blast
qed

text \<open>One turn of the loop, which starts a call.\<close>

definition turn :: "call_maker \<Rightarrow> call_maker" where
  "turn m = m\<lparr>mk_i := mk_i m + 1, mk_slots := mk_slots m + 1, mk_new := mk_new m + 1, mk_started := mk_started m + 1,
     mk_pc := Loop_Head\<rparr>"

lemma one_turn:
  assumes "mk_pc m = Loop_Head" "tot = 0 \<or> mk_i m \<noteq> word_of_int tot" "\<not> mk_cancelled m" "int (mk_slots m) < mx"
  shows "maker_steps mx tot m (turn m)"
proof -
  let ?m1 = "m\<lparr>mk_i := mk_i m + 1, mk_pc := Loop_Select\<rparr>"
  let ?m2 = "?m1\<lparr>mk_pc := Loop_Send\<rparr>" and ?m3 = "?m1\<lparr>mk_slots := mk_slots m + 1, mk_pc := Loop_Wait\<rparr>"
  have "loop_head tot m = ?m1" "loop_select ?m1 = ?m2" using assms(2,3) by (auto simp: loop_head_def loop_select_def)
  then have "maker_step mx tot m ?m1" "maker_step mx tot ?m1 ?m2"
    using maker_step.head [of m mx tot] maker_step.select [of ?m1 mx tot] assms(1) by simp_all
  moreover have "maker_step mx tot ?m2 ?m3" using maker_step.send [of ?m2 mx tot] assms(4) by simp
  moreover have "maker_step mx tot ?m3 (turn m)"
    using maker_step.wait_ok [of ?m3 mx tot] assms(1) by (simp add: turn_def)
  ultimately show ?thesis by (meson converse_rtranclp_into_rtranclp rtranclp.rtrancl_refl)
qed

theorem call_maker_limits_witness:
  "maker_steps 2 5 maker_init (turn (turn maker_init)) \<and> int (mk_new (turn (turn maker_init)) + mk_calling (turn (turn maker_init))) \<le> 2"
proof -
  have "maker_steps 2 5 maker_init (turn maker_init)" by (rule one_turn) (simp_all add: maker_init_def)
  moreover have "maker_steps 2 5 (turn maker_init) (turn (turn maker_init))" by (rule one_turn) (simp_all add: maker_init_def turn_def)
  ultimately have steps: "maker_steps 2 5 maker_init (turn (turn maker_init))" by (rule rtranclp_trans)
  with call_maker_limits [OF this] show ?thesis by simp
qed

text \<open>
  C36. The last call may never be made. With any \<open>TotalCalls\<close> up to \<open>MaxCalls\<close> the loop can end, with the
  context cancelled, before any of the started goroutines has entered its dialog: the shutdown then
  finds no current dialog and ends the program at its first look, without a single call.
\<close>

theorem calls_lost_at_shutdown:
  assumes "0 < totalCalls" and "totalCalls \<le> maxCalls" and "totalCalls < 2 ^ 63"
  shows "\<exists>m. maker_steps maxCalls totalCalls maker_init m \<and> mk_pc m = Loop_Ended All_Made \<and> mk_cancelled m
    \<and> int (mk_new m) = totalCalls \<and> mk_calling m = 0
    \<and> Uac_Close (\<lambda>k. (int (mk_current m), t)) (mk_cancelled m) = Some (True, 0)"
proof -
  have turns: "maker_steps maxCalls totalCalls maker_init ((turn ^^ n) maker_init)
      \<and> (turn ^^ n) maker_init = maker_init\<lparr>mk_i := word_of_nat n, mk_slots := n, mk_new := n, mk_started := n\<rparr>"
    if "int n \<le> totalCalls" for n
    using that
  proof (induction n)
    case 0
    then show ?case by (simp add: maker_init_def)
  next
    case (Suc n)
    let ?m = "maker_init\<lparr>mk_i := word_of_nat n, mk_slots := n, mk_new := n, mk_started := n\<rparr>"
    have "(word_of_nat n :: u64) \<noteq> word_of_int totalCalls"
      using word64_eq_nat [of totalCalls n] assms(1,3) Suc.prems by simp
    then have "maker_steps maxCalls totalCalls ?m (turn ?m)"
      using Suc.prems assms(2) by (intro one_turn) (simp_all add: maker_init_def)
    moreover have "turn ?m = maker_init\<lparr>mk_i := word_of_nat (Suc n), mk_slots := Suc n, mk_new := Suc n, mk_started := Suc n\<rparr>"
      by (simp add: turn_def maker_init_def)
    ultimately show ?case using Suc by (auto intro: rtranclp_trans)
  qed
  let ?n = "nat totalCalls"
  let ?m = "maker_init\<lparr>mk_i := word_of_nat ?n, mk_slots := ?n, mk_new := ?n, mk_started := ?n\<rparr>"
  let ?e = "?m\<lparr>mk_cancelled := True, mk_pc := Loop_Ended All_Made\<rparr>"
  have "(word_of_nat ?n :: u64) = word_of_int totalCalls"
    using word64_eq_nat [of totalCalls ?n] assms(1,3) by simp
  then have "loop_head totalCalls ?m = ?e" using assms(1) by (simp add: loop_head_def maker_init_def)
  then have "maker_step maxCalls totalCalls ?m ?e"
    using maker_step.head [of ?m maxCalls totalCalls] by (simp add: maker_init_def)
  then have "maker_steps maxCalls totalCalls maker_init ?e" using turns [of ?n] assms(1) by (auto intro: rtranclp.rtrancl_into_rtrancl)
  then show ?thesis
    using assms(1) by (intro exI [of _ ?e]) (simp add: maker_init_def Uac_Close_def close_wait.simps)
qed

theorem calls_lost_at_shutdown_witness:
  "\<exists>m. maker_steps 1 1 maker_init m \<and> mk_pc m = Loop_Ended All_Made \<and> int (mk_new m) = 1
     \<and> Uac_Close (\<lambda>k. (int (mk_current m), 0)) (mk_cancelled m) = Some (True, 0)"
  using calls_lost_at_shutdown [of 1 1 0] by auto

text \<open>
  The shutdown waits for the calls, but not for ever: it ends at the first look that finds no
  dialog, and, if the clock gains a second from look to look, at the latest at the 82nd.
\<close>

lemma close_wait_first:
  assumes "fst (polls (k + n)) = 0 \<or> snd (polls (k + n)) > 80000000000"
    and "\<forall>j < n. fst (polls (k + j)) \<noteq> 0 \<and> snd (polls (k + j)) \<le> 80000000000"
  shows "close_wait polls k = Some (k + n)"
  using assms
proof (induction n arbitrary: k)
  case 0
  then show ?case by (subst close_wait.simps) simp
next
  case (Suc n)
  have "close_wait polls (k + 1) = Some (k + 1 + n)"
    by (rule Suc.IH) (use Suc.prems in \<open>auto simp: add.assoc dest: spec [of _ "Suc _"]\<close>)
  moreover have "fst (polls k) \<noteq> 0" "snd (polls k) \<le> 80000000000" using Suc.prems(2) by (auto dest: spec [of _ 0])
  ultimately show ?case by (subst close_wait.simps) simp
qed

lemma shutdown_bounded:
  assumes "\<forall>k. int k * 1000000000 \<le> snd (polls k)"
  shows "\<exists>k \<le> 81. Uac_Close polls cancelled = Some (True, k)
    \<and> (fst (polls k) = 0 \<or> snd (polls k) > 80000000000)
    \<and> (\<forall>j < k. fst (polls j) \<noteq> 0 \<and> snd (polls j) \<le> 80000000000)"
proof -
  let ?stop = "\<lambda>k. fst (polls k) = 0 \<or> snd (polls k) > 80000000000"
  have "int 81 * 1000000000 \<le> snd (polls 81)" by (rule spec [OF assms])
  then have stop: "?stop 81" by simp
  define k where "k = (LEAST k. ?stop k)"
  have k: "?stop k" "k \<le> 81" unfolding k_def using stop by (rule LeastI, rule Least_le [of ?stop])
  have least: "\<forall>j < k. fst (polls j) \<noteq> 0 \<and> snd (polls j) \<le> 80000000000"
  proof (intro allI impI)
    fix j
    assume "j < k"
    then have "\<not> ?stop j" unfolding k_def by (rule not_less_Least)
    then show "fst (polls j) \<noteq> 0 \<and> snd (polls j) \<le> 80000000000" by simp
  qed
  have "close_wait polls 0 = Some (0 + k)" by (rule close_wait_first) (use k(1) least in simp_all)
  then have "Uac_Close polls cancelled = Some (True, k)" by (simp add: Uac_Close_def)
  with k least show ?thesis by blast
qed

lemma shutdown_bounded_witness:
  "\<exists>k \<le> 81. Uac_Close (\<lambda>k. (3, int k * 1000000000)) False = Some (True, k) \<and> int k * 1000000000 > 80000000000"
  using shutdown_bounded [of "\<lambda>k. (3, int k * 1000000000)" False] by auto

end
