(* ===== verification/Agents.thy ===== *)
theory Agents
  imports Uas_Calls Uac_Calls Call_Maker Arp Strconv
begin

section \<open>The two user agents (\<open>uas.go\<close>, \<open>uac.go\<close>, \<open>sipbench.go\<close>)\<close>

text \<open>
  Setting up an agent, its handlers for the requests that belong to a dialog, the table of dialogs
  while calls come and go, and the timer that refreshes the tables. The SIP library's constructors
  are given by their outcomes.
\<close>

subsection \<open>Setting up\<close>

record uasConfig =
  uas_Base :: BaseUaConfig
  uas_Address :: string
  NatAddress :: string
  uas_Port :: int
  AnswerChance :: int

record uacConfig =
  uac_Base :: BaseUaConfig
  uac_Address :: string
  uac_Port :: int
  TotalCalls :: int
  MaxCalls :: int
  cfg_Rate :: int
  cfg_User :: string

text \<open>The contact header, user, host and port, is what the program puts into the library's dialog agent.\<close>

record 'd Uas =
  uas_ua :: "'d baseUa"
  uas_config :: uasConfig
  uas_contact :: "string \<times> string \<times> int"
  answerChance :: u32

record 'd Uac =
  uac_ua :: "'d baseUa"
  uac_config :: uacConfig
  uac_contact :: "string \<times> string \<times> int"

datatype agent_error =
    Err_Answer_Chance
  | Err_Sip_UA
  | Err_Sip_Server
  | Err_Sip_Client
  | Err_Sip_Port num_error
  | Err_Base_Ua ua_error

text \<open>Which of the library's constructors succeed, and what is closed after a failure.\<close>

record sip_answers =
  sa_ua :: bool
  sa_server :: bool
  sa_client :: bool

datatype sip_close = Closed_Server | Closed_UA

definition sip_setup :: "sip_answers \<Rightarrow> sip_close list \<times> agent_error option" where
  "sip_setup a =
     (if \<not> sa_ua a then ([], Some Err_Sip_UA)
      else if \<not> sa_server a then ([Closed_UA], Some Err_Sip_Server)
      else if \<not> sa_client a then ([Closed_Server, Closed_UA], Some Err_Sip_Client)
      else ([], None))"

text \<open>
  \<open>uint32(float64(c) / 100 * float64(math.MaxUint32))\<close>. For \<open>c\<close> in \<open>0..100\<close> the exact quotient is an
  integer when \<open>c\<close> is a multiple of 20 and otherwise at least 0.05 away from one, and the rounding of
  the two operations moves it by less than a millionth and, in the five integer cases, rounds to the
  integer: the conversion gives the integer quotient.
\<close>

definition answer_chance :: "int \<Rightarrow> u32" where
  "answer_chance c = word_of_int (c * 4294967295 div 100)"

definition runUas ::
  "'l ua_env \<Rightarrow> sip_answers \<Rightarrow> uasConfig \<Rightarrow> 'l Manager \<Rightarrow>
   (agent_error, 'd Uas) res \<times> 'l Manager \<times> sip_close list" where
  "runUas env sip c m =
     (if AnswerChance c < 0 \<or> AnswerChance c > 100 then (Err Err_Answer_Chance, m, [])
      else
        (let c = (if NatAddress c = [] then c\<lparr>NatAddress := uas_Address c\<rparr> else c)
         in case sip_setup sip of
              (closed, Some e) \<Rightarrow> (Err e, m, closed)
            | (closed, None) \<Rightarrow>
                (case newBaseUa env (uas_Base c) m of
                   (Ok u, m') \<Rightarrow>
                     (Ok \<lparr>uas_ua = u, uas_config = c, uas_contact = (''sipbench'', NatAddress c, uas_Port c),
                          answerChance = answer_chance (AnswerChance c)\<rparr>, m', [])
                 | (Err e, m') \<Rightarrow> (Err (Err_Base_Ua e), m', [])
                 | (Panic p, m') \<Rightarrow> (Panic p, m', []))))"

text \<open>\<open>parseIPPort\<close>: everything before the first colon is the host.\<close>

definition parseIPPort :: "string \<Rightarrow> (agent_error, string \<times> int) res" where
  "parseIPPort raw =
     (case index_byte raw (CHR '':'') of
        None \<Rightarrow> Ok (raw, 5060)
      | Some i \<Rightarrow> map_ok (\<lambda>port. (take i raw, port)) (wrap_err Err_Sip_Port (parse_int (drop (i + 1) raw))))"

text \<open>\<open>runUac\<close> also gives the recipient of the calls: user, host and port.\<close>

definition runUac ::
  "'l ua_env \<Rightarrow> sip_answers \<Rightarrow> uacConfig \<Rightarrow> string \<Rightarrow> 'l Manager \<Rightarrow>
   (agent_error, 'd Uac \<times> (string \<times> string \<times> int)) res \<times> 'l Manager \<times> sip_close list" where
  "runUac env sip c dest m =
     (case parseIPPort dest of
        Err e \<Rightarrow> (Err e, m, [])
      | Panic p \<Rightarrow> (Panic p, m, [])
      | Ok (host, port) \<Rightarrow>
          (case sip_setup sip of
             (closed, Some e) \<Rightarrow> (Err e, m, closed)
           | (closed, None) \<Rightarrow>
               (case newBaseUa env (uac_Base c) m of
                  (Ok u, m') \<Rightarrow>
                    (Ok (\<lparr>uac_ua = u, uac_config = c, uac_contact = (''sipbench'', uac_Address c, uac_Port c)\<rparr>,
                         (cfg_User c, host, port)), m', [])
                | (Err e, m') \<Rightarrow> (Err (Err_Base_Ua e), m', [])
                | (Panic p, m') \<Rightarrow> (Panic p, m', []))))"

definition Uas_Close :: "'d baseUa \<Rightarrow> 'd baseUa" where "Uas_Close u = baseUa_Close u"

subsection \<open>Requests inside a dialog\<close>

text \<open>
  A request is answered by the agent, handed to the session of a dialog, or dropped. Errors of the
  library are only logged.
\<close>

datatype 'd handled = Respond_OK | Read_Ack 'd | Read_Bye 'd | Dropped

definition Uas_onAck :: "(string \<rightharpoonup> 'd) \<Rightarrow> string \<Rightarrow> 'd handled" where
  "Uas_onAck dlgs callId = (case dlgs callId of None \<Rightarrow> Dropped | Some d \<Rightarrow> Read_Ack d)"

definition Uas_onBye :: "(string \<rightharpoonup> 'd) \<Rightarrow> string \<Rightarrow> 'd handled" where
  "Uas_onBye dlgs callId = (case dlgs callId of None \<Rightarrow> Respond_OK | Some d \<Rightarrow> Read_Bye d)"

definition Uas_onOptions :: "(string \<rightharpoonup> 'd) \<Rightarrow> string \<Rightarrow> 'd handled" where
  "Uas_onOptions dlgs callId = Respond_OK"

definition Uac_onBye :: "(string \<rightharpoonup> 'd) \<Rightarrow> string \<Rightarrow> 'd handled" where
  "Uac_onBye dlgs callId = (case dlgs callId of None \<Rightarrow> Respond_OK | Some d \<Rightarrow> Read_Bye d)"

subsection \<open>Refreshing the tables\<close>

text \<open>One tick of \<open>startRefreshTimer\<close>: both tables are read again, errors are logged.\<close>

definition refresh_tick ::
  "(rtInfo list \<Rightarrow> rtInfo list) \<Rightarrow> string option \<Rightarrow> kernel \<Rightarrow> arp_table \<times> router option \<Rightarrow>
   (unit, arp_table \<times> router option) res" where
  "refresh_tick srt file k tables =
     (case arp_Reload file (fst tables) of
        Ok (_, t) \<Rightarrow> map_ok (\<lambda>(_, r). (t, r)) (routing_Reload srt k (snd tables))
      | Err u \<Rightarrow> Err u
      | Panic p \<Rightarrow> Panic p)"

fun startRefreshTimer ::
  "(rtInfo list \<Rightarrow> rtInfo list) \<Rightarrow> (string option \<times> kernel) list \<Rightarrow> arp_table \<times> router option \<Rightarrow>
   (unit, arp_table \<times> router option) res" where
  "startRefreshTimer srt [] tables = Ok tables"
| "startRefreshTimer srt ((file, k) # ticks) tables =
     bind_res (refresh_tick srt file k tables) (startRefreshTimer srt ticks)"

text \<open>\<open>waitShutdown\<close> closes the agent and then the packet counters, in the order of its arguments.\<close>

fun waitShutdown :: "('s \<Rightarrow> 's option) list \<Rightarrow> 's \<Rightarrow> 's option" where
  "waitShutdown [] s = Some s"
| "waitShutdown (c # cs) s = Option.bind (c s) (waitShutdown cs)"

subsection \<open>Properties of the settings\<close>

text \<open>
  A destination that was written as host and port, the host without a colon, is read back, and a
  host alone gets the port 5060. The port may be any number of 64 bits, also one that is no port.
\<close>

lemma parseIPPort_roundtrip:
  assumes "CHR '':'' \<notin> set host" and "in_int64 port"
  shows "parseIPPort (host @ CHR '':'' # show_int port) = Ok (host, port)
    \<and> parseIPPort host = Ok (host, 5060)"
  using assms by (simp add: parseIPPort_def index_byte_append parse_int_show_int)

lemma parseIPPort_roundtrip_witness:
  "parseIPPort (''10.0.0.2'' @ CHR '':'' # show_int (-5)) = Ok (''10.0.0.2'', -5)"
  using parseIPPort_roundtrip [of "''10.0.0.2''" "-5"] by (simp add: in_int64_def)

text \<open>
  The chance to answer, in per cent, is the share of the 32-bit numbers for which a call is
  answered, rounded down: none for 0, and for 100 all but one, since the comparison is strict.
\<close>

lemma answer_chance_share:
  assumes "0 \<le> c" and "c \<le> 100"
  shows "card {r :: u32. r < answer_chance c} = nat (c * 4294967295 div 100)
    \<and> {r :: u32. r < answer_chance 0} = {} \<and> {r :: u32. r < answer_chance 100} = UNIV - {-1}"
proof -
  let ?n = "c * 4294967295 div 100"
  have n: "0 \<le> ?n" "?n \<le> 4294967295" using assms by linarith+
  have lt: "r < answer_chance c \<longleftrightarrow> unat r < nat ?n" for r
    using n by (simp add: answer_chance_def word_less_nat_alt unsigned_of_int take_bit_eq_mod)
  have "bij_betw unat {r :: u32. r < answer_chance c} {..<nat ?n}"
  proof (rule bij_betw_imageI)
    show "inj_on unat {r :: u32. r < answer_chance c}" by (rule inj_onI) (simp add: word_unat_eq_iff)
    show "unat ` {r :: u32. r < answer_chance c} = {..<nat ?n}"
    proof (intro equalityI subsetI)
      fix k
      assume "k \<in> {..<nat ?n}"
      moreover from this n have "unat (word_of_nat k :: u32) = k" by (simp add: unat_of_nat)
      ultimately show "k \<in> unat ` {r :: u32. r < answer_chance c}" using lt by (intro image_eqI [of _ _ "word_of_nat k"]) auto
    qed (auto simp: lt)
  qed
  then have "card {r :: u32. r < answer_chance c} = nat ?n" using bij_betw_same_card by fastforce
  moreover have "answer_chance 100 = -1" "answer_chance 0 = 0" by (simp_all add: answer_chance_def)
  moreover have "r < -1 \<longleftrightarrow> r \<noteq> -1" for r :: u32 using word_le_less_eq by (metis order_less_le word_order.extremum)
  ultimately show ?thesis by auto
qed

lemma answer_chance_share_witness:
  "card {r :: u32. r < answer_chance 50} = 2147483647"
  using answer_chance_share [of 50] by simp

subsection \<open>The table of dialogs\<close>

text \<open>Calls enter the table and leave it at any time; \<open>live\<close> are those that have not left.\<close>

datatype table_event = Enter string nat | Leave string

fun table_run :: "table_event list \<Rightarrow> ('s, 'z, unit) dgo" where
  "table_run [] = go_return ()"
| "table_run (Enter callId d # es) = go_then (enter_dialog callId d) (table_run es)"
| "table_run (Leave callId # es) = go_then (leave_dialog callId) (table_run es)"

fun live :: "(string \<times> nat) list \<Rightarrow> table_event list \<Rightarrow> (string \<times> nat) list" where
  "live ls [] = ls"
| "live ls (Enter callId d # es) = live ((callId, d) # ls) es"
| "live ls (Leave callId # es) = live (filter (\<lambda>x. fst x \<noteq> callId) ls) es"

text \<open>No two live calls have the same Call-ID.\<close>

fun distinct_calls :: "(string \<times> nat) list \<Rightarrow> table_event list \<Rightarrow> bool" where
  "distinct_calls ls [] \<longleftrightarrow> True"
| "distinct_calls ls (Enter callId d # es) \<longleftrightarrow>
     callId \<notin> fst ` set ls \<and> length ls + 1 < 2 ^ 63 \<and> distinct_calls ((callId, d) # ls) es"
| "distinct_calls ls (Leave callId # es) \<longleftrightarrow>
     callId \<in> fst ` set ls \<and> distinct_calls (filter (\<lambda>x. fst x \<noteq> callId) ls) es"

definition table_ok :: "(string \<times> nat) list \<Rightarrow> ('s, 'z) dialog_world_scheme \<Rightarrow> bool" where
  "table_ok ls w \<longleftrightarrow>
     distinct (map fst ls) \<and> dialogs (w_ua w) = map_of ls \<and> metricsCurrentDialogs (w_ua w) = int (length ls)
     \<and> length ls < 2 ^ 63"

lemma map_of_filter_key: "map_of (filter (\<lambda>x. fst x \<noteq> k) ls) = (map_of ls)(k := None)"
  by (induction ls) auto

lemma length_filter_key:
  "distinct (map fst ls) \<Longrightarrow> k \<in> fst ` set ls \<Longrightarrow> Suc (length (filter (\<lambda>x. fst x \<noteq> k) ls)) = length ls"
proof (induction ls)
  case (Cons x ls)
  show ?case
  proof (cases "fst x = k")
    case True
    then have "k \<notin> fst ` set ls" using Cons.prems(1) by simp
    then have "filter (\<lambda>x. fst x \<noteq> k) ls = ls" by (force simp: filter_id_conv)
    then show ?thesis using True by simp
  qed (use Cons in auto)
qed simp

lemma table_run_ok:
  "table_ok ls w \<Longrightarrow> distinct_calls ls es \<Longrightarrow> wp (table_run es) (\<lambda>r w'. r = Ok () \<and> table_ok (live ls es) w') w"
proof (induction es arbitrary: ls w)
  case Nil
  then show ?case by (simp add: wp_return)
next
  case (Cons e es)
  show ?case
  proof (cases e)
    case (Enter callId d)
    have "wrap64 (int (length ls) + 1) = int (length ls) + 1"
      using Cons.prems(2) Enter by (intro wrap64_id) (simp add: in_int64_def)
    then have "wp (enter_dialog callId d) (\<lambda>r w'. r = Ok () \<and> table_ok ((callId, d) # ls) w') w"
      using Cons.prems Enter by (auto simp: enter_dialog_def enter_ua_def wp_modify table_ok_def)
    then show ?thesis
      using Cons.IH Cons.prems(2) Enter by (auto simp: wp_then elim!: wp_mono)
  next
    case (Leave callId)
    let ?ls = "filter (\<lambda>x. fst x \<noteq> callId) ls"
    have ls: "distinct (map fst ls)" "callId \<in> fst ` set ls" "length ls < 2 ^ 63"
      using Cons.prems Leave by (simp_all add: table_ok_def)
    note len = length_filter_key [OF ls(1,2)]
    have "wrap64 (int (length ls) - 1) = int (length ?ls)"
      using ls(3) len by (subst wrap64_id) (auto simp: in_int64_def)
    moreover have "length ?ls < 2 ^ 63" using ls(3) len by simp
    ultimately have "wp (leave_dialog callId) (\<lambda>r w'. r = Ok () \<and> table_ok ?ls w') w"
      using Cons.prems(1) by (simp add: leave_dialog_def leave_ua_def wp_modify table_ok_def map_of_filter_key distinct_map_filter)
    then show ?thesis
      using Cons.IH Cons.prems(2) Leave by (auto simp: wp_then elim!: wp_mono)
  qed
qed

text \<open>
  C20. As long as the live calls have different Call-IDs, the table is right whatever the order in which
  calls come and go: a BYE is handed to the dialog of its call and to no other, an ACK, too, and one
  for a call that has ended is answered by the agent; the number of current dialogs is that of the
  live calls.
\<close>

theorem bye_reaches_dialog:
  assumes "table_ok ls w" and "distinct_calls ls es"
  shows "wp (table_run es) (\<lambda>r w'. r = Ok ()
    \<and> (\<forall>callId. (case map_of (live ls es) callId of
          Some d \<Rightarrow> Uas_onBye (dialogs (w_ua w')) callId = Read_Bye d \<and> Uas_onAck (dialogs (w_ua w')) callId = Read_Ack d
        | None \<Rightarrow> Uas_onBye (dialogs (w_ua w')) callId = Respond_OK \<and> Uas_onAck (dialogs (w_ua w')) callId = Dropped))
    \<and> metricsCurrentDialogs (w_ua w') = int (length (live ls es))) w"
  by (rule wp_mono [OF table_run_ok [OF assms]])
    (auto simp: table_ok_def Uas_onBye_def Uas_onAck_def split: option.split)

theorem bye_reaches_dialog_witness:
  "wp (table_run [Enter ''a'' 1, Enter ''b'' 2, Leave ''a'']) (\<lambda>r w'. Uas_onBye (dialogs (w_ua w')) ''b'' = Read_Bye 2
     \<and> Uas_onBye (dialogs (w_ua w')) ''a'' = Respond_OK \<and> metricsCurrentDialogs (w_ua w') = 1) sample_call"
proof -
  have "table_ok [] sample_call"
    by (simp add: table_ok_def sample_call_def) (simp add: sample_agent_def blank_ua_def)
  moreover have "distinct_calls [] [Enter ''a'' 1, Enter ''b'' 2, Leave ''a'']" by simp
  ultimately show ?thesis
    by (rule wp_mono [OF bye_reaches_dialog]) (auto dest: spec [of _ "''b''"] spec [of _ "''a''"] split: option.splits)
qed

text \<open>
  C37. When an INVITE comes with the Call-ID of a live call, as a re-INVITE does, the end of the first
  dialog removes the entry of the second: the BYE of the call is then answered by the agent, and the
  second dialog, which is still counted, never learns that it has ended.
\<close>

theorem same_call_id:
  assumes "in_int64 (metricsCurrentDialogs (w_ua w))"
  shows "wp (table_run [Enter callId d1, Enter callId d2, Leave callId]) (\<lambda>r w'. r = Ok ()
    \<and> Uas_onBye (dialogs (w_ua w')) callId = Respond_OK
    \<and> metricsCurrentDialogs (w_ua w') = wrap64 (metricsCurrentDialogs (w_ua w) + 1)) w"
proof -
  have "wrap64 (wrap64 (wrap64 (x + 1) + 1) - 1) = wrap64 (x + 1)" for x
    using wrap64_inc_dec [of "wrap64 (x + 1)"] by (simp add: in_int64_wrap64)
  then show ?thesis by (simp add: wp_then wp_return enter_dialog_def leave_dialog_def enter_ua_def leave_ua_def wp_modify Uas_onBye_def)
qed

theorem same_call_id_witness:
  "wp (table_run [Enter ''a'' 1, Enter ''a'' 2, Leave ''a'']) (\<lambda>r w'. Uas_onBye (dialogs (w_ua w')) ''a'' = Respond_OK
     \<and> metricsCurrentDialogs (w_ua w') = 1) sample_call"
proof -
  have "in_int64 (metricsCurrentDialogs (w_ua sample_call))" "metricsCurrentDialogs (w_ua sample_call) = 0"
    by (simp_all add: sample_call_def) (simp_all add: sample_agent_def blank_ua_def in_int64_def)
  moreover have "wrap64 1 = 1" by (rule wrap64_id) (simp add: in_int64_def)
  ultimately show ?thesis
    by (intro wp_mono [OF same_call_id]) auto
qed

subsection \<open>The refreshed tables\<close>

definition good_arp :: "(string option \<times> kernel) list \<Rightarrow> arp_table list" where
  "good_arp ticks = concat (map (\<lambda>(file, k). case readTable file of Ok t \<Rightarrow> [t] | _ \<Rightarrow> []) ticks)"

definition good_routers :: "(rtInfo list \<Rightarrow> rtInfo list) \<Rightarrow> (string option \<times> kernel) list \<Rightarrow> router list" where
  "good_routers srt ticks = concat (map (\<lambda>(file, k). case New srt k of Ok r \<Rightarrow> [r] | _ \<Rightarrow> []) ticks)"

text \<open>
  After any number of ticks the tables are those of the last tick at which they could be read,
  each for itself: an error in one neither stops the timer nor keeps the other from being refreshed.
\<close>

lemma refresh_last_good:
  assumes "\<forall>(file, k) \<in> set ticks. (\<nexists>p. readTable file = Panic p) \<and> (\<nexists>p. New srt k = Panic p)"
  shows "startRefreshTimer srt ticks (t, r) = Ok (last (t # good_arp ticks), last (r # map Some (good_routers srt ticks)))"
  using assms
proof (induction ticks arbitrary: t r)
  case Nil
  then show ?case by (simp add: good_arp_def good_routers_def)
next
  case (Cons x ticks)
  obtain f k where x: "x = (f, k)" by (cases x)
  have "\<nexists>p. readTable f = Panic p" "\<nexists>p. New srt k = Panic p" using Cons.prems x by auto
  then show ?case
    using Cons x by (cases "readTable f"; cases "New srt k")
      (auto simp: good_arp_def good_routers_def refresh_tick_def arp_Reload_def routing_Reload_def)
qed

lemma refresh_last_good_witness:
  "startRefreshTimer (sort_key Priority)
     [(None, \<lparr>k_rib = Some (Some []), k_ifaces = Some []\<rparr>), (Some [], \<lparr>k_rib = None, k_ifaces = None\<rparr>)] (sample_arp, None)
     = Ok (Map.empty, Some \<lparr>ifaces = Map.empty, if_order = [], addrs = Map.empty, v4 = []\<rparr>)"
proof -
  let ?k1 = "\<lparr>k_rib = Some (Some []), k_ifaces = Some []\<rparr>" and ?k2 = "\<lparr>k_rib = None, k_ifaces = None\<rparr>"
  have "readTable None = Err Err_Arp_Open" "readTable (Some []) = Ok Map.empty"
      "New (sort_key Priority) ?k1 = Ok \<lparr>ifaces = Map.empty, if_order = [], addrs = Map.empty, v4 = []\<rparr>"
      "New (sort_key Priority) ?k2 = Err Err_Netlink_RIB"
    by (simp_all add: readTable_def New_def scan_lines_def)
  with refresh_last_good [of "[(None, ?k1), (Some [], ?k2)]" "sort_key Priority" sample_arp None]
  show ?thesis by (simp add: good_arp_def good_routers_def)
qed

end
