(* ===== verification/Commands.thy ===== *)
theory Commands
  imports Agents
begin

section \<open>The two commands (\<open>newUasCommand\<close>, \<open>newUacCommand\<close>)\<close>

text \<open>
  From the flags to a running agent: what the \<open>Run\<close> functions of the commands \<open>uas\<close> and \<open>uac\<close> do before
  and after the agent works, and the flags' defaults. The parsing of the command line is the library's; the
  refresh of the tables that runs beside the agent is \<open>startRefreshTimer\<close> of \<open>Agents\<close>.
\<close>

subsection \<open>Flags\<close>

definition base_defaults :: BaseUaConfig where
  "base_defaults =
     \<lparr>cfg_Interface = ''eth0'', cfg_RtpPortMin = 20000, cfg_RtpPortMax = 60000, cfg_RingingTimeout = ''5'',
      cfg_AnswerTimeout = ''20'', cfg_EarlyMedia = ''30'', cfg_AnswerMedia = ''30'', XDPSize = 4096\<rparr>"

definition uas_defaults :: uasConfig where
  "uas_defaults =
     \<lparr>uas_Base = base_defaults, uas_Address = [], NatAddress = [], uas_Port = 5060, AnswerChance = 100\<rparr>"

definition uac_defaults :: uacConfig where
  "uac_defaults =
     \<lparr>uac_Base = base_defaults, uac_Address = [], uac_Port = 5060, TotalCalls = 0, MaxCalls = 1, cfg_Rate = 10,
      cfg_User = []\<rparr>"

subsection \<open>\<open>Run\<close>\<close>

text \<open>What the system and the libraries answer at the start, and what runs afterwards.\<close>

record 'l command_env =
  ce_arp :: "string option"
  ce_kernel :: kernel
  ce_sort :: "rtInfo list \<Rightarrow> rtInfo list"
  ce_rlimit :: bool
  ce_spec :: bool
  ce_assign :: bool
  ce_ua :: "'l ua_env"
  ce_sip :: sip_answers

record ('l, 'a) running =
  run_arp :: arp_table
  run_router :: router
  run_manager :: "'l Manager"
  run_agent :: 'a

datatype command_error = Err_Init_Ebpf manager_error | Err_Init_Agent agent_error

text \<open>Both commands read the tables, which panics on an error, load the packet counters and make their agent.\<close>

definition command_start ::
  "'l command_env \<Rightarrow> ('l Manager \<Rightarrow> (agent_error, 'a) res \<times> 'l Manager \<times> sip_close list) \<Rightarrow>
   (command_error, ('l, 'a) running) res" where
  "command_start e new =
     (case arp_MustInit (ce_arp e) of
        Ok t \<Rightarrow>
          (case routing_MustInit (ce_sort e) (ce_kernel e) of
             Ok r \<Rightarrow>
               (case Manager_New (ce_rlimit e) (ce_spec e) (ce_assign e) of
                  Inl err \<Rightarrow> Err (Err_Init_Ebpf err)
                | Inr m \<Rightarrow>
                    (case new m of
                       (Ok a, m', closed) \<Rightarrow> Ok \<lparr>run_arp = t, run_router = r, run_manager = m', run_agent = a\<rparr>
                     | (Err err, _) \<Rightarrow> Err (Err_Init_Agent err)
                     | (Panic p, _) \<Rightarrow> Panic p))
           | Err u \<Rightarrow> Panic Explicit_Panic
           | Panic p \<Rightarrow> Panic p)
      | Err u \<Rightarrow> Panic Explicit_Panic
      | Panic p \<Rightarrow> Panic p)"

definition newUasCommand_Run :: "'l command_env \<Rightarrow> uasConfig \<Rightarrow> (command_error, ('l, nat Uas) running) res" where
  "newUasCommand_Run e c = command_start e (runUas (ce_ua e) (ce_sip e) c)"

definition newUacCommand_Run ::
  "'l command_env \<Rightarrow> uacConfig \<Rightarrow> string list \<Rightarrow>
   (command_error, ('l, nat Uac \<times> (string \<times> string \<times> int)) running) res" where
  "newUacCommand_Run e c args =
     command_start e (\<lambda>m. case index_slice args 0 of
        Ok dest \<Rightarrow> runUac (ce_ua e) (ce_sip e) c dest m
      | Err u \<Rightarrow> (Err u, m, [])
      | Panic p \<Rightarrow> (Panic p, m, []))"

text \<open>
  In the end \<open>waitShutdown\<close> closes the agent and then the packet counters, whatever that returns; \<open>polls\<close> is what the caller's
  \<open>Close\<close> sees of the dialogs and the clock. The result is what has been detached and closed;
  \<open>pc\<close> and \<open>mc\<close> are whether the program and the map can be closed.
\<close>

definition uas_shutdown ::
  "bool \<Rightarrow> bool \<Rightarrow> ('l, nat Uas) running \<Rightarrow> (('l, nat Uas) running \<times> 'l close_event list) option" where
  "uas_shutdown pc mc st =
     waitShutdown
       [\<lambda>(st, log). Some (st\<lparr>run_agent := (run_agent st)\<lparr>uas_ua := Uas_Close (uas_ua (run_agent st))\<rparr>\<rparr>, log),
        \<lambda>(st, log). Some (st, log @ fst (Manager_Close pc mc (run_manager st)))] (st, [])"

definition uac_shutdown ::
  "bool \<Rightarrow> bool \<Rightarrow> (nat \<Rightarrow> int \<times> int) \<Rightarrow> ('l, nat Uac \<times> (string \<times> string \<times> int)) running \<Rightarrow>
   (('l, nat Uac \<times> (string \<times> string \<times> int)) running \<times> 'l close_event list) option" where
  "uac_shutdown pc mc polls st =
     waitShutdown
       [\<lambda>(st, log). map_option (\<lambda>(c, k). (st\<lparr>run_agent := ((fst (run_agent st))\<lparr>uac_ua := (uac_ua (fst (run_agent st)))\<lparr>cancelled := c\<rparr>\<rparr>,
             snd (run_agent st))\<rparr>, log)) (Uac_Close polls (cancelled (uac_ua (fst (run_agent st))))),
        \<lambda>(st, log). Some (st, log @ fst (Manager_Close pc mc (run_manager st)))] (st, [])"

text \<open>
  Both leave nothing attached to an interface. The caller's ends, since its \<open>Close\<close> does not wait
  for ever; the callee's does not touch the agent: calls in progress are cut off.
\<close>

lemma uas_shutdown_detaches:
  "uas_shutdown pc mc st =
     Some (st, map Close_Link (m_links (run_manager st)) @ Close_Program # (if pc then [Close_Map] else []))"
  by (simp add: uas_shutdown_def Uas_Close_def baseUa_Close_def Manager_Close_events)

lemma uac_shutdown_detaches:
  assumes "\<forall>k. int k * 1000000000 \<le> snd (polls k)"
  shows "\<exists>st'. uac_shutdown pc mc polls st =
      Some (st', map Close_Link (m_links (run_manager st)) @ Close_Program # (if pc then [Close_Map] else []))
    \<and> cancelled (uac_ua (fst (run_agent st')))"
proof -
  obtain k where "Uac_Close polls (cancelled (uac_ua (fst (run_agent st)))) = Some (True, k)"
    using shutdown_bounded [OF assms] by blast
  then show ?thesis by (simp add: uac_shutdown_def Manager_Close_events)
qed

subsection \<open>A started agent\<close>

text \<open>What the theorems about calls ask of an agent.\<close>

definition ready :: "nat baseUa \<Rightarrow> bool" where
  "ready u \<longleftrightarrow>
     pool_wf u \<and> ports u = {} \<and> dialogs u = Map.empty \<and> metricsCurrentDialogs u = 0 \<and> 0 < RtpPortMin u
     \<and> well_equipped u"

lemma newBaseUa_Ok:
  assumes "newBaseUa env c m = (Ok u, m')"
  shows "NewTimeRange (cfg_RingingTimeout c) = Ok (ringingTimeRange u) \<and> NewTimeRange (cfg_AnswerTimeout c) = Ok (answerTimeRange u)
    \<and> load_media env 0 (cfg_EarlyMedia c) = Ok (EarlyMedia u) \<and> load_media env 1 (cfg_AnswerMedia c) = Ok (AnswerMedia u)
    \<and> xdpSocketsLB u = NewRoundRobin [0..<length (sockets u)] \<and> metricsCurrentDialogs u = 0
    \<and> RtpPortMin u = cfg_RtpPortMin c \<and> RtpPortMax u = cfg_RtpPortMax c"
proof -
  from assms obtain ringing answer early media where
    parts: "NewTimeRange (cfg_RingingTimeout c) = Ok ringing" "NewTimeRange (cfg_AnswerTimeout c) = Ok answer"
      "load_media env 0 (cfg_EarlyMedia c) = Ok early" "load_media env 1 (cfg_AnswerMedia c) = Ok media"
    and xdp: "initXDP env m (cfg_Interface c) ((blank_ua c)\<lparr>ringingTimeRange := ringing, answerTimeRange := answer,
      EarlyMedia := early, AnswerMedia := media\<rparr>) = (Ok u, m')"
    by (cases "NewTimeRange (cfg_RingingTimeout c)"; cases "NewTimeRange (cfg_AnswerTimeout c)";
        cases "load_media env 0 (cfg_EarlyMedia c)"; cases "load_media env 1 (cfg_AnswerMedia c)")
      (simp_all add: newBaseUa_def)
  from xdp obtain socks where "u = (blank_ua c)\<lparr>ringingTimeRange := ringing, answerTimeRange := answer,
      EarlyMedia := early, AnswerMedia := media, sockets := socks, xdpSocketsLB := NewRoundRobin [0..<length socks]\<rparr>"
    by (auto simp: initXDP_def map_ok_Ok_iff split: res.splits prod.splits option.splits)
  with parts show ?thesis by (simp add: blank_ua_def)
qed

text \<open>
  A system on which everything works, with \<open>q\<close> queues that can be bound, and flags that it can be
  started with.
\<close>

definition system_works :: "'l command_env \<Rightarrow> string \<Rightarrow> nat \<Rightarrow> bool" where
  "system_works e ifname q \<longleftrightarrow>
     (\<exists>t. readTable (ce_arp e) = Ok t) \<and> (\<exists>r. New (ce_sort e) (ce_kernel e) = Ok r) \<and> ce_rlimit e \<and> ce_spec e \<and> ce_assign e
     \<and> sip_setup (ce_sip e) = ([], None)
     \<and> (\<exists>index m. getIfindexByName (env_ifaces (ce_ua e)) ifname = Ok index
          \<and> BindInterfaces (env_attach (ce_ua e)) [index] \<lparr>m_links = []\<rparr> = (None, m))
     \<and> (\<forall>i. sys_sane (env_sys (ce_ua e) i) \<and> queue_opens (env_sys (ce_ua e) i) \<and> (s_bind (env_sys (ce_ua e) i) \<longleftrightarrow> i < q))"

definition flags_fit :: "'l ua_env \<Rightarrow> BaseUaConfig \<Rightarrow> bool" where
  "flags_fit env c \<longleftrightarrow>
     (\<exists>ringing answer. specs_fit ringing \<and> specs_fit answer
        \<and> cfg_RingingTimeout c = show_specs ringing \<and> cfg_AnswerTimeout c = show_specs answer)
     \<and> (\<exists>early media. load_media env 0 (cfg_EarlyMedia c) = Ok early \<and> load_media env 1 (cfg_AnswerMedia c) = Ok media)
     \<and> (\<exists>k. XDPSize c = 2 ^ k \<and> 1 \<le> k \<and> k \<le> 32)
     \<and> range_ok (cfg_RtpPortMin c) (cfg_RtpPortMax c) \<and> 0 < cfg_RtpPortMin c"

lemma defaults_fit: "flags_fit env base_defaults"
proof -
  have strs: "show_specs [Fixed 5 None] = ''5''" "show_specs [Fixed 20 None] = ''20''" "show_int 30 = ''30''" by code_simp+
  have fit: "specs_fit [Fixed 5 None]" "specs_fit [Fixed 20 None]" by (simp_all add: specs_fit_def)
  have "\<exists>pkts. load_media env k ''30'' = Ok pkts" for k
    using LoadRTP_noise [of 30 "env_file env" "env_capture env" "fst (env_rand env k)" "snd (env_rand env k)"]
    by (auto simp: load_media_def strs)
  then have "\<exists>early media. load_media env 0 ''30'' = Ok early \<and> load_media env 1 ''30'' = Ok media" by blast
  moreover have "\<exists>rs as. specs_fit rs \<and> specs_fit as \<and> ''5'' = show_specs rs \<and> ''20'' = show_specs as"
    using fit strs(1,2) [symmetric] by blast
  moreover have "\<exists>k. (4096 :: int) = 2 ^ k \<and> 1 \<le> k \<and> k \<le> 32" by (rule exI [of _ 12]) simp
  ultimately show ?thesis
    unfolding flags_fit_def base_defaults_def BaseUaConfig.simps by (simp add: range_ok_def)
qed

lemma newBaseUa_ready:
  assumes "system_works e (cfg_Interface c) q" "0 < q" "flags_fit (ce_ua e) c"
  shows "\<exists>u m. newBaseUa (ce_ua e) c \<lparr>m_links = []\<rparr> = (Ok u, m) \<and> ready u \<and> length (sockets u) = min q 16"
proof -
  from assms(3) obtain rs as early media k where
    specs: "specs_fit rs" "specs_fit as" "cfg_RingingTimeout c = show_specs rs" "cfg_AnswerTimeout c = show_specs as"
    and media: "load_media (ce_ua e) 0 (cfg_EarlyMedia c) = Ok early" "load_media (ce_ua e) 1 (cfg_AnswerMedia c) = Ok media"
    and k: "XDPSize c = 2 ^ k" "1 \<le> k" "k \<le> 32"
    and range: "range_ok (cfg_RtpPortMin c) (cfg_RtpPortMax c)" "0 < cfg_RtpPortMin c"
    unfolding flags_fit_def by blast
  from NewTimeRange_from [OF specs(1)] NewTimeRange_from [OF specs(2)] obtain ringing answer where
    ranges: "NewTimeRange (cfg_RingingTimeout c) = Ok ringing" "tr_from rs ringing"
      "NewTimeRange (cfg_AnswerTimeout c) = Ok answer" "tr_from as answer" using specs(3,4) by auto
  from assms(1) obtain index m where
    iface: "getIfindexByName (env_ifaces (ce_ua e)) (cfg_Interface c) = Ok index"
      "BindInterfaces (env_attach (ce_ua e)) [index] \<lparr>m_links = []\<rparr> = (None, m)"
    and socks: "\<forall>i. sys_sane (env_sys (ce_ua e) i) \<and> queue_opens (env_sys (ce_ua e) i) \<and> (s_bind (env_sys (ce_ua e) i) \<longleftrightarrow> i < q)"
    unfolding system_works_def by blast
  obtain u :: "nat baseUa" where
    u: "newBaseUa (ce_ua e) c \<lparr>m_links = []\<rparr> = (Ok u, m)" "length (sockets u) = min q 16" "pool_wf u" "ports u = {}" "dialogs u = Map.empty"
    using newBaseUa_queues [OF ranges(1,3) media iface socks k range(1)] by blast
  have "range_fine (ringingTimeRange u)" "range_fine (answerTimeRange u)"
    using newBaseUa_Ok [OF u(1)] ranges specs(1,2) by (auto simp: range_fine_def specs_fit_def)
  moreover have "rr_wf (xdpSocketsLB u)"
    using newBaseUa_Ok [OF u(1)] u(2) assms(2) by (simp add: rr_wf_def NewRoundRobin_def)
  ultimately have "ready u" using newBaseUa_Ok [OF u(1)] u range(2) by (simp add: ready_def well_equipped_def)
  then show ?thesis using u by blast
qed

lemma command_start_Ok:
  assumes "system_works e ifname q" "new \<lparr>m_links = []\<rparr> = (Ok a, m, closed)"
  shows "\<exists>st. command_start e new = Ok st \<and> readTable (ce_arp e) = Ok (run_arp st)
    \<and> New (ce_sort e) (ce_kernel e) = Ok (run_router st) \<and> run_agent st = a"
  using assms
  by (auto simp: system_works_def command_start_def arp_MustInit_def routing_MustInit_def Manager_New_def loadXdpsipbenchObjects_def loadXdpsipbench_def)

lemma runUas_Ok:
  assumes "runUas env sip c m = (Ok a, m', closed)"
  shows "newBaseUa env (uas_Base c) m = (Ok (uas_ua a), m') \<and> answerChance a = answer_chance (AnswerChance c)
    \<and> NatAddress (uas_config a) = (if NatAddress c = [] then uas_Address c else NatAddress c)"
  using assms by (auto simp: runUas_def Let_def split: if_splits prod.splits option.splits res.splits)

text \<open>What a call of a running callee works with: its address, and, before their first refresh, the tables.\<close>

definition uas_env :: "('l, nat Uas) running \<Rightarrow> 's dialog_env \<Rightarrow> 's dialog_env" where
  "uas_env st env =
     env\<lparr>e_tables := \<lambda>n. (Some (run_router st), run_arp st), e_addr := NatAddress (uas_config (run_agent st))\<rparr>"

lemma newUasCommand_Run_ready:
  assumes "system_works e (cfg_Interface (uas_Base c)) q" and "0 < q" and "flags_fit (ce_ua e) (uas_Base c)"
    and "newUasCommand_Run e c = Ok st"
  shows "ready (uas_ua (run_agent st)) \<and> answerChance (run_agent st) = answer_chance (AnswerChance c)
    \<and> NatAddress (uas_config (run_agent st)) = (if NatAddress c = [] then uas_Address c else NatAddress c)
    \<and> RtpPortMin (uas_ua (run_agent st)) = cfg_RtpPortMin (uas_Base c)
    \<and> RtpPortMax (uas_ua (run_agent st)) = cfg_RtpPortMax (uas_Base c)"
proof -
  from newBaseUa_ready [OF assms(1-3)] obtain u m where
    u: "newBaseUa (ce_ua e) (uas_Base c) \<lparr>m_links = []\<rparr> = (Ok u, m)" "ready u" by blast
  obtain m' closed where run: "runUas (ce_ua e) (ce_sip e) c \<lparr>m_links = []\<rparr> = (Ok (run_agent st), m', closed)"
    using assms(4)
    by (auto simp: newUasCommand_Run_def command_start_def Manager_New_def loadXdpsipbenchObjects_def loadXdpsipbench_def split: option.splits res.splits prod.splits sum.splits if_splits)
  from runUas_Ok [OF this] u have a: "uas_ua (run_agent st) = u" "answerChance (run_agent st) = answer_chance (AnswerChance c)"
      "NatAddress (uas_config (run_agent st)) = (if NatAddress c = [] then uas_Address c else NatAddress c)" by simp_all
  moreover have "RtpPortMin u = cfg_RtpPortMin (uas_Base c)" "RtpPortMax u = cfg_RtpPortMax (uas_Base c)"
    using newBaseUa_Ok [OF u(1)] by simp_all
  ultimately show ?thesis using u(2) by simp
qed

lemma newUasCommand_Run_Ok:
  assumes "system_works e (cfg_Interface (uas_Base c)) q" and "0 < q" and "flags_fit (ce_ua e) (uas_Base c)"
    and "0 \<le> AnswerChance c" and "AnswerChance c \<le> 100"
  shows "\<exists>st. newUasCommand_Run e c = Ok st \<and> readTable (ce_arp e) = Ok (run_arp st)
    \<and> New (ce_sort e) (ce_kernel e) = Ok (run_router st)"
proof -
  from newBaseUa_ready [OF assms(1-3)] obtain u :: "nat baseUa" and m where
    u: "newBaseUa (ce_ua e) (uas_Base c) \<lparr>m_links = []\<rparr> = (Ok u, m)" by blast
  have "sip_setup (ce_sip e) = ([], None)" using assms(1) by (simp add: system_works_def)
  then have "\<exists>a :: nat Uas. runUas (ce_ua e) (ce_sip e) c \<lparr>m_links = []\<rparr> = (Ok a, m, [])"
    using assms(4,5) u by (simp add: runUas_def Let_def)
  then obtain a :: "nat Uas" where "runUas (ce_ua e) (ce_sip e) c \<lparr>m_links = []\<rparr> = (Ok a, m, [])" by blast
  from command_start_Ok [where new = "runUas (ce_ua e) (ce_sip e) c", OF assms(1) this] show ?thesis unfolding newUasCommand_Run_def by blast
qed

text \<open>The port of a call that is alone.\<close>

lemma gets_port_alone:
  assumes "alone env" "pool_wf (w_ua w)" "ports (w_ua w) = {}" "10 \<le> RtpPortMax (w_ua w) - RtpPortMin (w_ua w)"
  shows "\<exists>p u. gets_port env callId d w = Some (p, u, w_rules w, w_ua w)
    \<and> RtpPortMin (w_ua w) \<le> uint p \<and> uint p < RtpPortMax (w_ua w) \<and> even (uint p - RtpPortMin (w_ua w))"
proof -
  let ?u = "enter_ua callId d (w_ua w)"
  have "pool_wf ?u" "10 \<le> portsMax ?u - portsUsed ?u" "RtpPortMin ?u = RtpPortMin (w_ua w)" "RtpPortMax ?u = RtpPortMax (w_ua w)"
    using assms by (simp_all add: pool_wf_def enter_ua_def)
  with getPort_wf_cases [of ?u] show ?thesis using assms(1) by (auto simp: gets_port_def alone_def)
qed

text \<open>
  C21. From the flags to the calls: on a system that works, with flags that fit, both commands start, and
  their agents are what the theorems about calls ask for: an unused pool of ports, an empty table,
  durations that can be drawn for ever and sockets to be shared; the callee answers the share of calls
  that the flag says. The default flags fit.
\<close>

theorem started_agents_ready:
  assumes "system_works e (cfg_Interface (uas_Base c)) q" and "0 < q" and "flags_fit (ce_ua e) (uas_Base c)"
    and "0 \<le> AnswerChance c" and "AnswerChance c \<le> 100" and "uac_Base c' = uas_Base c"
    and "parseIPPort dest = Ok (host, port)"
  shows "(\<exists>st. newUasCommand_Run e c = Ok st \<and> readTable (ce_arp e) = Ok (run_arp st)
      \<and> New (ce_sort e) (ce_kernel e) = Ok (run_router st) \<and> ready (uas_ua (run_agent st))
      \<and> answerChance (run_agent st) = answer_chance (AnswerChance c))
    \<and> (\<exists>st. newUacCommand_Run e c' [dest] = Ok st \<and> readTable (ce_arp e) = Ok (run_arp st)
      \<and> New (ce_sort e) (ce_kernel e) = Ok (run_router st) \<and> ready (uac_ua (fst (run_agent st)))
      \<and> snd (run_agent st) = (cfg_User c', host, port))
    \<and> flags_fit (ce_ua e) base_defaults"
proof -
  from newBaseUa_ready [OF assms(1-3)] obtain u m where
    u: "newBaseUa (ce_ua e) (uas_Base c) \<lparr>m_links = []\<rparr> = (Ok u, m)" "ready u" by blast
  have sip: "sip_setup (ce_sip e) = ([], None)" using assms(1) by (simp add: system_works_def)
  have "\<exists>a'. runUac (ce_ua e) (ce_sip e) c' dest \<lparr>m_links = []\<rparr> = (Ok (a', (cfg_User c', host, port)), m, []) \<and> uac_ua a' = u"
    using assms(6,7) sip u(1) by (simp add: runUac_def)
  then obtain a' where a': "runUac (ce_ua e) (ce_sip e) c' dest \<lparr>m_links = []\<rparr> = (Ok (a', (cfg_User c', host, port)), m, [])"
      "uac_ua a' = u" by blast
  from newUasCommand_Run_Ok [OF assms(1-5)] newUasCommand_Run_ready [OF assms(1-3)]
  have "\<exists>st. newUasCommand_Run e c = Ok st \<and> readTable (ce_arp e) = Ok (run_arp st)
      \<and> New (ce_sort e) (ce_kernel e) = Ok (run_router st) \<and> ready (uas_ua (run_agent st))
      \<and> answerChance (run_agent st) = answer_chance (AnswerChance c)" by blast
  moreover have "\<exists>st. newUacCommand_Run e c' [dest] = Ok st \<and> readTable (ce_arp e) = Ok (run_arp st)
      \<and> New (ce_sort e) (ce_kernel e) = Ok (run_router st) \<and> ready (uac_ua (fst (run_agent st)))
      \<and> snd (run_agent st) = (cfg_User c', host, port)"
    using command_start_Ok [OF assms(1), where new = "\<lambda>m. case index_slice [dest] 0 of Ok dest \<Rightarrow> runUac (ce_ua e) (ce_sip e) c' dest m
        | Err u \<Rightarrow> (Err u, m, []) | Panic p \<Rightarrow> (Panic p, m, [])"] a' u(2)
    unfolding newUacCommand_Run_def by fastforce
  ultimately show ?thesis using defaults_fit by blast
qed

text \<open>A system with four queues, a neighbour and a default route.\<close>

definition sample_neighbours :: "arp_entry list" where
  "sample_neighbours = [\<lparr>ae_ip = [10, 0, 0, 2], ae_flags = ''0x2'', ae_mac = [2, 0, 0, 0, 0, 2], ae_dev = ''eth0''\<rparr>]"

definition sample_kernel :: kernel where
  "sample_kernel =
     \<lparr>k_rib = Some (Some [\<lparr>msg_Type = RTM_NEWROUTE, msg_Data = [2, 0, 0, 0], msg_attrs = Some [(RTA_OIF, [2, 0, 0, 0])]\<rparr>]),
      k_ifaces = Some [(\<lparr>if_Index = 2, HardwareAddr = [2, 0, 0, 0, 0, 1]\<rparr>, Some [Addr_IPNet [10, 0, 0, 1]])]\<rparr>"

definition sample_system :: "nat command_env" where
  "sample_system =
     \<lparr>ce_arp = Some (arp_text ''IP address'' sample_neighbours), ce_kernel = sample_kernel, ce_sort = sort_key Priority,
      ce_rlimit = True, ce_spec = True, ce_assign = True, ce_ua = sample_env 4, ce_sip = \<lparr>sa_ua = True, sa_server = True, sa_client = True\<rparr>\<rparr>"

lemma sample_tables:
  "readTable (ce_arp sample_system) = Ok (map_of [(show_ipv4 [10, 0, 0, 2], [2, 0, 0, 0, 0, 2])])"
  "New (ce_sort sample_system) (ce_kernel sample_system) =
     Ok \<lparr>ifaces = [2 \<mapsto> \<lparr>if_Index = 2, HardwareAddr = [2, 0, 0, 0, 0, 1]\<rparr>], if_order = [2],
         addrs = [2 \<mapsto> To4 [10, 0, 0, 1]], v4 = [zero_rtInfo\<lparr>OutputIface := 2\<rparr>]\<rparr>"
proof -
  have "\<forall>e \<in> set sample_neighbours. arp_entry_ok e"
    by (simp add: sample_neighbours_def arp_entry_ok_def is_space_def)
  from readTable_kernel [OF this, of "''IP address''"]
  show "readTable (ce_arp sample_system) = Ok (map_of [(show_ipv4 [10, 0, 0, 2], [2, 0, 0, 0, 0, 2])])"
    by (simp add: sample_system_def sample_neighbours_def)
  show "New (ce_sort sample_system) (ce_kernel sample_system) =
     Ok \<lparr>ifaces = [2 \<mapsto> \<lparr>if_Index = 2, HardwareAddr = [2, 0, 0, 0, 0, 1]\<rparr>], if_order = [2],
         addrs = [2 \<mapsto> To4 [10, 0, 0, 1]], v4 = [zero_rtInfo\<lparr>OutputIface := 2\<rparr>]\<rparr>"
    by (simp add: New_def sample_system_def sample_kernel_def netlink_constants raw_byte_def raw_u32_def split: option.split)
qed

lemma sample_system_works: "system_works sample_system ''eth0'' 4"
proof -
  have "getIfindexByName (env_ifaces (sample_env 4)) ''eth0'' = Ok 2"
      "BindInterfaces (env_attach (sample_env 4)) [2] \<lparr>m_links = []\<rparr> = (None, \<lparr>m_links = [7]\<rparr>)"
    by (simp_all add: sample_env_def getIfindexByName_def)
  then show ?thesis
    using sample_tables by (simp add: system_works_def)
      (simp add: sample_system_def sip_setup_def sample_env_def sys_sane_def queue_opens_def all_well_def)
qed

theorem started_agents_ready_witness:
  "(\<exists>st. newUasCommand_Run sample_system uas_defaults = Ok st \<and> ready (uas_ua (run_agent st)))
   \<and> (\<exists>st. newUacCommand_Run sample_system uac_defaults [''10.0.0.2''] = Ok st
       \<and> snd (run_agent st) = ([], ''10.0.0.2'', 5060))"
proof -
  have "system_works sample_system (cfg_Interface (uas_Base uas_defaults)) 4"
    using sample_system_works by (simp add: uas_defaults_def base_defaults_def)
  moreover have "parseIPPort ''10.0.0.2'' = Ok (''10.0.0.2'', 5060)" by (simp add: parseIPPort_def)
  moreover have "flags_fit (ce_ua sample_system) (uas_Base uas_defaults)" by (simp add: uas_defaults_def defaults_fit)
  ultimately show ?thesis
    using started_agents_ready [of sample_system uas_defaults 4 uac_defaults "''10.0.0.2''" "''10.0.0.2''" 5060]
    by (auto simp: uas_defaults_def uac_defaults_def)
qed

text \<open>
  C6. From the flags to a finished call. A callee that has been started on a system that works, with
  flags that fit and the chance to answer at 100 per cent, and that is then called with a valid plain
  description by a peer whom its tables reach and who does not hang up, with no other call
  going on and no message failing, answers 100, 183 and 200 with its public address and an
  even offset into its range of ports, and ends the call with BYE, unless the dice show the one
  number out of 2^32 for which it would still be busy; afterwards its pool and its table are as empty as
  at the start.
\<close>

theorem first_call_from_flags:
  assumes "system_works e (cfg_Interface (uas_Base c)) q" and "0 < q" and "flags_fit (ce_ua e) (uas_Base c)"
    and "AnswerChance c = 100" and "cfg_RtpPortMin (uas_Base c) + 10 \<le> cfg_RtpPortMax (uas_Base c)"
    and "newUasCommand_Run e c = Ok st" and "w_ua w = uas_ua (run_agent st)"
    and "alone env" and "\<forall>k. e_send env k \<and> \<not> e_hangup env k" and "rnd \<noteq> - 1"
    and "getAudioMediaFromSDP (e_unmarshal env) body = Ok (remote # others)"
    and "reachable_peer (uas_env st env) (addr remote)"
    and "\<forall>p. fst (ebpf_Update (e_ops env) [p, p + 1] (w_rules w)) = None"
    and "public = (if NatAddress c = [] then uas_Address c else NatAddress c)"
  shows "\<exists>r w' p. Uas_onInvite (uas_env st env) True rnd (answerChance (run_agent st)) callId d
        (Some ''application/sdp'') body w = Some (r, w')
    \<and> cfg_RtpPortMin (uas_Base c) \<le> uint p \<and> uint p < cfg_RtpPortMax (uas_Base c)
    \<and> even (uint p - cfg_RtpPortMin (uas_Base c))
    \<and> map fst (w_sent w') = [Trying, Progress (sdpBase public p), Answer (sdpBase public p), Bye]
    \<and> ports (w_ua w') = {} \<and> dialogs (w_ua w') = Map.empty \<and> metricsCurrentDialogs (w_ua w') = 0"
proof -
  let ?env = "uas_env st env" and ?u = "uas_ua (run_agent st)"
  from newUasCommand_Run_ready [OF assms(1-3,6)] assms(4) have
    st: "ready ?u" "answerChance (run_agent st) = answer_chance 100" "e_addr ?env = public"
      "RtpPortMin ?u = cfg_RtpPortMin (uas_Base c)" "RtpPortMax ?u = cfg_RtpPortMax (uas_Base c)"
    using assms(14) by (simp_all add: uas_env_def)
  have env: "alone ?env" "\<forall>k. e_send ?env k" "\<not> e_hangup ?env k" "e_unmarshal ?env = e_unmarshal env" "e_ops ?env = e_ops env" for k
    using assms(8,9) by (simp_all add: uas_env_def alone_def)
  have fair: "others_fair ?env callId" using env(1) by (simp add: others_fair_def alone_def)
  have w: "pool_wf (w_ua w)" "ports (w_ua w) = {}" "dialogs (w_ua w) = Map.empty" "metricsCurrentDialogs (w_ua w) = 0"
      "well_equipped (w_ua w)" "in_int64 (metricsCurrentDialogs (w_ua w))"
    using st(1) assms(7) by (simp_all add: ready_def in_int64_def)
  have room: "10 \<le> RtpPortMax (w_ua w) - RtpPortMin (w_ua w)" using st(4,5) assms(5,7) by simp
  from gets_port_alone [OF env(1) w(1,2) room, of callId d] obtain p u where
    p: "gets_port ?env callId d w = Some (p, u, w_rules w, w_ua w)"
      "cfg_RtpPortMin (uas_Base c) \<le> uint p" "uint p < cfg_RtpPortMax (uas_Base c)" "even (uint p - cfg_RtpPortMin (uas_Base c))"
    using st(4,5) assms(7) by auto
  have "{r :: u32. r < answer_chance 100} = UNIV - {- 1}" using answer_chance_share [of 100] by simp
  then have "rnd < answerChance (run_agent st)" using assms(10) unfolding st(2) by blast
  moreover have "fst (ebpf_Update (e_ops ?env) [p, p + 1] (w_rules w)) = None" using assms(13) env(5) by simp
  moreover have "getAudioMediaFromSDP (e_unmarshal ?env) body = Ok (remote # others)" using assms(11) env(4) by simp
  ultimately obtain r w' where
    run: "Uas_onInvite ?env True rnd (answerChance (run_agent st)) callId d (Some ''application/sdp'') body w = Some (r, w')"
    and rel: "released callId w'" "alone ?env \<longrightarrow> w_others w' = w_ua w"
    and sent: "w_sent w' = map (\<lambda>m. (m, True)) ([Trying, Progress (sdpBase (e_addr ?env) p)]
        @ talk_after True (e_hangup ?env 0) (e_hangup ?env 1) (sdpBase (e_addr ?env) p))"
    using plain_call_goes_through [OF fair w(1,6,5) env(2) _ assms(12) p(1), of body others rnd "answerChance (run_agent st)"] by auto
  have "ports (w_ua w') = {} \<and> dialogs (w_ua w') = Map.empty \<and> metricsCurrentDialogs (w_ua w') = 0"
    using rel env(1) w(2-4) by (simp add: released_def)
  moreover have "map fst (w_sent w') = [Trying, Progress (sdpBase public p), Answer (sdpBase public p), Bye]"
    unfolding sent st(3) by (simp add: talk_after_def env(3))
  ultimately show ?thesis using run p(2-4) by (intro exI [of _ r] exI [of _ w'] exI [of _ p]) simp
qed

theorem first_call_from_flags_witness:
  "\<exists>st r w' p. newUasCommand_Run sample_system (uas_defaults\<lparr>uas_Address := ''10.0.0.1''\<rparr>) = Ok st
     \<and> Uas_onInvite (uas_env st (sample_calls\<lparr>e_others := \<lambda>n x. x\<rparr>)) True 7 (answerChance (run_agent st)) ''id'' 3
         (Some ''application/sdp'') [] (sample_call\<lparr>w_ua := uas_ua (run_agent st)\<rparr>) = Some (r, w')
     \<and> map fst (w_sent w') = [Trying, Progress (sdpBase ''10.0.0.1'' p), Answer (sdpBase ''10.0.0.1'' p), Bye]"
proof -
  let ?e = sample_system and ?c = "uas_defaults\<lparr>uas_Address := ''10.0.0.1''\<rparr>" and ?env = "sample_calls\<lparr>e_others := \<lambda>n x. x\<rparr>"
  have c: "system_works ?e (cfg_Interface (uas_Base ?c)) 4" "flags_fit (ce_ua ?e) (uas_Base ?c)" "AnswerChance ?c = 100"
      "cfg_RtpPortMin (uas_Base ?c) + 10 \<le> cfg_RtpPortMax (uas_Base ?c)"
      "''10.0.0.1'' = (if NatAddress ?c = [] then uas_Address ?c else NatAddress ?c)"
    using sample_system_works defaults_fit by (simp_all add: uas_defaults_def base_defaults_def)
  from newUasCommand_Run_Ok [OF c(1) _ c(2)] c(3) obtain st where
    st: "newUasCommand_Run ?e ?c = Ok st" and tables: "readTable (ce_arp ?e) = Ok (run_arp st)"
      "New (ce_sort ?e) (ce_kernel ?e) = Ok (run_router st)" by auto
  have "ParseIP (addr sample_remote) = v4_in_v6 @ [10, 0, 0, 2]"
    unfolding sample_remote_def mediaInfo.simps by (rule ParseIP_show) simp
  then have "To4 (ParseIP (addr sample_remote)) \<noteq> None" by (simp add: To4_def v4_in_v6_def)
  moreover have "run_arp st = map_of [(show_ipv4 [10, 0, 0, 2], [2, 0, 0, 0, 0, 2])]"
      "run_router st = \<lparr>ifaces = [2 \<mapsto> \<lparr>if_Index = 2, HardwareAddr = [2, 0, 0, 0, 0, 1]\<rparr>], if_order = [2],
         addrs = [2 \<mapsto> To4 [10, 0, 0, 1]], v4 = [zero_rtInfo\<lparr>OutputIface := 2\<rparr>]\<rparr>"
    using tables unfolding sample_tables by simp_all
  ultimately have reach: "reachable_peer (uas_env st ?env) (addr sample_remote)"
    by (auto simp: reachable_peer_def uas_env_def routing_Route_def Route_def RouteWithSrc_def route_def zero_rtInfo_def
        arp_Get_def sample_remote_def)
  have env: "alone ?env" "\<forall>k. e_send ?env k \<and> \<not> e_hangup ?env k" "e_ops ?env = e_ops sample_calls"
      "e_unmarshal ?env = e_unmarshal sample_calls"
    by (simp_all add: alone_def sample_calls_def)
  let ?w = "sample_call\<lparr>w_ua := uas_ua (run_agent st)\<rparr>"
  have "w_ua ?w = uas_ua (run_agent st)" "w_rules ?w = []" by (simp_all add: sample_call_def)
  moreover have "\<forall>p. fst (ebpf_Update (e_ops ?env) [p, p + 1] (w_rules ?w)) = None"
    using sample_updates unfolding env(3) calculation(2) by blast
  moreover have "getAudioMediaFromSDP (e_unmarshal ?env) [] = Ok [sample_remote]"
    unfolding env(4) by (rule sample_infos)
  ultimately show ?thesis
    using first_call_from_flags [OF c(1) _ c(2-4) st _ env(1,2) _ _ reach _ c(5), of ?w 7 "[]" "[]" "''id''" 3] st
    by fastforce
qed

end
