(* ===== verification/Spec2Isabelle.thy ===== *)
theory Spec2Isabelle
  imports Distributor Time_Range Pcm Randutils Rtp Routing Arp Ebpf Xdp_Tx Ports_Par Handlers_Par Two_Agents Commands
begin

text \<open>
  Models and proofs for sipbench, a load generator for SIP calls written in Go. One process is either
  the callee (\<open>src/uas.go\<close>) or the caller (\<open>src/uac.go\<close>); each call is a goroutine that works on state
  shared with the others (\<open>src/ua.go\<close>): a pool of RTP ports, a table of dialogs, the receive counters
  in the kernel (\<open>src/ebpf\<close>), and AF\_XDP sockets (\<open>src/pkg/xdp\<close>) through which media frames
  (\<open>src/media.go\<close>) are sent, bypassing the kernel's network stack, which is why the program also keeps a
  routing table (\<open>src/routing\<close>) and an ARP table (\<open>src/arp\<close>) of its own.

  Theories, in the order of their dependencies:

  \<^item> \<open>Prelude\<close>: outcomes (\<open>res\<close>: a value, an error, a panic), 64-bit signed wrap-around, byte buffers,
    big-endian fields. \<open>Strconv\<close>: the functions of Go's \<open>strings\<close> and \<open>strconv\<close> that are used.
  \<^item> \<open>Distributor\<close> (\<open>src/pkg/distributor\<close>): round robin and weighted round robin. Each resource is handed
    out as often as its weight says, within the bounds of the counters. \<open>Time_Range\<close> (\<open>src/pkg/time_range.go\<close>): the duration flags.
  \<^item> \<open>Pcm\<close> (\<open>src/pkg/pcm\<close>): A-law and mu-law with their tables. \<open>Randutils\<close> (\<open>src/pkg/randutils\<close>): random
    identifiers. \<open>Rtp\<close> (\<open>src/rtp\<close>): the media files and white noise as RTP packets.
  \<^item> \<open>Net_Addr\<close>: addresses of Go's \<open>net\<close>. \<open>Routing\<close>, \<open>Arp\<close>: from the kernel's answers to \<open>Route\<close> and \<open>Get\<close>.
  \<^item> \<open>Ebpf\<close> (\<open>src/ebpf\<close>): the rules map with its laws as the locale \<open>rules_map\<close>, the \<open>Manager\<close>, and the
    XDP program from its C source. \<open>Ebpf_Objects\<close>: its generated bindings.
  \<^item> \<open>Bounded_Queue\<close>, \<open>Go_Chan\<close>, \<open>Xdp_Ring\<close>: the abstract bounded queue and its two implementations,
    channels and rings. \<open>Xdp_Socket\<close>: the operations of the socket. \<open>Xdp_Tx\<close>: the transmit path as a
    transition relation of senders, worker, transmitter and kernel, which refines a bounded queue.
  \<^item> \<open>Ports\<close> and \<open>Ports_Par\<close> (\<open>getPort\<close>, \<open>freePort\<close> of \<open>src/ua.go\<close>): the pool as functions, with the
    contract \<open>port_allocator\<close> that the calls rely on, and as the atomic steps of concurrent callers.
    \<open>Ua\<close>: the shared state and how \<open>newBaseUa\<close> makes it.
  \<^item> \<open>Media_Packet\<close>, \<open>Media\<close> (\<open>src/media.go\<close>): headers and checksum of a frame, playback and its
    goroutine. \<open>Sdp\<close>: the session descriptions that are sent and read.
  \<^item> \<open>Go_Proc\<close>: procedures with state, errors, panics and \<open>defer\<close>, and their weakest preconditions.
    \<open>Other_Calls\<close>: what other calls may do to the shared state between two statements of a call.
    \<open>Dialog\<close>: what both kinds of dialogs of \<open>src/dialog.go\<close> do. \<open>Dialog_Uas\<close>, \<open>Dialog_Uac\<close>: the handlers of
    an incoming and an outgoing call, \<open>Uas_Calls\<close>, \<open>Uac_Calls\<close>: these calls from the first message to the
    deferred \<open>Close\<close>. \<open>Calls_Par\<close>: all calls of an agent, operation by operation. \<open>Handlers_Par\<close>: the handlers
    do nothing but these operations. \<open>Two_Agents\<close>: a caller and a callee connected by their messages.
  \<^item> \<open>Call_Maker\<close> (\<open>startCallMaker\<close> and \<open>Close\<close> of \<open>src/uac.go\<close>): loop, calls and shutdown as steps.
    \<open>Agents\<close>: the settings, the handlers of requests inside dialogs, the table of dialogs while calls
    come and go, the refresh timer. \<open>Commands\<close>: the \<open>Run\<close> functions of the two commands, from the flags and
    their defaults to a running agent (\<open>command_start\<close>) and from there to the shutdown.

  What the lemmas show. For the data (flags, media, companding, addresses, tables): round trips with
  printers, bounds, and the outcome on each error. For the shared resources: the pool never hands out
  a port twice and counts its ports right, and the transmit path neither loses nor reorders, under every interleaving; where the
  code fails to give this, the failing schedule is a theorem. For the calls: whatever the peer, the
  system, the SIP library and the other calls do, a call returns and gives back what it took (by the invariants
  \<open>uas_inv\<close> and \<open>uac_inv\<close>, which every statement preserves), its messages are in an order that SIP
  allows, and it is carried through when its parts work. For the whole: with fitting flags, as the
  defaults are, and a working system the commands start agents of the kind that these theorems ask for,
  and the callee's first call goes through (\<open>Commands\<close>).

  Bounds and fuel. Machine integers are words or carry an explicit wrap-around (\<open>wrap64\<close>); lengths and
  indices of Go slices are natural numbers. Loops that may not end (\<open>getPort\<close>, the wait of the
  shutdown) are partial functions, and that they return is proved, or that they do not. \<open>RandString\<close>
  runs on fuel, one unit for each 6-bit piece of the random numbers: it returns with it exactly when
  enough pieces are indices of letters (\<open>RandString_correct\<close>), for which ten units for each letter suffice
  when every number has such a piece, and no fuel does when none ever comes.

  Parameters. Random numbers, times, files, system calls, kernel maps and the libraries for SIP,
  SDP, MIME, captures and checksums are arguments of the definitions; what is relied on is a named
  hypothesis or a locale with an interpretation (\<open>rules_map\<close> on a hash map, \<open>priority_sort\<close> on
  insertion sort, the checksum on the ones' complement sum).

  Interleaving. A call is a procedure, and before each of its operations on shared state and during
  each of its waits the other calls have a turn, in which they may do any operations of calls
  (\<open>others_fair\<close>); \<open>w_others\<close> follows what the agent would be without the call. \<open>Calls_Par\<close> shows that
  runs of other calls are such turns, and \<open>Handlers_Par\<close> that the handlers, amid such turns, are themselves
  calls of this kind, which closes the circle: what each call takes for granted of the others, it does. An operation is
  atomic there, also \<open>getPort\<close>, \<open>freePort\<close>, \<open>Update\<close> and \<open>LookupAndDelete\<close>, the removal of a table entry together with the change of the counts that goes with
  it; the finer steps of the first two are treated in \<open>Ports_Par\<close>. The
  tables of routes and neighbours may be replaced at any turn (\<open>e_tables\<close>). The turns are
  assumed not to use the Call-ID of the call; \<open>Agents\<close> shows what happens otherwise.

  Not modelled. The parsing of the command line (cobra), \<open>main\<close>, logging, \<open>router.String\<close>, the
  listening goroutines, which only call the SIP library, the types and the embedding in the generated
  eBPF bindings, the durations
  of sleeps and tickers, and the memory model of Go beyond the interleavings named above.
\<close>

end
